(* ===== verification/MC_Prelude.thy ===== *)
theory MC_Prelude
  imports Main
begin

text \<open>
  The shared layer of the development: the exceptions a handler can throw, the parts of the
  JavaScript standard library the program uses on strings and arrays, decimal conversion, and the
  generic lemmas on lists of rows that the components share.

  Strings are sequences of UTF-16 code units below 256 (Isabelle's \<^typ>\<open>char\<close>).
\<close>

named_theorems svc_defs \<open>definitions of the service operations\<close>
named_theorems row_simps \<open>how updates of rows act on the columns of a table\<close>

section \<open>Exceptions and HTTP\<close>

text \<open>
  The exceptions of \<open>@nestjs/common\<close> that the program throws, an exception of the validation pipe,
  and every other error, which Nest's exception filter turns into status 500.
\<close>

datatype http_exception =
    ValidationFailed
  | BadRequest string
  | Unauthorized string
  | Forbidden string
  | NotFound string
  | Conflict string
  | ServiceUnavailable string
  | InternalError

primrec http_status :: "http_exception \<Rightarrow> nat" where
  "http_status ValidationFailed = 400"
| "http_status (BadRequest m) = 400"
| "http_status (Unauthorized m) = 401"
| "http_status (Forbidden m) = 403"
| "http_status (NotFound m) = 404"
| "http_status (Conflict m) = 409"
| "http_status (ServiceUnavailable m) = 503"
| "http_status InternalError = 500"

section \<open>JavaScript strings and arrays\<close>

definition startsWith :: "string \<Rightarrow> string \<Rightarrow> bool" where
  "startsWith p s \<longleftrightarrow> take (length p) s = p"

lemma startsWith_append [simp]: "startsWith p (p @ s)"
  by (simp add: startsWith_def)

lemma startsWith_iff: "startsWith p s \<longleftrightarrow> (\<exists>t. s = p @ t)"
  by (auto simp: startsWith_def) (metis append_take_drop_id)

text \<open>\<open>xs.indexOf(x)\<close>: the first position, or \<open>-1\<close>; \<open>xs[i]\<close>: \<open>undefined\<close> out of range.\<close>

fun indexOf :: "'a \<Rightarrow> 'a list \<Rightarrow> int" where
  "indexOf x [] = -1"
| "indexOf x (y # ys) =
     (if x = y then 0 else (let i = indexOf x ys in if i < 0 then -1 else i + 1))"

definition js_nth :: "'a list \<Rightarrow> int \<Rightarrow> 'a option" where
  "js_nth xs i = (if 0 \<le> i \<and> i < int (length xs) then Some (xs ! nat i) else None)"

text \<open>\<open>fields[fields.indexOf(key) + 1]\<close>, how the stream consumers and the metrics read a field.\<close>

definition field_after :: "'a \<Rightarrow> 'a list \<Rightarrow> 'a option" where
  "field_after key fields = js_nth fields (indexOf key fields + 1)"

lemma indexOf_ge: "indexOf x xs \<ge> -1"
  by (induction xs) (auto simp: Let_def)

lemma indexOf_neg_iff: "indexOf x xs < 0 \<longleftrightarrow> x \<notin> set xs"
  by (induction xs) (auto simp: Let_def)

lemma js_nth_Cons_Suc: "0 \<le> i \<Longrightarrow> js_nth (x # xs) (i + 1) = js_nth xs i"
  by (auto simp: js_nth_def nat_add_distrib)

lemma field_after_Cons2:
  assumes "key \<noteq> k" and "key \<noteq> v" and "key \<in> set fs"
  shows "field_after key (k # v # fs) = field_after key fs"
proof -
  have "0 \<le> indexOf key fs" using assms(3) indexOf_neg_iff [of key fs] by linarith
  then show ?thesis using assms(1,2)
    by (auto simp: field_after_def js_nth_def Let_def nat_add_distrib)
qed

lemma field_after_here [simp]: "field_after key (key # v # fs) = Some v"
  by (simp add: field_after_def js_nth_def)

text \<open>\<open>s.includes(t)\<close>\<close>

fun str_includes :: "string \<Rightarrow> string \<Rightarrow> bool" where
  "str_includes [] t = (t = [])"
| "str_includes (c # s) t = (take (length t) (c # s) = t \<or> str_includes s t)"

lemma str_includes_iff: "str_includes s t \<longleftrightarrow> (\<exists>a b. s = a @ t @ b)"
proof (induction s)
  case (Cons c s)
  have "take (length t) (c # s) = t \<longleftrightarrow> (\<exists>b. c # s = t @ b)"
    by (metis append_eq_conv_conj append_take_drop_id)
  moreover have "(\<exists>a b. c # s = a @ t @ b) \<longleftrightarrow> (\<exists>b. c # s = t @ b) \<or> (\<exists>a b. s = a @ t @ b)"
    by (auto simp: Cons_eq_append_conv)
  ultimately show ?case using Cons by simp
qed auto

text \<open>\<open>xs.join(', ')\<close>\<close>

fun join_comma :: "string list \<Rightarrow> string" where
  "join_comma [] = []"
| "join_comma [s] = s"
| "join_comma (s # t # ss) = s @ '', '' @ join_comma (t # ss)"

text \<open>A name between double quotes, as in the messages.\<close>

definition quoted :: "string \<Rightarrow> string" where
  "quoted s = CHR 0x22 # s @ [CHR 0x22]"

section \<open>Decimal numbers\<close>

definition digit_char :: "nat \<Rightarrow> char" where
  "digit_char d = char_of (48 + d)"

definition is_digit :: "char \<Rightarrow> bool" where
  "is_digit c \<longleftrightarrow> 48 \<le> (of_char c :: nat) \<and> (of_char c :: nat) \<le> 57"

definition digit_val :: "char \<Rightarrow> nat" where
  "digit_val c = of_char c - 48"

fun string_of_nat :: "nat \<Rightarrow> string" where
  "string_of_nat n =
     (if n < 10 then [digit_char n] else string_of_nat (n div 10) @ [digit_char (n mod 10)])"

declare string_of_nat.simps [simp del]

definition string_of_int :: "int \<Rightarrow> string" where
  "string_of_int i = (if i < 0 then CHR ''-'' # string_of_nat (nat (- i)) else string_of_nat (nat i))"

definition nat_of_digits :: "string \<Rightarrow> nat" where
  "nat_of_digits s = fold (\<lambda>c n. 10 * n + digit_val c) s 0"

lemma is_digit_digit_char [simp]: "d < 10 \<Longrightarrow> is_digit (digit_char d)"
  by (simp add: is_digit_def digit_char_def)

lemma digit_val_digit_char [simp]: "d < 10 \<Longrightarrow> digit_val (digit_char d) = d"
  by (simp add: digit_val_def digit_char_def)

lemma string_of_nat_digits: "list_all is_digit (string_of_nat n)"
  by (induction n rule: string_of_nat.induct) (subst string_of_nat.simps, simp)

lemma string_of_nat_nonempty [simp]: "string_of_nat n \<noteq> []"
  by (subst string_of_nat.simps) simp

lemma nat_of_digits_snoc: "nat_of_digits (s @ [c]) = 10 * nat_of_digits s + digit_val c"
  by (simp add: nat_of_digits_def)

lemma nat_of_digits_string_of_nat [simp]: "nat_of_digits (string_of_nat n) = n"
proof (induction n rule: string_of_nat.induct)
  case (1 n)
  show ?case
  proof (cases "n < 10")
    case True
    then show ?thesis by (subst string_of_nat.simps) (simp add: nat_of_digits_def)
  next
    case False
    with 1 show ?thesis by (subst string_of_nat.simps) (simp add: nat_of_digits_snoc)
  qed
qed

lemma string_of_nat_inj [simp]: "string_of_nat m = string_of_nat n \<longleftrightarrow> m = n"
  by (metis nat_of_digits_string_of_nat)

lemma string_of_nat_no_leading_zero:
  "string_of_nat n = digit_char 0 # s \<Longrightarrow> n = 0 \<and> s = []"
proof (induction n arbitrary: s rule: string_of_nat.induct)
  case (1 n)
  show ?case
  proof (cases "n < 10")
    case True
    with "1.prems" have "digit_char n = digit_char 0" and "s = []"
      by (subst (asm) string_of_nat.simps, simp)+
    with True show ?thesis by (metis digit_val_digit_char zero_less_numeral)
  next
    case False
    then obtain c t where ct: "string_of_nat (n div 10) = c # t"
      using string_of_nat_nonempty list.exhaust by metis
    with False "1.prems" have "c = digit_char 0"
      by (subst (asm) string_of_nat.simps) simp
    with ct False "1.IH" have "n div 10 = 0" by blast
    with False show ?thesis by simp
  qed
qed

text \<open>
  \<open>Number(s)\<close> on a decimal integer literal; \<^term>\<open>None\<close> stands for every other result (NaN, or a
  number that is not written as an integer).
\<close>

definition number_of_string :: "string \<Rightarrow> int option" where
  "number_of_string s =
     (case s of [] \<Rightarrow> None
      | c # t \<Rightarrow>
        if c = CHR ''-'' then (if t \<noteq> [] \<and> list_all is_digit t then Some (- int (nat_of_digits t)) else None)
        else if list_all is_digit s then Some (int (nat_of_digits s)) else None)"

lemma minus_not_digit [simp]: "\<not> is_digit (CHR ''-'')"
  by (simp add: is_digit_def)

lemma number_of_string_of_int [simp]: "number_of_string (string_of_int i) = Some i"
proof (cases "i < 0")
  case True
  then show ?thesis
    by (simp add: string_of_int_def number_of_string_def string_of_nat_digits)
next
  case False
  obtain c t where ct: "string_of_nat (nat i) = c # t"
    using string_of_nat_nonempty list.exhaust by metis
  then have "is_digit c" using string_of_nat_digits [of "nat i"] by simp
  then have "c \<noteq> CHR ''-''" by auto
  with False ct show ?thesis
    using string_of_nat_digits [of "nat i"] nat_of_digits_string_of_nat [of "nat i"]
    by (simp add: string_of_int_def number_of_string_def)
qed

section \<open>Tables as lists of rows\<close>

definition update_where :: "('r \<Rightarrow> bool) \<Rightarrow> ('r \<Rightarrow> 'r) \<Rightarrow> 'r list \<Rightarrow> 'r list" where
  "update_where p g xs = map (\<lambda>x. if p x then g x else x) xs"

lemma map_update_where [row_simps]:
  "(\<And>x. p x \<Longrightarrow> f (g x) = f x) \<Longrightarrow> map f (update_where p g xs) = map f xs"
  by (auto simp: update_where_def)

lemma image_update_where [row_simps]:
  "(\<And>x. p x \<Longrightarrow> f (g x) = f x) \<Longrightarrow> f ` set (update_where p g xs) = f ` set xs"
  by (metis map_update_where set_map)

lemma length_update_where [simp]: "length (update_where p g xs) = length xs"
  by (simp add: update_where_def)

lemma in_update_whereE:
  assumes "y \<in> set (update_where p g xs)"
  obtains x where "x \<in> set xs" and "y = (if p x then g x else x)"
  using assms by (auto simp: update_where_def)

lemma in_update_where_other: "x \<in> set xs \<Longrightarrow> \<not> p x \<Longrightarrow> x \<in> set (update_where p g xs)"
  and in_update_where_this: "x \<in> set xs \<Longrightarrow> p x \<Longrightarrow> g x \<in> set (update_where p g xs)"
  by (force simp: update_where_def)+

lemma update_where_none: "(\<And>x. x \<in> set xs \<Longrightarrow> \<not> p x) \<Longrightarrow> update_where p g xs = xs"
  by (induction xs) (auto simp: update_where_def)

lemma filter_update_where:
  "(\<And>x. p x \<Longrightarrow> q (g x) = q x) \<Longrightarrow>
   filter q (update_where p g xs) = update_where p g (filter q xs)"
  by (induction xs) (auto simp: update_where_def)

lemma filter_update_where_other:
  "(\<And>x. p x \<Longrightarrow> \<not> q x \<and> \<not> q (g x)) \<Longrightarrow> filter q (update_where p g xs) = filter q xs"
  by (induction xs) (auto simp: update_where_def)

lemma distinct_map_inj:
  "distinct (map f xs) \<Longrightarrow> x \<in> set xs \<Longrightarrow> y \<in> set xs \<Longrightarrow> f x = f y \<Longrightarrow> x = y"
  by (auto simp: distinct_map dest: inj_onD)

lemma find_key_iff:
  assumes "distinct (map f xs)"
  shows "find (\<lambda>x. f x = k) xs = Some x \<longleftrightarrow> x \<in> set xs \<and> f x = k"
  using assms by (induction xs) auto

lemma find_None_key: "find (\<lambda>x. f x = k) xs = None \<longleftrightarrow> k \<notin> f ` set xs"
  by (auto simp: find_None_iff)

lemma find_SomeD: "find p xs = Some x \<Longrightarrow> x \<in> set xs \<and> p x"
  by (auto simp: find_Some_iff)

lemma find_append: "find p (xs @ ys) = (case find p xs of None \<Rightarrow> find p ys | Some x \<Rightarrow> Some x)"
  by (induction xs) auto

lemma find_filter_eq: "(\<And>x. p x \<Longrightarrow> q x) \<Longrightarrow> find p (filter q xs) = find p xs"
  by (induction xs) auto

lemma find_filter_conj: "find p (filter q xs) = find (\<lambda>x. q x \<and> p x) xs"
  by (induction xs) auto

lemma find_update_where:
  "(\<And>x. q x \<Longrightarrow> p (g x) = p x) \<Longrightarrow>
   find p (update_where q g xs) = map_option (\<lambda>x. if q x then g x else x) (find p xs)"
  by (induction xs) (auto simp: update_where_def)

lemma distinct_map_filter_key: "distinct (map f xs) \<Longrightarrow> distinct (map f (filter p xs))"
  by (rule distinct_map_filter)

lemma filter_comp_empty: "(\<And>x. x \<in> set xs \<Longrightarrow> \<not> p x) \<Longrightarrow> filter p xs = []"
  by simp

end
