(* ===== verification/Database.thy ===== *)
theory Database
  imports MC_Prelude
begin

text \<open>
  The relational state of the platform, as \<open>prisma/schema.prisma\<close> declares it: one record per
  model, one list of rows per table (in insertion order), and the writes with the constraints the
  schema declares -- primary keys, \<open>@unique\<close> and \<open>@@unique\<close> columns, foreign keys with
  \<open>onDelete: Cascade\<close> and \<open>onDelete: SetNull\<close>.

  What the database server decides by itself is a parameter of the operations that use it: the
  identifiers it generates and the clock are arguments, and whether a call is refused (connection
  lost, server down) is given by \<open>faults\<close>, one entry per call site of the source. A refused call
  has no effect.
\<close>

section \<open>Models\<close>

record user =
  user_id :: string
  email :: string
  passwordHash :: string
  user_createdAt :: nat

record api_key =
  key_id :: string
  key_userId :: string
  keyHash :: string
  key_name :: string
  key_scopes :: "string list"
  lastUsedAt :: "nat option"
  revokedAt :: "nat option"
  key_createdAt :: nat

record func =
  fn_id :: string
  fn_userId :: string
  fn_name :: string
  memoryMb :: int
  timeoutMs :: int
  fn_createdAt :: nat

record function_version =
  ver_id :: string
  ver_functionId :: string
  versionNumber :: nat
  ver_imageTag :: string
  ver_createdAt :: nat

text \<open>
  The column \<open>status\<close> is a plain string in the schema; the comment there lists its four values.
\<close>

datatype build_status = PENDING | RUNNING | SUCCESS | FAILED

record build =
  build_id :: string
  build_functionId :: string
  sourceObjectKey :: string
  build_status :: build_status
  build_imageTag :: "string option"
  build_errorMessage :: "string option"
  build_createdAt :: nat
  startedAt :: "nat option"
  finishedAt :: "nat option"
  publishedToStreamAt :: "nat option"

datatype invocation_status = InvSuccess | InvError | InvTimeout | InvNoWorker

record invocation =
  inv_id :: string
  inv_functionId :: string
  inv_versionId :: "string option"
  requestId :: string
  inv_status :: invocation_status
  coldStart :: bool
  durationMs :: int
  inv_errorMessage :: "string option"
  inv_createdAt :: nat

record db =
  users :: "user list"
  apiKeys :: "api_key list"
  funcs :: "func list"
  functionVersions :: "function_version list"
  builds :: "build list"
  invocations :: "invocation list"

definition empty_db :: db where
  "empty_db = \<lparr>users = [], apiKeys = [], funcs = [], functionVersions = [], builds = [], invocations = []\<rparr>"

section \<open>Errors of the client, and refused calls\<close>

text \<open>
  The error codes of the Prisma client: unique constraint, foreign key constraint, record to
  update or delete not found; every other error carries a message.
\<close>

datatype db_error = P2002 | P2003 | P2025 | DbError string

datatype db_site =
    UserCreate | UserFindUnique
  | ApiKeyCreate | ApiKeyFindMany | ApiKeyFindById | ApiKeyRevoke | ApiKeyFindByHash | ApiKeyTouch
  | FunctionCreate | FunctionFindMany | FunctionFindUnique | FunctionDelete
  | LatestVersionFind | InvocationCreate | InvocationFindMany | InvocationMetrics
  | BuildCreate | BuildFindUnique | VersionFindMany
  | RunBuildFindFunction | RunBuildLatestVersion | RunBuildCommit | RunBuildMarkFailed
  | RelayClaim | ConsumerFindBuild

type_synonym faults = "db_site \<Rightarrow> string option"

abbreviation no_faults :: faults where
  "no_faults \<equiv> (\<lambda>_. None)"

definition db_read :: "faults \<Rightarrow> db_site \<Rightarrow> 'a \<Rightarrow> db_error + 'a" where
  "db_read F c x = (case F c of Some m \<Rightarrow> Inl (DbError m) | None \<Rightarrow> Inr x)"

definition db_write :: "faults \<Rightarrow> db_site \<Rightarrow> db_error + 'a \<Rightarrow> db_error + 'a" where
  "db_write F c w = (case F c of Some m \<Rightarrow> Inl (DbError m) | None \<Rightarrow> w)"

lemma db_read_Inr [simp]: "db_read F c x = Inr y \<longleftrightarrow> F c = None \<and> y = x"
  by (auto simp: db_read_def split: option.splits)

lemma db_read_no_fault [simp]: "F c = None \<Longrightarrow> db_read F c x = Inr x"
  by (simp add: db_read_def)

lemma db_write_Inr [simp]: "db_write F c w = Inr y \<longleftrightarrow> F c = None \<and> w = Inr y"
  by (auto simp: db_write_def split: option.splits)

lemma db_write_no_fault [simp]: "F c = None \<Longrightarrow> db_write F c w = w"
  by (simp add: db_write_def)

section \<open>Writes\<close>

definition user_create :: "user \<Rightarrow> db \<Rightarrow> db_error + db" where
  "user_create u db =
     (if user_id u \<in> user_id ` set (users db) \<or> email u \<in> email ` set (users db) then Inl P2002
      else Inr (db\<lparr>users := users db @ [u]\<rparr>))"

definition apiKey_create :: "api_key \<Rightarrow> db \<Rightarrow> db_error + db" where
  "apiKey_create k db =
     (if key_id k \<in> key_id ` set (apiKeys db) \<or> keyHash k \<in> keyHash ` set (apiKeys db) then Inl P2002
      else if key_userId k \<notin> user_id ` set (users db) then Inl P2003
      else Inr (db\<lparr>apiKeys := apiKeys db @ [k]\<rparr>))"

definition apiKey_update :: "string \<Rightarrow> (api_key \<Rightarrow> api_key) \<Rightarrow> db \<Rightarrow> db_error + db" where
  "apiKey_update i g db =
     (if i \<notin> key_id ` set (apiKeys db) then Inl P2025
      else Inr (db\<lparr>apiKeys := update_where (\<lambda>k. key_id k = i) g (apiKeys db)\<rparr>))"

abbreviation fn_key :: "func \<Rightarrow> string \<times> string" where
  "fn_key f \<equiv> (fn_userId f, fn_name f)"

definition function_create :: "func \<Rightarrow> db \<Rightarrow> db_error + db" where
  "function_create f db =
     (if fn_id f \<in> fn_id ` set (funcs db) \<or> fn_key f \<in> fn_key ` set (funcs db) then Inl P2002
      else if fn_userId f \<notin> user_id ` set (users db) then Inl P2003
      else Inr (db\<lparr>funcs := funcs db @ [f]\<rparr>))"

definition function_findUnique :: "string \<Rightarrow> string \<Rightarrow> db \<Rightarrow> func option" where
  "function_findUnique u n db = find (\<lambda>f. fn_key f = (u, n)) (funcs db)"

text \<open>
  Deleting a function removes, by cascade, its versions, builds and invocations; a remaining
  invocation that refers to a removed version loses the reference.
\<close>

definition clear_version :: "string set \<Rightarrow> invocation \<Rightarrow> invocation" where
  "clear_version vs i =
     (case inv_versionId i of
        Some v \<Rightarrow> if v \<in> vs then i\<lparr>inv_versionId := None\<rparr> else i
      | None \<Rightarrow> i)"

definition delete_function_row :: "string \<Rightarrow> db \<Rightarrow> db" where
  "delete_function_row fid db =
     (let gone = ver_id ` set (filter (\<lambda>v. ver_functionId v = fid) (functionVersions db))
      in db\<lparr>funcs := filter (\<lambda>f. fn_id f \<noteq> fid) (funcs db),
            functionVersions := filter (\<lambda>v. ver_functionId v \<noteq> fid) (functionVersions db),
            builds := filter (\<lambda>b. build_functionId b \<noteq> fid) (builds db),
            invocations := map (clear_version gone)
              (filter (\<lambda>i. inv_functionId i \<noteq> fid) (invocations db))\<rparr>)"

definition function_delete :: "string \<Rightarrow> string \<Rightarrow> db \<Rightarrow> db_error + db" where
  "function_delete u n db =
     (case function_findUnique u n db of
        None \<Rightarrow> Inl P2025
      | Some f \<Rightarrow> Inr (delete_function_row (fn_id f) db))"

abbreviation ver_key :: "function_version \<Rightarrow> string \<times> nat" where
  "ver_key v \<equiv> (ver_functionId v, versionNumber v)"

definition version_create :: "function_version \<Rightarrow> db \<Rightarrow> db_error + db" where
  "version_create v db =
     (if ver_id v \<in> ver_id ` set (functionVersions db)
         \<or> ver_key v \<in> ver_key ` set (functionVersions db) then Inl P2002
      else if ver_functionId v \<notin> fn_id ` set (funcs db) then Inl P2003
      else Inr (db\<lparr>functionVersions := functionVersions db @ [v]\<rparr>))"

definition build_create :: "build \<Rightarrow> db \<Rightarrow> db_error + db" where
  "build_create b db =
     (if build_id b \<in> build_id ` set (builds db) then Inl P2002
      else if build_functionId b \<notin> fn_id ` set (funcs db) then Inl P2003
      else Inr (db\<lparr>builds := builds db @ [b]\<rparr>))"

definition build_find :: "string \<Rightarrow> db \<Rightarrow> build option" where
  "build_find i db = find (\<lambda>b. build_id b = i) (builds db)"

definition build_update :: "string \<Rightarrow> (build \<Rightarrow> build) \<Rightarrow> db \<Rightarrow> db_error + db" where
  "build_update i g db =
     (if i \<notin> build_id ` set (builds db) then Inl P2025
      else Inr (db\<lparr>builds := update_where (\<lambda>b. build_id b = i) g (builds db)\<rparr>))"

definition invocation_create :: "invocation \<Rightarrow> db \<Rightarrow> db_error + db" where
  "invocation_create i db =
     (if inv_id i \<in> inv_id ` set (invocations db) \<or> requestId i \<in> requestId ` set (invocations db)
      then Inl P2002
      else if inv_functionId i \<notin> fn_id ` set (funcs db)
         \<or> (\<exists>v. inv_versionId i = Some v \<and> v \<notin> ver_id ` set (functionVersions db)) then Inl P2003
      else Inr (db\<lparr>invocations := invocations db @ [i]\<rparr>))"

section \<open>The invariant the schema promises\<close>

definition users_wf :: "db \<Rightarrow> bool" where
  "users_wf db \<longleftrightarrow> distinct (map user_id (users db)) \<and> distinct (map email (users db))"

definition apiKeys_wf :: "db \<Rightarrow> bool" where
  "apiKeys_wf db \<longleftrightarrow>
     distinct (map key_id (apiKeys db)) \<and> distinct (map keyHash (apiKeys db)) \<and>
     (\<forall>k \<in> set (apiKeys db). key_userId k \<in> user_id ` set (users db))"

definition funcs_wf :: "db \<Rightarrow> bool" where
  "funcs_wf db \<longleftrightarrow>
     distinct (map fn_id (funcs db)) \<and> distinct (map fn_key (funcs db)) \<and>
     (\<forall>f \<in> set (funcs db). fn_userId f \<in> user_id ` set (users db))"

definition versions_wf :: "db \<Rightarrow> bool" where
  "versions_wf db \<longleftrightarrow>
     distinct (map ver_id (functionVersions db)) \<and> distinct (map ver_key (functionVersions db)) \<and>
     (\<forall>v \<in> set (functionVersions db). ver_functionId v \<in> fn_id ` set (funcs db))"

definition builds_wf :: "db \<Rightarrow> bool" where
  "builds_wf db \<longleftrightarrow>
     distinct (map build_id (builds db)) \<and>
     (\<forall>b \<in> set (builds db). build_functionId b \<in> fn_id ` set (funcs db))"

definition invocations_wf :: "db \<Rightarrow> bool" where
  "invocations_wf db \<longleftrightarrow>
     distinct (map inv_id (invocations db)) \<and> distinct (map requestId (invocations db)) \<and>
     (\<forall>i \<in> set (invocations db). inv_functionId i \<in> fn_id ` set (funcs db)) \<and>
     (\<forall>i \<in> set (invocations db). \<forall>v. inv_versionId i = Some v \<longrightarrow> v \<in> ver_id ` set (functionVersions db))"

definition db_wf :: "db \<Rightarrow> bool" where
  "db_wf db \<longleftrightarrow> users_wf db \<and> apiKeys_wf db \<and> funcs_wf db \<and> versions_wf db \<and> builds_wf db
     \<and> invocations_wf db"

lemmas wf_defs = users_wf_def apiKeys_wf_def funcs_wf_def versions_wf_def builds_wf_def invocations_wf_def

lemma db_wf_empty: "db_wf empty_db"
  by (simp add: db_wf_def wf_defs empty_db_def)

lemma user_create_wf: "db_wf db \<Longrightarrow> user_create u db = Inr db' \<Longrightarrow> db_wf db'"
  by (auto simp: user_create_def db_wf_def wf_defs split: if_splits)

lemma apiKey_create_wf: "db_wf db \<Longrightarrow> apiKey_create k db = Inr db' \<Longrightarrow> db_wf db'"
  by (auto simp: apiKey_create_def db_wf_def wf_defs split: if_splits)

lemma apiKey_update_wf:
  assumes "db_wf db" and "apiKey_update i g db = Inr db'"
    and "\<And>k. key_id (g k) = key_id k" and "\<And>k. keyHash (g k) = keyHash k"
    and "\<And>k. key_userId (g k) = key_userId k"
  shows "db_wf db'"
  using assms
  by (auto simp: apiKey_update_def db_wf_def wf_defs row_simps split: if_splits elim!: in_update_whereE)

lemma function_create_wf: "db_wf db \<Longrightarrow> function_create f db = Inr db' \<Longrightarrow> db_wf db'"
  by (auto simp: function_create_def db_wf_def wf_defs split: if_splits)

lemma clear_version_columns [simp]:
  "inv_id (clear_version vs i) = inv_id i"
  "requestId (clear_version vs i) = requestId i"
  "inv_functionId (clear_version vs i) = inv_functionId i"
  by (auto simp: clear_version_def split: option.splits)

lemma clear_version_ref:
  "inv_versionId (clear_version vs i) = Some v \<Longrightarrow> inv_versionId i = Some v \<and> v \<notin> vs"
  by (auto simp: clear_version_def split: option.splits if_splits)

lemma delete_function_row_wf:
  assumes "db_wf db"
  shows "db_wf (delete_function_row fid db)"
proof -
  let ?db' = "delete_function_row fid db"
  have "versions_wf ?db'" "funcs_wf ?db'" "builds_wf ?db'"
    using assms
    by (auto simp: delete_function_row_def Let_def db_wf_def wf_defs distinct_map_filter)
  moreover have "invocations_wf ?db'"
  proof -
    have "\<forall>i \<in> set (invocations ?db'). \<forall>v. inv_versionId i = Some v \<longrightarrow>
        v \<in> ver_id ` set (functionVersions ?db')"
      using assms
      by (fastforce simp: delete_function_row_def Let_def db_wf_def wf_defs dest!: clear_version_ref)
    then show ?thesis using assms
      by (auto simp: delete_function_row_def Let_def db_wf_def wf_defs distinct_map_filter comp_def)
  qed
  ultimately show ?thesis using assms
    by (auto simp: delete_function_row_def Let_def db_wf_def wf_defs)
qed

lemma function_delete_wf: "db_wf db \<Longrightarrow> function_delete u n db = Inr db' \<Longrightarrow> db_wf db'"
  by (auto simp: function_delete_def delete_function_row_wf split: option.splits)

lemma version_create_wf: "db_wf db \<Longrightarrow> version_create v db = Inr db' \<Longrightarrow> db_wf db'"
  by (auto simp: version_create_def db_wf_def wf_defs split: if_splits)

lemma build_create_wf: "db_wf db \<Longrightarrow> build_create b db = Inr db' \<Longrightarrow> db_wf db'"
  by (auto simp: build_create_def db_wf_def wf_defs split: if_splits)

lemma build_update_wf:
  assumes "db_wf db" and "build_update i g db = Inr db'"
    and "\<And>b. build_id (g b) = build_id b" and "\<And>b. build_functionId (g b) = build_functionId b"
  shows "db_wf db'"
  using assms
  by (auto simp: build_update_def db_wf_def wf_defs row_simps split: if_splits elim!: in_update_whereE)

lemma invocation_create_wf: "db_wf db \<Longrightarrow> invocation_create i db = Inr db' \<Longrightarrow> db_wf db'"
  by (auto simp: invocation_create_def db_wf_def wf_defs split: if_splits)

lemmas db_wf_intros = user_create_wf apiKey_create_wf function_create_wf function_delete_wf
  version_create_wf build_create_wf invocation_create_wf

section \<open>Lookups under the invariant\<close>

lemma function_findUnique_iff:
  "db_wf db \<Longrightarrow> function_findUnique u n db = Some f \<longleftrightarrow>
     f \<in> set (funcs db) \<and> fn_userId f = u \<and> fn_name f = n"
  by (auto simp: function_findUnique_def db_wf_def funcs_wf_def find_key_iff
      [where f = fn_key and k = "(u, n)", simplified])

lemma function_findUnique_None:
  "function_findUnique u n db = None \<longleftrightarrow> (u, n) \<notin> fn_key ` set (funcs db)"
  by (auto simp: function_findUnique_def find_None_iff image_iff)

lemma function_findUnique_SomeD:
  "function_findUnique u n db = Some f \<Longrightarrow> f \<in> set (funcs db) \<and> fn_userId f = u \<and> fn_name f = n"
  by (auto simp: function_findUnique_def dest: find_SomeD)

lemma build_find_iff:
  "db_wf db \<Longrightarrow> build_find i db = Some b \<longleftrightarrow> b \<in> set (builds db) \<and> build_id b = i"
  by (simp add: build_find_def db_wf_def builds_wf_def find_key_iff)

lemma build_find_SomeD: "build_find i db = Some b \<Longrightarrow> b \<in> set (builds db) \<and> build_id b = i"
  by (auto simp: build_find_def dest: find_SomeD)

end
