(* ===== verification/Json.thy ===== *)
theory Json
  imports MC_Prelude
begin

text \<open>
  \<open>JSON.stringify\<close> and \<open>JSON.parse\<close>, through which every job, reply and heartbeat of the platform
  travels as text. Values are the trees \<open>JSON.parse\<close> returns; an object is its list of members in
  the order of insertion. A number whose text is an integer literal is an \<^typ>\<open>int\<close>; a number
  written with a fraction or an exponent keeps its text.
\<close>

section \<open>Values\<close>

datatype json =
    JNull
  | JBool bool
  | JNum int
  | JFrac string
  | JStr string
  | JArr "json list"
  | JObj "(string \<times> json) list"

type_synonym js_object = "(string \<times> json) list"

text \<open>Reading a member (\<^term>\<open>None\<close> is \<open>undefined\<close>), and assigning one.\<close>

definition member :: "string \<Rightarrow> js_object \<Rightarrow> json option" where
  "member k obj = map_of obj k"

fun assign :: "string \<Rightarrow> json \<Rightarrow> js_object \<Rightarrow> js_object" where
  "assign k v [] = [(k, v)]"
| "assign k v ((k', v') # ms) = (if k' = k then (k, v) # ms else (k', v') # assign k v ms)"

lemma member_assign [simp]: "member j (assign k v obj) = (if j = k then Some v else member j obj)"
  by (induction obj) (auto simp: member_def)

lemma fst_assign_fresh: "k \<notin> fst ` set obj \<Longrightarrow> assign k v obj = obj @ [(k, v)]"
  by (induction obj) auto

lemma set_fst_assign [simp]: "fst ` set (assign k v obj) = insert k (fst ` set obj)"
  by (induction k v obj rule: assign.induct) (simp_all add: insert_commute)

lemma distinct_assign [simp]: "distinct (map fst obj) \<Longrightarrow> distinct (map fst (assign k v obj))"
proof (induction obj)
  case Nil
  then show ?case by simp
next
  case (Cons m obj)
  have "fst m \<notin> fst ` set (assign k v obj)" if "fst m \<noteq> k"
    using Cons.prems that by auto
  with Cons show ?case by (cases m) auto
qed

section \<open>stringify\<close>

definition hex_digit :: "nat \<Rightarrow> char" where
  "hex_digit d = (if d < 10 then char_of (48 + d) else char_of (87 + d))"

definition escape_char :: "char \<Rightarrow> string" where
  "escape_char c =
     (let n = (of_char c :: nat) in
      if n = 34 then [CHR 0x5C, CHR 0x22]
      else if n = 92 then [CHR 0x5C, CHR 0x5C]
      else if n = 8 then [CHR 0x5C, CHR ''b'']
      else if n = 9 then [CHR 0x5C, CHR ''t'']
      else if n = 10 then [CHR 0x5C, CHR ''n'']
      else if n = 12 then [CHR 0x5C, CHR ''f'']
      else if n = 13 then [CHR 0x5C, CHR ''r'']
      else if n < 32 then [CHR 0x5C, CHR ''u'', CHR ''0'', CHR ''0'', hex_digit (n div 16), hex_digit (n mod 16)]
      else [c])"

definition stringify_string :: "string \<Rightarrow> string" where
  "stringify_string s = CHR 0x22 # concat (map escape_char s) @ [CHR 0x22]"

fun sep_concat :: "string list \<Rightarrow> string" where
  "sep_concat [] = []"
| "sep_concat [s] = s"
| "sep_concat (s # t # ss) = s @ CHR '','' # sep_concat (t # ss)"

fun stringify :: "json \<Rightarrow> string" where
  "stringify JNull = ''null''"
| "stringify (JBool b) = (if b then ''true'' else ''false'')"
| "stringify (JNum i) = string_of_int i"
| "stringify (JFrac s) = s"
| "stringify (JStr s) = stringify_string s"
| "stringify (JArr vs) = CHR ''['' # sep_concat (map stringify vs) @ '']''"
| "stringify (JObj ms) =
     CHR 0x7B # sep_concat (map (\<lambda>(k, v). stringify_string k @ CHR '':'' # stringify v) ms) @ [CHR 0x7D]"

section \<open>parse\<close>

definition is_ws :: "char \<Rightarrow> bool" where
  "is_ws c \<longleftrightarrow> (of_char c :: nat) \<in> {9, 10, 13, 32}"

abbreviation skip_ws :: "string \<Rightarrow> string" where
  "skip_ws \<equiv> dropWhile is_ws"

definition hex_val :: "char \<Rightarrow> nat option" where
  "hex_val c =
     (let n = (of_char c :: nat) in
      if 48 \<le> n \<and> n \<le> 57 then Some (n - 48)
      else if 97 \<le> n \<and> n \<le> 102 then Some (n - 87)
      else if 65 \<le> n \<and> n \<le> 70 then Some (n - 55)
      else None)"

text \<open>
  The characters of a string literal after its opening quote. A \<open>\u\<close> escape at or above 256 has
  no \<^typ>\<open>char\<close>, so the literal is outside the model and is refused.
\<close>

fun parse_chars :: "string \<Rightarrow> (string \<times> string) option" where
  "parse_chars [] = None"
| "parse_chars (c # s) =
     (if c = CHR 0x22 then Some ([], s)
      else if c = CHR 0x5C then
        (case s of
           [] \<Rightarrow> None
         | e # s1 \<Rightarrow>
           if e = CHR ''u'' then
             (case s1 of
                a # b # x # y # s2 \<Rightarrow>
                  (case (hex_val a, hex_val b, hex_val x, hex_val y) of
                     (Some h3, Some h2, Some h1, Some h0) \<Rightarrow>
                       if h3 = 0 \<and> h2 = 0
                       then map_option (\<lambda>(t, r). (char_of (16 * h1 + h0) # t, r)) (parse_chars s2)
                       else None
                   | _ \<Rightarrow> None)
              | _ \<Rightarrow> None)
           else
             (case (if e = CHR 0x22 \<or> e = CHR 0x5C \<or> e = CHR ''/'' then Some e
                    else if e = CHR ''b'' then Some (CHR 0x08)
                    else if e = CHR ''t'' then Some (CHR 0x09)
                    else if e = CHR ''n'' then Some (CHR 0x0A)
                    else if e = CHR ''f'' then Some (CHR 0x0C)
                    else if e = CHR ''r'' then Some (CHR 0x0D)
                    else None) of
                None \<Rightarrow> None
              | Some d \<Rightarrow> map_option (\<lambda>(t, r). (d # t, r)) (parse_chars s1)))
      else if (of_char c :: nat) < 32 then None
      else map_option (\<lambda>(t, r). (c # t, r)) (parse_chars s))"

text \<open>A number: sign, integer part without superfluous zeros, optional fraction and exponent.\<close>

definition int_part :: "string \<Rightarrow> (string \<times> string) option" where
  "int_part s =
     (case s of
        [] \<Rightarrow> None
      | c # t \<Rightarrow>
        if c = CHR ''0'' then Some ([c], t)
        else if is_digit c then Some (takeWhile is_digit s, dropWhile is_digit s)
        else None)"

definition frac_part :: "string \<Rightarrow> (string \<times> string) option" where
  "frac_part s =
     (case s of
        [] \<Rightarrow> Some ([], [])
      | c # t \<Rightarrow>
        if c = CHR ''.'' then
          (if takeWhile is_digit t = [] then None
           else Some (c # takeWhile is_digit t, dropWhile is_digit t))
        else Some ([], s))"

definition exp_part :: "string \<Rightarrow> (string \<times> string) option" where
  "exp_part s =
     (case s of
        [] \<Rightarrow> Some ([], [])
      | c # t \<Rightarrow>
        if c = CHR ''e'' \<or> c = CHR ''E'' then
          (let (sg, u) = (case t of d # t' \<Rightarrow> if d = CHR ''+'' \<or> d = CHR ''-'' then ([d], t') else ([], t)
                                  | [] \<Rightarrow> ([], []))
           in if takeWhile is_digit u = [] then None
              else Some (c # sg @ takeWhile is_digit u, dropWhile is_digit u))
        else Some ([], s))"

definition split_sign :: "string \<Rightarrow> bool \<times> string" where
  "split_sign s =
     (case s of [] \<Rightarrow> (False, []) | c # t \<Rightarrow> if c = CHR ''-'' then (True, t) else (False, s))"

definition number_value :: "bool \<Rightarrow> string \<Rightarrow> string \<Rightarrow> string \<Rightarrow> json" where
  "number_value neg ip fp ep =
     (if fp = [] \<and> ep = [] then JNum (if neg then - int (nat_of_digits ip) else int (nat_of_digits ip))
      else JFrac ((if neg then ''-'' else []) @ ip @ fp @ ep))"

definition parse_number :: "string \<Rightarrow> (json \<times> string) option" where
  "parse_number s =
     (case int_part (snd (split_sign s)) of
        None \<Rightarrow> None
      | Some (ip, s1) \<Rightarrow>
        (case frac_part s1 of
           None \<Rightarrow> None
         | Some (fp, s2) \<Rightarrow>
           (case exp_part s2 of
              None \<Rightarrow> None
            | Some (ep, s3) \<Rightarrow> Some (number_value (fst (split_sign s)) ip fp ep, s3))))"

definition expect :: "string \<Rightarrow> json \<Rightarrow> string \<Rightarrow> (json \<times> string) option" where
  "expect w v s = (if startsWith w s then Some (v, drop (length w) s) else None)"

text \<open>Members are assigned in the order of the text, so a repeated key keeps its last value.\<close>

definition object_of :: "js_object \<Rightarrow> json" where
  "object_of ms = JObj (fold (\<lambda>(k, v). assign k v) ms [])"

lemma length_skip_ws: "length (skip_ws s) \<le> length s"
  by (rule length_dropWhile_le)

lemma length_skip_ws_Cons: "length (skip_ws s) < length (c # s)"
  using length_skip_ws [of s] by simp

lemma skip_ws_ConsD: "skip_ws s = c # t \<Longrightarrow> length t < length s"
  using length_skip_ws [of s] by simp

text \<open>
  The recursive descent. The tests on the length of the rest only serve termination: a parser
  that succeeds has consumed something.
\<close>

function (sequential)
  parse_value :: "string \<Rightarrow> (json \<times> string) option" and
  parse_elems :: "string \<Rightarrow> (json list \<times> string) option" and
  parse_members :: "string \<Rightarrow> (js_object \<times> string) option" where
  "parse_value s =
     (case s of
        [] \<Rightarrow> None
      | c # t \<Rightarrow>
        if c = CHR ''n'' then expect ''null'' JNull s
        else if c = CHR ''t'' then expect ''true'' (JBool True) s
        else if c = CHR ''f'' then expect ''false'' (JBool False) s
        else if c = CHR 0x22 then map_option (\<lambda>(x, r). (JStr x, r)) (parse_chars t)
        else if c = CHR ''['' then
          (case skip_ws t of
             d # r \<Rightarrow> if d = CHR '']'' then Some (JArr [], r)
                      else map_option (\<lambda>(vs, r'). (JArr vs, r')) (parse_elems (skip_ws t))
           | [] \<Rightarrow> None)
        else if c = CHR 0x7B then
          (case skip_ws t of
             d # r \<Rightarrow> if d = CHR 0x7D then Some (JObj [], r)
                      else map_option (\<lambda>(ms, r'). (object_of ms, r'))
                             (parse_members (skip_ws t))
           | [] \<Rightarrow> None)
        else parse_number s)"
| "parse_elems s =
     (case parse_value s of
        None \<Rightarrow> None
      | Some (v, s1) \<Rightarrow>
        (case skip_ws s1 of
           [] \<Rightarrow> None
         | c # s2 \<Rightarrow>
           if c = CHR '']'' then Some ([v], s2)
           else if c = CHR '','' \<and> length (skip_ws s2) < length s
           then map_option (\<lambda>(vs, r). (v # vs, r)) (parse_elems (skip_ws s2))
           else None))"
| "parse_members s =
     (case s of
        [] \<Rightarrow> None
      | q # t \<Rightarrow>
        if q \<noteq> CHR 0x22 then None
        else (case parse_chars t of
           None \<Rightarrow> None
         | Some (k, s1) \<Rightarrow>
           (case skip_ws s1 of
              [] \<Rightarrow> None
            | c # s2 \<Rightarrow>
              if c = CHR '':'' \<and> length (skip_ws s2) < length s then
                (case parse_value (skip_ws s2) of
                   None \<Rightarrow> None
                 | Some (v, s3) \<Rightarrow>
                   (case skip_ws s3 of
                      [] \<Rightarrow> None
                    | d # s4 \<Rightarrow>
                      if d = CHR 0x7D then Some ([(k, v)], s4)
                      else if d = CHR '','' \<and> length (skip_ws s4) < length s
                      then map_option (\<lambda>(ms, r). ((k, v) # ms, r)) (parse_members (skip_ws s4))
                      else None))
              else None)))"
  by pat_completeness auto

termination
  by (relation "measure (\<lambda>x. case x of Inl s \<Rightarrow> 2 * length s
         | Inr (Inl s) \<Rightarrow> 2 * length s + 1 | Inr (Inr s) \<Rightarrow> 2 * length s + 1)")
     (auto dest: skip_ws_ConsD)

declare parse_value.simps [simp del] parse_elems.simps [simp del] parse_members.simps [simp del]

text \<open>\<open>JSON.parse(text)\<close>: one value with white space around it; \<^term>\<open>None\<close> is the \<open>SyntaxError\<close>.\<close>

definition parse :: "string \<Rightarrow> json option" where
  "parse s =
     (case parse_value (skip_ws s) of
        Some (v, r) \<Rightarrow> if skip_ws r = [] then Some v else None
      | None \<Rightarrow> None)"

section \<open>Round trip\<close>

text \<open>The values that \<open>JSON.parse\<close> can return: distinct keys, and fractions spelled as such.\<close>

fun json_ok :: "json \<Rightarrow> bool" where
  "json_ok (JFrac s) \<longleftrightarrow> parse_number s = Some (JFrac s, [])"
| "json_ok (JArr vs) \<longleftrightarrow> (\<forall>v \<in> set vs. json_ok v)"
| "json_ok (JObj ms) \<longleftrightarrow> distinct (map fst ms) \<and> (\<forall>m \<in> set ms. json_ok (snd m))"
| "json_ok _ \<longleftrightarrow> True"

lemma hex_val_hex_digit [simp]: "d < 16 \<Longrightarrow> hex_val (hex_digit d) = Some d"
  by (auto simp: hex_val_def hex_digit_def)

lemma hex_val_zero [simp]: "hex_val (CHR ''0'') = Some 0"
  by (simp add: hex_val_def)

lemma of_char_codes:
  "(of_char c :: nat) = 34 \<longleftrightarrow> c = CHR 0x22" "(of_char c :: nat) = 92 \<longleftrightarrow> c = CHR 0x5C"
  "(of_char c :: nat) = 8 \<longleftrightarrow> c = CHR 0x08" "(of_char c :: nat) = 9 \<longleftrightarrow> c = CHR 0x09"
  "(of_char c :: nat) = 10 \<longleftrightarrow> c = CHR 0x0A" "(of_char c :: nat) = 12 \<longleftrightarrow> c = CHR 0x0C"
  "(of_char c :: nat) = 13 \<longleftrightarrow> c = CHR 0x0D"
  using of_char_eq_iff [of c "CHR 0x22", where ?'a = nat] of_char_eq_iff [of c "CHR 0x5C", where ?'a = nat]
    of_char_eq_iff [of c "CHR 0x08", where ?'a = nat] of_char_eq_iff [of c "CHR 0x09", where ?'a = nat]
    of_char_eq_iff [of c "CHR 0x0A", where ?'a = nat] of_char_eq_iff [of c "CHR 0x0C", where ?'a = nat]
    of_char_eq_iff [of c "CHR 0x0D", where ?'a = nat]
  by simp_all

lemma parse_chars_escape_char:
  "parse_chars (escape_char c @ s) = map_option (\<lambda>(t, r). (c # t, r)) (parse_chars s)"
proof -
  let ?n = "of_char c :: nat"
  consider (special) "c \<in> {CHR 0x22, CHR 0x5C, CHR 0x08, CHR 0x09, CHR 0x0A, CHR 0x0C, CHR 0x0D}"
    | (ctl) "?n < 32" "?n \<notin> {8, 9, 10, 12, 13}" | (plain) "?n \<ge> 32" "?n \<noteq> 34" "?n \<noteq> 92"
    unfolding insert_iff empty_iff of_char_codes by (metis linorder_not_less)
  then show ?thesis
  proof cases
    case special
    then show ?thesis by (auto simp: escape_char_def)
  next
    case ctl
    have "char_of (16 * (?n div 16) + ?n mod 16) = c" by simp
    moreover have "?n div 16 < 16" using ctl(1) by simp
    ultimately show ?thesis using ctl
      by (simp add: escape_char_def Let_def)
  next
    case plain
    then have "c \<noteq> CHR 0x22" "c \<noteq> CHR 0x5C" by auto
    with plain show ?thesis by (simp add: escape_char_def Let_def)
  qed
qed

lemma parse_chars_stringify:
  "parse_chars (concat (map escape_char s) @ CHR 0x22 # r) = Some (s, r)"
  by (induction s) (simp_all add: parse_chars_escape_char)

text \<open>What follows a value inside a text: nothing, or a delimiter.\<close>

definition delim :: "string \<Rightarrow> bool" where
  "delim r \<longleftrightarrow> (case r of [] \<Rightarrow> True | c # _ \<Rightarrow> c \<in> {CHR '','', CHR '']'', CHR 0x7D})"

lemma delim_simps [simp]:
  "delim []" "delim (CHR '','' # r)" "delim (CHR '']'' # r)" "delim (CHR 0x7D # r)"
  by (simp_all add: delim_def)

lemma delim_not_digit: "delim (c # r) \<Longrightarrow> \<not> is_digit c"
  by (auto simp: delim_def is_digit_def)

lemma delim_takeWhile: "delim r \<Longrightarrow> takeWhile is_digit r = []" "delim r \<Longrightarrow> dropWhile is_digit r = r"
  by (cases r; simp add: delim_not_digit)+

lemma takeWhile_delim:
  "delim r \<Longrightarrow> takeWhile is_digit (s @ r) = takeWhile is_digit s"
  "delim r \<Longrightarrow> dropWhile is_digit (s @ r) = dropWhile is_digit s @ r"
  by (induction s) (simp_all add: delim_takeWhile)

lemma int_part_delim:
  "delim r \<Longrightarrow> int_part s = Some (ip, s1) \<Longrightarrow> int_part (s @ r) = Some (ip, s1 @ r)"
  using takeWhile_delim [of r s]
  by (auto simp: int_part_def split: list.splits if_splits)

lemma frac_part_delim:
  assumes "delim r" and "frac_part s = Some (fp, s2)"
  shows "frac_part (s @ r) = Some (fp, s2 @ r)"
proof (cases s)
  case Nil
  with assms show ?thesis
    by (cases r) (auto simp: frac_part_def delim_def)
next
  case (Cons c t)
  with assms takeWhile_delim [of r t] show ?thesis
    by (auto simp: frac_part_def split: if_splits)
qed

lemma exp_part_delim:
  assumes "delim r" and "exp_part s = Some (ep, s3)"
  shows "exp_part (s @ r) = Some (ep, s3 @ r)"
proof (cases s)
  case Nil
  with assms show ?thesis
    by (cases r) (auto simp: exp_part_def delim_def)
next
  case (Cons c t)
  show ?thesis
  proof (cases t)
    case Nil
    with Cons assms show ?thesis by (auto simp: exp_part_def split: if_splits)
  next
    case (Cons d u)
    with \<open>s = c # t\<close> assms takeWhile_delim [of r u] takeWhile_delim [of r t] show ?thesis
      by (auto simp: exp_part_def Let_def split: if_splits)
  qed
qed

lemma parse_numberE:
  assumes "parse_number s = Some (v, s3)"
  obtains ip s1 fp s2 ep where "int_part (snd (split_sign s)) = Some (ip, s1)"
    and "frac_part s1 = Some (fp, s2)" and "exp_part s2 = Some (ep, s3)"
    and "v = number_value (fst (split_sign s)) ip fp ep"
  using assms by (auto simp: parse_number_def split: option.splits)

lemma parse_number_nonempty: "parse_number s = Some (v, r) \<Longrightarrow> s \<noteq> []"
  by (auto simp: parse_number_def split_sign_def int_part_def)

lemma split_sign_append: "s \<noteq> [] \<Longrightarrow> split_sign (s @ r) = (fst (split_sign s), snd (split_sign s) @ r)"
  by (cases s) (auto simp: split_sign_def)

lemma parse_number_delim:
  assumes "delim r" and "parse_number s = Some (v, s3)"
  shows "parse_number (s @ r) = Some (v, s3 @ r)"
proof -
  from assms(2) obtain ip s1 fp s2 ep where p:
      "int_part (snd (split_sign s)) = Some (ip, s1)" "frac_part s1 = Some (fp, s2)"
      "exp_part s2 = Some (ep, s3)" "v = number_value (fst (split_sign s)) ip fp ep"
    by (rule parse_numberE)
  show ?thesis
    using int_part_delim [OF assms(1) p(1)] frac_part_delim [OF assms(1) p(2)]
      exp_part_delim [OF assms(1) p(3)] split_sign_append [OF parse_number_nonempty [OF assms(2)], of r] p(4)
    by (simp add: parse_number_def)
qed

lemma digit_char_0: "digit_char 0 = CHR ''0''"
proof -
  have "(of_char (CHR ''0'') :: nat) = 48" by simp
  then show ?thesis by (metis add_0_right char_of_char digit_char_def)
qed

lemma int_part_string_of_nat: "int_part (string_of_nat n) = Some (string_of_nat n, [])"
proof -
  obtain c t where ct: "string_of_nat n = c # t"
    using string_of_nat_nonempty list.exhaust by metis
  have all: "list_all is_digit (c # t)" using string_of_nat_digits [of n] ct by simp
  then have tw: "takeWhile is_digit (c # t) = c # t" "dropWhile is_digit (c # t) = []"
    by (simp_all add: list_all_iff)
  show ?thesis
  proof (cases "c = CHR ''0''")
    case True
    then have "t = []" using ct string_of_nat_no_leading_zero [of n t] digit_char_0 by simp
    with True ct show ?thesis by (simp add: int_part_def)
  next
    case False
    with all tw ct show ?thesis by (simp add: int_part_def)
  qed
qed

lemma string_of_nat_no_minus: "string_of_nat n = c # t \<Longrightarrow> c \<noteq> CHR ''-''"
  using string_of_nat_digits [of n] by auto

lemma split_sign_string_of_int: "split_sign (string_of_int i) = (i < 0, string_of_nat (nat \<bar>i\<bar>))"
  using string_of_nat_no_minus [of "nat i"]
  by (auto simp: split_sign_def string_of_int_def split: list.splits)

lemma parse_number_string_of_int: "parse_number (string_of_int i) = Some (JNum i, [])"
  by (simp add: parse_number_def split_sign_string_of_int int_part_string_of_nat frac_part_def
      exp_part_def number_value_def)

text \<open>The first character of a printed number sends the parser to \<^const>\<open>parse_number\<close>.\<close>

definition number_start :: "char \<Rightarrow> bool" where
  "number_start c \<longleftrightarrow> c = CHR ''-'' \<or> is_digit c"

lemma parse_number_start:
  assumes "parse_number s = Some (v, r)"
  shows "number_start (hd s)"
  using assms parse_number_nonempty [OF assms]
  by (auto simp: parse_number_def split_sign_def int_part_def number_start_def is_digit_def
      split: list.splits if_splits)

lemma number_start_neq:
  "number_start c \<Longrightarrow> c \<notin> {CHR ''n'', CHR ''t'', CHR ''f'', CHR 0x22, CHR ''['', CHR 0x7B, CHR '']'', CHR 0x7D}"
  "number_start c \<Longrightarrow> \<not> is_ws c"
  by (auto simp: number_start_def is_digit_def is_ws_def)

lemma parse_value_number:
  assumes "parse_number s = Some (v, r)"
  shows "parse_value s = Some (v, r)"
proof -
  obtain c t where s: "s = c # t" using parse_number_nonempty [OF assms] by (cases s) auto
  with parse_number_start [OF assms] have "number_start c" by simp
  from number_start_neq(1) [OF this] show ?thesis using assms s
    by (simp add: parse_value.simps [of "c # t"])
qed

text \<open>A printed value starts with a character that is neither white space nor a closing bracket.\<close>

definition value_start :: "char \<Rightarrow> bool" where
  "value_start c \<longleftrightarrow> \<not> is_ws c \<and> c \<noteq> CHR '']'' \<and> c \<noteq> CHR 0x7D"

lemma stringify_start:
  assumes "json_ok v"
  obtains c t where "stringify v = c # t" and "value_start c"
proof -
  have num: "\<exists>c t. s = c # t \<and> value_start c" if "parse_number s = Some (w, r)" for s w r
    using parse_number_start [OF that] parse_number_nonempty [OF that] number_start_neq
    by (cases s) (auto simp: value_start_def)
  have "\<exists>c t. stringify v = c # t \<and> value_start c"
  proof (cases v)
    case (JNum i)
    then show ?thesis using num [OF parse_number_string_of_int] by simp
  next
    case (JFrac s)
    then show ?thesis using assms num by simp
  qed (auto simp: value_start_def is_ws_def stringify_string_def)
  then show ?thesis using that by blast
qed

lemma skip_ws_stringify: "json_ok v \<Longrightarrow> skip_ws (stringify v @ r) = stringify v @ r"
  by (rule stringify_start [of v]) (auto simp: value_start_def)

lemma skip_ws_delim: "delim r \<Longrightarrow> skip_ws r = r"
  by (cases r) (auto simp: delim_def is_ws_def)

lemma sep_concat_Cons: "ss \<noteq> [] \<Longrightarrow> sep_concat (s # ss) = s @ CHR '','' # sep_concat ss"
  by (cases ss) simp_all

lemma sep_concat_start:
  assumes "ss \<noteq> []" and "hd ss = c # t"
  obtains u where "sep_concat ss = c # u"
  using assms by (cases ss rule: sep_concat.cases) auto

lemma skip_ws_elems:
  assumes "vs \<noteq> []" and "json_ok (hd vs)"
  obtains c t where "sep_concat (map stringify vs) = c # t" and "value_start c"
proof -
  obtain c t where ct: "stringify (hd vs) = c # t" "value_start c"
    using stringify_start [OF assms(2)] .
  have "hd (map stringify vs) = c # t" using assms(1) ct(1) by (simp add: hd_map)
  then obtain u where "sep_concat (map stringify vs) = c # u"
    using sep_concat_start assms(1) by (metis Nil_is_map_conv)
  then show ?thesis using that ct(2) by blast
qed

lemma parse_elems_stringify:
  assumes "vs \<noteq> []"
    and "\<And>v r. v \<in> set vs \<Longrightarrow> delim r \<Longrightarrow> parse_value (stringify v @ r) = Some (v, r)"
    and "\<And>v. v \<in> set vs \<Longrightarrow> json_ok v"
  shows "parse_elems (sep_concat (map stringify vs) @ CHR '']'' # r) = Some (vs, r)"
  using assms
proof (induction vs rule: list_nonempty_induct)
  case (single v)
  then have "parse_value (stringify v @ CHR '']'' # r) = Some (v, CHR '']'' # r)" by simp
  then show ?case by (simp add: parse_elems.simps is_ws_def)
next
  case (cons v vs)
  let ?rest = "sep_concat (map stringify vs) @ CHR '']'' # r"
  have IH: "parse_elems ?rest = Some (vs, r)" using cons by simp
  obtain c t where "sep_concat (map stringify vs) = c # t" "value_start c"
    using skip_ws_elems cons by (metis hd_in_set list.set_intros(2))
  then have ws: "skip_ws ?rest = ?rest" by (simp add: value_start_def)
  have "parse_value (stringify v @ CHR '','' # ?rest) = Some (v, CHR '','' # ?rest)"
    using cons by simp
  with IH ws cons(1) show ?case
    by (simp add: parse_elems.simps [of "stringify v @ CHR '','' # ?rest"] sep_concat_Cons is_ws_def)
qed

definition stringify_member :: "string \<times> json \<Rightarrow> string" where
  "stringify_member = (\<lambda>(k, v). stringify_string k @ CHR '':'' # stringify v)"

lemma stringify_member_start: "stringify_member m = CHR 0x22 # tl (stringify_member m)"
  by (cases m) (simp add: stringify_member_def stringify_string_def)

lemma stringify_member_unfold:
  "stringify_member (k, v) @ r = CHR 0x22 # concat (map escape_char k) @ CHR 0x22 # CHR '':'' # stringify v @ r"
  by (simp add: stringify_member_def stringify_string_def)

lemma parse_members_stringify:
  assumes "ms \<noteq> []"
    and "\<And>m r. m \<in> set ms \<Longrightarrow> delim r \<Longrightarrow> parse_value (stringify (snd m) @ r) = Some (snd m, r)"
    and "\<And>m. m \<in> set ms \<Longrightarrow> json_ok (snd m)"
  shows "parse_members (sep_concat (map stringify_member ms) @ CHR 0x7D # r) = Some (ms, r)"
  using assms
proof (induction ms rule: list_nonempty_induct)
  case (single m)
  obtain k v where m: "m = (k, v)" by (cases m)
  have "parse_value (stringify v @ CHR 0x7D # r) = Some (v, CHR 0x7D # r)" "json_ok v"
    using single [of m] m by auto
  then show ?case
    by (simp add: m stringify_member_unfold parse_members.simps parse_chars_stringify is_ws_def
        skip_ws_stringify)
next
  case (cons m ms)
  obtain k v where m: "m = (k, v)" by (cases m)
  let ?rest = "sep_concat (map stringify_member ms) @ CHR 0x7D # r"
  have IH: "parse_members ?rest = Some (ms, r)" using cons by simp
  obtain u where "sep_concat (map stringify_member ms) = CHR 0x22 # u"
    using sep_concat_start [of "map stringify_member ms"] cons(1) stringify_member_start [of "hd ms"]
    by (metis Nil_is_map_conv hd_map)
  then have ws: "skip_ws ?rest = ?rest" by (simp add: is_ws_def)
  have "parse_value (stringify v @ CHR '','' # ?rest) = Some (v, CHR '','' # ?rest)" "json_ok v"
    using cons(3) [of m] cons(4) [of m] m by auto
  with IH ws cons(1) show ?case
    by (simp add: m sep_concat_Cons stringify_member_unfold
        parse_members.simps [of "CHR 0x22 # concat (map escape_char k) @ CHR 0x22 # CHR '':'' # stringify v @ CHR '','' # ?rest"]
        parse_chars_stringify is_ws_def skip_ws_stringify)
qed

lemma fold_assign_distinct:
  "distinct (map fst (acc @ ms)) \<Longrightarrow> fold (\<lambda>(k, v). assign k v) ms acc = acc @ ms"
proof (induction ms arbitrary: acc)
  case Nil
  then show ?case by simp
next
  case (Cons m ms)
  obtain k v where m: "m = (k, v)" by (cases m)
  with Cons.prems have "k \<notin> fst ` set acc" by auto
  then have "assign k v acc = acc @ [m]" by (simp add: fst_assign_fresh m)
  with Cons.IH [of "acc @ [m]"] Cons.prems m show ?case by simp
qed

lemma parse_value_stringify:
  "json_ok v \<Longrightarrow> delim r \<Longrightarrow> parse_value (stringify v @ r) = Some (v, r)"
proof (induction v arbitrary: r)
  case (JNum i)
  then show ?case
    using parse_value_number [OF parse_number_delim [OF _ parse_number_string_of_int]] by simp
next
  case (JFrac s)
  then show ?case
    using parse_value_number [OF parse_number_delim, of r s] by simp
next
  case (JStr s)
  then show ?case
    by (simp add: parse_value.simps stringify_string_def parse_chars_stringify)
next
  case (JArr vs)
  show ?case
  proof (cases "vs = []")
    case True
    then show ?thesis by (simp add: parse_value.simps is_ws_def)
  next
    case False
    with JArr have el: "parse_elems (sep_concat (map stringify vs) @ CHR '']'' # r) = Some (vs, r)"
      by (intro parse_elems_stringify) auto
    obtain c t where "sep_concat (map stringify vs) = c # t" "value_start c"
      using skip_ws_elems False JArr(2) by (metis hd_in_set json_ok.simps(2))
    with el show ?thesis
      by (simp add: parse_value.simps [of "CHR ''['' # c # t @ CHR '']'' # r"] value_start_def)
  qed
next
  case (JObj ms)
  show ?case
  proof (cases "ms = []")
    case True
    then show ?thesis by (simp add: parse_value.simps is_ws_def)
  next
    case False
    with JObj have el: "parse_members (sep_concat (map stringify_member ms) @ CHR 0x7D # r) = Some (ms, r)"
      by (intro parse_members_stringify) (auto simp: snds.simps)
    obtain u where u: "sep_concat (map stringify_member ms) = CHR 0x22 # u"
      using sep_concat_start [of "map stringify_member ms"] False stringify_member_start [of "hd ms"]
      by (metis Nil_is_map_conv hd_map)
    have "stringify (JObj ms) = CHR 0x7B # sep_concat (map stringify_member ms) @ [CHR 0x7D]"
      by (simp add: stringify_member_def)
    with el u JObj(2) show ?thesis
      using fold_assign_distinct [of "[]" ms]
      by (simp add: parse_value.simps [of "CHR 0x7B # CHR 0x22 # u @ CHR 0x7D # r"] is_ws_def object_of_def)
  qed
qed (simp_all add: parse_value.simps expect_def startsWith_def)

text \<open>
  \<open>JSON.parse(JSON.stringify(v))\<close> is \<open>v\<close>: what is sent through Redis as text is what is received.
\<close>

theorem parse_stringify: "json_ok v \<Longrightarrow> parse (stringify v) = Some v"
  using parse_value_stringify [of v "[]"] skip_ws_stringify [of v "[]"] by (simp add: parse_def)

section \<open>What parse returns\<close>

text \<open>A text that does not continue a run of digits.\<close>

definition no_digit :: "string \<Rightarrow> bool" where
  "no_digit u \<longleftrightarrow> (case u of [] \<Rightarrow> True | c # _ \<Rightarrow> \<not> is_digit c)"

lemma no_digit_takeWhile: "no_digit u \<Longrightarrow> list_all is_digit ds \<Longrightarrow>
    takeWhile is_digit (ds @ u) = ds \<and> dropWhile is_digit (ds @ u) = u"
  by (induction ds) (auto simp: no_digit_def split: list.splits)

lemma list_all_takeWhile: "list_all is_digit (takeWhile is_digit s)"
  by (auto simp: list_all_iff dest: set_takeWhileD)

lemma zero_is_digit [simp]: "is_digit (CHR ''0'')"
  by (simp add: is_digit_def)

lemma int_part_shape:
  assumes "int_part s = Some (ip, s1)"
  obtains "ip = [CHR ''0'']"
    | c t where "ip = c # t" "c \<noteq> CHR ''0''" "list_all is_digit (c # t)"
proof (cases s)
  case Nil
  with assms show ?thesis by (simp add: int_part_def)
next
  case (Cons c t)
  with assms list_all_takeWhile [of t] that(1) that(2) [of c "takeWhile is_digit t"] show ?thesis
    by (cases "c = CHR ''0''") (auto simp: int_part_def split: if_splits)
qed

lemma int_part_again:
  assumes "int_part s = Some (ip, s1)" and "no_digit u"
  shows "int_part (ip @ u) = Some (ip, u)"
  using assms(1)
proof (rule int_part_shape)
  fix c t
  assume "ip = c # t" "c \<noteq> CHR ''0''" "list_all is_digit (c # t)"
  with no_digit_takeWhile [OF assms(2), of ip] show ?thesis by (simp add: int_part_def)
qed (simp add: int_part_def)

lemma int_part_no_minus: "int_part s = Some (ip, s1) \<Longrightarrow> \<exists>c t. ip = c # t \<and> c \<noteq> CHR ''-''"
  by (auto simp: int_part_def split: list.splits if_splits)

lemma frac_part_again:
  assumes "frac_part s = Some (fp, s2)" and "u = [] \<or> hd u \<in> {CHR ''e'', CHR ''E''}"
  shows "frac_part (fp @ u) = Some (fp, u)" "no_digit (fp @ u)"
proof -
  have u: "no_digit u" "u \<noteq> [] \<longrightarrow> hd u \<noteq> CHR ''.''"
    using assms(2) by (auto simp: no_digit_def is_digit_def split: list.splits)
  show "frac_part (fp @ u) = Some (fp, u)" "no_digit (fp @ u)"
    using assms(1) u no_digit_takeWhile [OF u(1) list_all_takeWhile]
    by (auto simp: frac_part_def no_digit_def is_digit_def split: list.splits if_splits)
qed

lemma exp_part_again:
  assumes "exp_part s = Some (ep, s3)"
  shows "exp_part ep = Some (ep, [])" "ep = [] \<or> hd ep \<in> {CHR ''e'', CHR ''E''}"
proof -
  have nd: "takeWhile is_digit (takeWhile is_digit w) = takeWhile is_digit w"
    "dropWhile is_digit (takeWhile is_digit w) = []" for w
    using no_digit_takeWhile [of "[]" "takeWhile is_digit w", OF _ list_all_takeWhile]
    by (simp_all add: no_digit_def)
  have sign: "\<not> is_digit (CHR ''+'')" by (simp add: is_digit_def)
  have head: "takeWhile is_digit w = d # v \<Longrightarrow> is_digit d" for w d v
    using list_all_takeWhile [of w] by simp
  show "exp_part ep = Some (ep, [])" "ep = [] \<or> hd ep \<in> {CHR ''e'', CHR ''E''}"
    using assms nd sign
    by (auto simp: exp_part_def split: list.splits if_splits dest: head)
qed

lemma parse_number_again:
  assumes "parse_number s = Some (JFrac l, r)"
  shows "parse_number l = Some (JFrac l, [])"
proof -
  from assms obtain ip s1 fp s2 ep where p:
      "int_part (snd (split_sign s)) = Some (ip, s1)" "frac_part s1 = Some (fp, s2)"
      "exp_part s2 = Some (ep, r)" "JFrac l = number_value (fst (split_sign s)) ip fp ep"
    by (rule parse_numberE)
  let ?neg = "fst (split_sign s)"
  from p(4) have l: "l = (if ?neg then ''-'' else []) @ ip @ fp @ ep" and ne: "\<not> (fp = [] \<and> ep = [])"
    by (auto simp: number_value_def split: if_splits)
  note e = exp_part_again [OF p(3)]
  note f = frac_part_again [OF p(2) e(2)]
  have "int_part (ip @ fp @ ep) = Some (ip, fp @ ep)" using int_part_again [OF p(1) f(2)] .
  moreover have "split_sign l = (?neg, ip @ fp @ ep)"
    using int_part_no_minus [OF p(1)] by (auto simp: l split_sign_def)
  ultimately show ?thesis using f(1) e(1) ne
    by (auto simp: parse_number_def number_value_def l)
qed

lemma parse_number_ok: "parse_number s = Some (v, r) \<Longrightarrow> json_ok v"
proof (cases v)
  case (JFrac l)
  assume "parse_number s = Some (v, r)"
  with JFrac parse_number_again show ?thesis by simp
qed (auto elim!: parse_numberE simp: number_value_def split: if_splits)

lemma assign_ok:
  "json_ok v \<Longrightarrow> \<forall>x \<in> set xs. json_ok (snd x) \<Longrightarrow> \<forall>x \<in> set (assign k v xs). json_ok (snd x)"
  by (induction xs) (fastforce split: if_splits)+

lemma fold_assign_ok:
  assumes "distinct (map fst acc)" "\<forall>m \<in> set acc. json_ok (snd m)" "\<forall>m \<in> set ms. json_ok (snd m)"
  shows "json_ok (JObj (fold (\<lambda>(k, v). assign k v) ms acc))"
  using assms
proof (induction ms arbitrary: acc)
  case Nil
  then show ?case by simp
next
  case (Cons m ms)
  obtain k v where m: "m = (k, v)" by (cases m)
  have "json_ok v" using Cons.prems(3) m by simp
  then have "\<forall>x \<in> set (assign k v acc). json_ok (snd x)" using Cons.prems(2) by (rule assign_ok)
  moreover have "distinct (map fst (assign k v acc))" using Cons.prems(1) by simp
  moreover have "\<forall>m \<in> set ms. json_ok (snd m)" using Cons.prems(3) by simp
  ultimately have "json_ok (JObj (fold (\<lambda>(k, v). assign k v) ms (assign k v acc)))"
    by (intro Cons.IH)
  then show ?case by (simp add: m)
qed

lemma object_of_ok: "\<forall>m \<in> set ms. json_ok (snd m) \<Longrightarrow> json_ok (object_of ms)"
  unfolding object_of_def by (rule fold_assign_ok) simp_all

lemma parse_value_ok:
  shows "parse_value s = Some (v, r) \<Longrightarrow> json_ok v"
    and "parse_elems s = Some (vs, r') \<Longrightarrow> \<forall>w \<in> set vs. json_ok w"
    and "parse_members s = Some (ms, r'') \<Longrightarrow> \<forall>m \<in> set ms. json_ok (snd m)"
proof (induction s and s and s arbitrary: v r and vs r' and ms r''
    rule: parse_value_parse_elems_parse_members.induct)
  case (1 s)
  show ?case
  proof (cases s)
    case Nil
    with 1 show ?thesis by (simp add: parse_value.simps)
  next
    case (Cons c t)
    from 1(3) show ?thesis unfolding parse_value.simps [of s] using Cons 1(1,2)
      by (auto simp: expect_def parse_number_ok object_of_ok split: if_splits list.splits)
  qed
next
  case (2 s)
  from 2(3) show ?case unfolding parse_elems.simps [of s] using 2(1,2)
    by (auto split: option.splits list.splits if_splits)
next
  case (3 s)
  from 3(3) show ?case unfolding parse_members.simps [of s] using 3(1,2)
    by (fastforce split: option.splits list.splits if_splits)
qed

lemma parse_ok: "parse s = Some v \<Longrightarrow> json_ok v"
  by (auto simp: parse_def dest: parse_value_ok(1) split: option.splits if_splits)

end
