(* ===== verification/Auth.thy ===== *)
theory Auth
  imports Database Json
begin

text \<open>
  Accounts, sessions and API keys: \<open>src/auth/\<close>. The cryptographic libraries are parameters,
  collected in the record \<open>crypto\<close>; what the code relies on is stated as the predicates
  \<open>bcrypt_ok\<close> and \<open>jwt_ok\<close>. Salts, random bytes, generated identifiers and clocks are arguments.
\<close>

section \<open>Scopes and principals (scopes.ts, auth.service.ts)\<close>

definition API_SCOPES :: "string list" where
  "API_SCOPES = [''functions:read'', ''functions:write'', ''functions:invoke'']"

definition ALL_SCOPES :: "string list" where
  "ALL_SCOPES = API_SCOPES"

record principal =
  principal_userId :: string
  principal_scopes :: "string list"

record jwt_payload =
  jwt_sub :: string
  jwt_scopes :: "string list"

section \<open>The cryptographic libraries\<close>

text \<open>
  \<open>bcrypt.hash(password, rounds)\<close> with its random salt made explicit, \<open>bcrypt.compare\<close>, hexadecimal
  SHA-256, and the signing and verification of a JSON web token: \<open>jwt_sign\<close> takes the lifetime and
  the time of signing in seconds, \<open>jwt_verify\<close> the time of verification; \<^term>\<open>Inl m\<close> is a throw.
\<close>

record crypto =
  bcrypt_hash :: "nat \<Rightarrow> string \<Rightarrow> string \<Rightarrow> string"
  bcrypt_compare :: "string \<Rightarrow> string \<Rightarrow> bool"
  sha256_hex :: "string \<Rightarrow> string"
  jwt_sign :: "nat \<Rightarrow> nat \<Rightarrow> jwt_payload \<Rightarrow> string"
  jwt_verify :: "nat \<Rightarrow> string \<Rightarrow> string + jwt_payload"

text \<open>A password matches every hash made from it.\<close>

definition bcrypt_ok :: "crypto \<Rightarrow> bool" where
  "bcrypt_ok C \<longleftrightarrow> (\<forall>rounds salt pw. bcrypt_compare C pw (bcrypt_hash C rounds salt pw))"

text \<open>
  A token verifies to its payload until its lifetime is over and is refused afterwards; its text
  is a base64url header, so it never starts with the prefix of an API key.
\<close>

definition jwt_ok :: "crypto \<Rightarrow> bool" where
  "jwt_ok C \<longleftrightarrow>
     (\<forall>ttl t t' p. t' < t + ttl \<longrightarrow> jwt_verify C t' (jwt_sign C ttl t p) = Inr p) \<and>
     (\<forall>ttl t t' p. t + ttl \<le> t' \<longrightarrow> (\<exists>m. jwt_verify C t' (jwt_sign C ttl t p) = Inl m)) \<and>
     (\<forall>ttl t p. \<not> startsWith ''mc_'' (jwt_sign C ttl t p))"

section \<open>Request bodies (dto/)\<close>

record register_dto =
  reg_email :: string
  reg_password :: string

record login_dto =
  login_email :: string
  login_password :: string

record create_api_key_dto =
  ck_name :: string
  ck_scopes :: "string list"

text \<open>
  The validation pipe applied to a body; \<open>isEmail\<close> is the predicate of the validation library.
\<close>

definition RegisterDto :: "(string \<Rightarrow> bool) \<Rightarrow> json \<Rightarrow> http_exception + register_dto" where
  "RegisterDto isEmail body =
     (case body of
        JObj ms \<Rightarrow>
          (case (member ''email'' ms, member ''password'' ms) of
             (Some (JStr e), Some (JStr p)) \<Rightarrow>
               if isEmail e \<and> 8 \<le> length p then Inr \<lparr>reg_email = e, reg_password = p\<rparr>
               else Inl ValidationFailed
           | _ \<Rightarrow> Inl ValidationFailed)
      | _ \<Rightarrow> Inl ValidationFailed)"

definition LoginDto :: "(string \<Rightarrow> bool) \<Rightarrow> json \<Rightarrow> http_exception + login_dto" where
  "LoginDto isEmail body =
     (case body of
        JObj ms \<Rightarrow>
          (case (member ''email'' ms, member ''password'' ms) of
             (Some (JStr e), Some (JStr p)) \<Rightarrow>
               if isEmail e then Inr \<lparr>login_email = e, login_password = p\<rparr> else Inl ValidationFailed
           | _ \<Rightarrow> Inl ValidationFailed)
      | _ \<Rightarrow> Inl ValidationFailed)"

fun json_strings :: "json list \<Rightarrow> string list option" where
  "json_strings [] = Some []"
| "json_strings (JStr s # vs) = map_option ((#) s) (json_strings vs)"
| "json_strings (v # vs) = None"

definition CreateApiKeyDto :: "json \<Rightarrow> http_exception + create_api_key_dto" where
  "CreateApiKeyDto body =
     (case body of
        JObj ms \<Rightarrow>
          (case (member ''name'' ms, member ''scopes'' ms) of
             (Some (JStr n), Some (JArr vs)) \<Rightarrow>
               (case json_strings vs of
                  None \<Rightarrow> Inl ValidationFailed
                | Some ss \<Rightarrow>
                  if 1 \<le> length ss \<and> distinct ss \<and> set ss \<subseteq> set API_SCOPES
                  then Inr \<lparr>ck_name = n, ck_scopes = ss\<rparr> else Inl ValidationFailed)
           | _ \<Rightarrow> Inl ValidationFailed)
      | _ \<Rightarrow> Inl ValidationFailed)"

section \<open>AuthService (auth.service.ts)\<close>

definition API_KEY_PREFIX :: string where
  "API_KEY_PREFIX = ''mc_''"

definition BCRYPT_ROUNDS :: nat where
  "BCRYPT_ROUNDS = 12"

text \<open>\<open>expiresIn: '2h'\<close> in auth.module.ts, in seconds.\<close>

definition JWT_EXPIRES_IN :: nat where
  "JWT_EXPIRES_IN = 2 * 60 * 60"

definition register_user ::
  "crypto \<Rightarrow> faults \<Rightarrow> string \<Rightarrow> string \<Rightarrow> nat \<Rightarrow> register_dto \<Rightarrow> db \<Rightarrow> (http_exception + string) \<times> db" where
  "register_user C F salt newId now dto db =
     (let passwordHash = bcrypt_hash C BCRYPT_ROUNDS salt (reg_password dto);
          user = \<lparr>user_id = newId, email = reg_email dto, passwordHash = passwordHash, user_createdAt = now\<rparr>
      in case db_write F UserCreate (user_create user db) of
           Inr db' \<Rightarrow> (Inr (user_id user), db')
         | Inl P2002 \<Rightarrow>
             (Inl (Conflict (''An account with email '' @ quoted (reg_email dto) @ '' already exists'')), db)
         | Inl _ \<Rightarrow> (Inl InternalError, db))"

definition login :: "crypto \<Rightarrow> faults \<Rightarrow> nat \<Rightarrow> login_dto \<Rightarrow> db \<Rightarrow> http_exception + string" where
  "login C F now dto db =
     (case db_read F UserFindUnique (find (\<lambda>u. email u = login_email dto) (users db)) of
        Inl _ \<Rightarrow> Inl InternalError
      | Inr None \<Rightarrow> Inl (Unauthorized ''Invalid email or password'')
      | Inr (Some u) \<Rightarrow>
          if \<not> bcrypt_compare C (login_password dto) (passwordHash u)
          then Inl (Unauthorized ''Invalid email or password'')
          else Inr (jwt_sign C JWT_EXPIRES_IN now \<lparr>jwt_sub = user_id u, jwt_scopes = ALL_SCOPES\<rparr>))"

definition hashApiKey :: "crypto \<Rightarrow> string \<Rightarrow> string" where
  "hashApiKey C rawKey = sha256_hex C rawKey"

record created_api_key =
  created_id :: string
  created_name :: string
  created_scopes :: "string list"
  created_rawKey :: string

definition createApiKey ::
  "crypto \<Rightarrow> faults \<Rightarrow> string \<Rightarrow> string \<Rightarrow> nat \<Rightarrow> string \<Rightarrow> create_api_key_dto \<Rightarrow> db \<Rightarrow>
   (http_exception + created_api_key) \<times> db" where
  "createApiKey C F randomHex newId now userId dto db =
     (let rawKey = API_KEY_PREFIX @ randomHex;
          record = \<lparr>key_id = newId, key_userId = userId, keyHash = hashApiKey C rawKey,
            key_name = ck_name dto, key_scopes = ck_scopes dto, lastUsedAt = None, revokedAt = None,
            key_createdAt = now\<rparr>
      in case db_write F ApiKeyCreate (apiKey_create record db) of
           Inl _ \<Rightarrow> (Inl InternalError, db)
         | Inr db' \<Rightarrow>
             (Inr \<lparr>created_id = key_id record, created_name = key_name record,
                   created_scopes = key_scopes record, created_rawKey = rawKey\<rparr>, db'))"

text \<open>The columns \<open>listApiKeys\<close> selects; the hash is not one of them.\<close>

record api_key_view =
  view_id :: string
  view_name :: string
  view_scopes :: "string list"
  view_lastUsedAt :: "nat option"
  view_revokedAt :: "nat option"
  view_createdAt :: nat

definition api_key_select :: "api_key \<Rightarrow> api_key_view" where
  "api_key_select k =
     \<lparr>view_id = key_id k, view_name = key_name k, view_scopes = key_scopes k,
      view_lastUsedAt = lastUsedAt k, view_revokedAt = revokedAt k, view_createdAt = key_createdAt k\<rparr>"

definition listApiKeys :: "faults \<Rightarrow> string \<Rightarrow> db \<Rightarrow> http_exception + api_key_view list" where
  "listApiKeys F userId db =
     (case db_read F ApiKeyFindMany
        (map api_key_select (sort_key key_createdAt (filter (\<lambda>k. key_userId k = userId) (apiKeys db)))) of
        Inl _ \<Rightarrow> Inl InternalError
      | Inr ks \<Rightarrow> Inr ks)"

definition revokeApiKey ::
  "faults \<Rightarrow> nat \<Rightarrow> string \<Rightarrow> string \<Rightarrow> db \<Rightarrow> (http_exception + unit) \<times> db" where
  "revokeApiKey F now userId keyId db =
     (case db_read F ApiKeyFindById (find (\<lambda>k. key_id k = keyId) (apiKeys db)) of
        Inl _ \<Rightarrow> (Inl InternalError, db)
      | Inr key \<Rightarrow>
          if (case key of None \<Rightarrow> True | Some k \<Rightarrow> key_userId k \<noteq> userId)
          then (Inl (NotFound (''API key '' @ quoted keyId @ '' not found'')), db)
          else (case db_write F ApiKeyRevoke (apiKey_update keyId (\<lambda>k. k\<lparr>revokedAt := Some now\<rparr>) db) of
                  Inl _ \<Rightarrow> (Inl InternalError, db)
                | Inr db' \<Rightarrow> (Inr (), db')))"

text \<open>
  The update of \<open>lastUsedAt\<close> is not awaited and its failure is dropped; the state returned is the
  one after it has run.
\<close>

definition validateApiKey ::
  "crypto \<Rightarrow> faults \<Rightarrow> nat \<Rightarrow> string \<Rightarrow> db \<Rightarrow> (http_exception + principal option) \<times> db" where
  "validateApiKey C F now rawKey db =
     (case db_read F ApiKeyFindByHash (find (\<lambda>k. keyHash k = hashApiKey C rawKey) (apiKeys db)) of
        Inl _ \<Rightarrow> (Inl InternalError, db)
      | Inr None \<Rightarrow> (Inr None, db)
      | Inr (Some record) \<Rightarrow>
          if revokedAt record \<noteq> None then (Inr None, db)
          else (Inr (Some \<lparr>principal_userId = key_userId record, principal_scopes = key_scopes record\<rparr>),
                case db_write F ApiKeyTouch
                  (apiKey_update (key_id record) (\<lambda>k. k\<lparr>lastUsedAt := Some now\<rparr>) db) of
                  Inl _ \<Rightarrow> db
                | Inr db' \<Rightarrow> db'))"

definition verifyJwt :: "crypto \<Rightarrow> nat \<Rightarrow> string \<Rightarrow> string + principal" where
  "verifyJwt C now token =
     (case jwt_verify C now token of
        Inl m \<Rightarrow> Inl m
      | Inr p \<Rightarrow> Inr \<lparr>principal_userId = jwt_sub p, principal_scopes = jwt_scopes p\<rparr>)"

section \<open>Guards (guards/)\<close>

definition tryVerifyJwt :: "crypto \<Rightarrow> nat \<Rightarrow> string \<Rightarrow> principal option" where
  "tryVerifyJwt C now token = (case verifyJwt C now token of Inr p \<Rightarrow> Some p | Inl _ \<Rightarrow> None)"

definition AuthGuard ::
  "crypto \<Rightarrow> faults \<Rightarrow> nat \<Rightarrow> string option \<Rightarrow> db \<Rightarrow> (http_exception + principal) \<times> db" where
  "AuthGuard C F now header db =
     (case header of
        None \<Rightarrow> (Inl (Unauthorized ''Missing or malformed Authorization header''), db)
      | Some h \<Rightarrow>
        if \<not> startsWith ''Bearer '' h
        then (Inl (Unauthorized ''Missing or malformed Authorization header''), db)
        else
          (let token = drop (length ''Bearer '') h;
               (principal, db') =
                 (if startsWith ''mc_'' token then validateApiKey C F now token db
                  else (Inr (tryVerifyJwt C now token), db))
           in case principal of
                Inl e \<Rightarrow> (Inl e, db')
              | Inr None \<Rightarrow> (Inl (Unauthorized ''Invalid or revoked credentials''), db')
              | Inr (Some p) \<Rightarrow> (Inr p, db')))"

definition ScopesGuard :: "string list \<Rightarrow> principal \<Rightarrow> http_exception + unit" where
  "ScopesGuard required p =
     (if required = [] then Inr ()
      else
        (let missing = filter (\<lambda>scope. scope \<notin> set (principal_scopes p)) required
         in if missing \<noteq> []
            then Inl (Forbidden (''Missing required scope(s): '' @ join_comma missing))
            else Inr ()))"

section \<open>AuthController (auth.controller.ts)\<close>

text \<open>Nest runs the guards of a route before its pipes, and the pipes before the handler.\<close>

definition guarded ::
  "crypto \<Rightarrow> faults \<Rightarrow> nat \<Rightarrow> string option \<Rightarrow> (principal \<Rightarrow> db \<Rightarrow> (http_exception + 'a) \<times> db) \<Rightarrow>
   db \<Rightarrow> (http_exception + 'a) \<times> db" where
  "guarded C F now header h db =
     (case AuthGuard C F now header db of
        (Inl e, db') \<Rightarrow> (Inl e, db')
      | (Inr p, db') \<Rightarrow> h p db')"

definition auth_register where
  "auth_register C F isEmail salt newId now body db =
     (case RegisterDto isEmail body of
        Inl e \<Rightarrow> (Inl e, db)
      | Inr dto \<Rightarrow> register_user C F salt newId now dto db)"

definition auth_login where
  "auth_login C F isEmail now body db =
     (case LoginDto isEmail body of Inl e \<Rightarrow> Inl e | Inr dto \<Rightarrow> login C F now dto db)"

definition auth_createApiKey where
  "auth_createApiKey C F randomHex newId now header body db =
     guarded C F now header
       (\<lambda>user db'. case CreateApiKeyDto body of
          Inl e \<Rightarrow> (Inl e, db')
        | Inr dto \<Rightarrow> createApiKey C F randomHex newId now (principal_userId user) dto db') db"

definition auth_listApiKeys where
  "auth_listApiKeys C F now header db =
     guarded C F now header (\<lambda>user db'. (listApiKeys F (principal_userId user) db', db')) db"

definition auth_revokeApiKey where
  "auth_revokeApiKey C F now header keyId db =
     guarded C F now header (\<lambda>user db'. revokeApiKey F now (principal_userId user) keyId db') db"

lemmas [svc_defs] = register_user_def login_def createApiKey_def revokeApiKey_def validateApiKey_def

section \<open>The interface of a guard\<close>

text \<open>
  What the controllers rely on: a guard decides who is calling and may touch nothing but the
  bookkeeping of the API keys.
\<close>

locale route_guard =
  fixes G :: "db \<Rightarrow> (http_exception + principal) \<times> db"
  assumes guard_frame: "G db = (r, db') \<Longrightarrow>
      users db' = users db \<and> funcs db' = funcs db \<and> functionVersions db' = functionVersions db
      \<and> builds db' = builds db \<and> invocations db' = invocations db"
    and guard_keys: "G db = (r, db') \<Longrightarrow>
      map (\<lambda>k. k\<lparr>lastUsedAt := None\<rparr>) (apiKeys db') = map (\<lambda>k. k\<lparr>lastUsedAt := None\<rparr>) (apiKeys db)"
begin

lemma guard_key_column:
  assumes "G db = (r, db')" and "\<And>k. f (k\<lparr>lastUsedAt := None\<rparr>) = f k"
  shows "map f (apiKeys db') = map f (apiKeys db)"
proof -
  have "map f ks = map f (map (\<lambda>k. k\<lparr>lastUsedAt := None\<rparr>) ks)" for ks
    by (simp add: assms(2) comp_def)
  then show ?thesis using guard_keys [OF assms(1)] by metis
qed

lemma guard_wf:
  assumes "G db = (r, db')" and "db_wf db"
  shows "db_wf db'"
proof -
  have cols: "map key_id (apiKeys db') = map key_id (apiKeys db)"
    "map keyHash (apiKeys db') = map keyHash (apiKeys db)"
    "map key_userId (apiKeys db') = map key_userId (apiKeys db)"
    by (rule guard_key_column [OF assms(1)], simp)+
  have "key_userId ` set (apiKeys db') = key_userId ` set (apiKeys db)"
    using cols(3) by (metis set_map)
  moreover have "key_userId ` set (apiKeys db) \<subseteq> user_id ` set (users db)"
    using assms(2) by (auto simp: db_wf_def apiKeys_wf_def)
  ultimately have "\<forall>k \<in> set (apiKeys db'). key_userId k \<in> user_id ` set (users db)" by blast
  with cols guard_frame [OF assms(1)] assms(2) show ?thesis
    by (simp add: db_wf_def wf_defs)
qed

end

lemma validateApiKey_frame:
  assumes "validateApiKey C F now rawKey db = (r, db')"
  shows "db' = db \<or> (\<exists>i. db' = db\<lparr>apiKeys := update_where (\<lambda>k. key_id k = i) (\<lambda>k. k\<lparr>lastUsedAt := Some now\<rparr>) (apiKeys db)\<rparr>)"
  using assms
  by (auto simp: validateApiKey_def apiKey_update_def db_write_def split: sum.splits option.splits if_splits)

lemma AuthGuard_frame:
  assumes "AuthGuard C F now header db = (r, db')"
  shows "db' = db \<or> (\<exists>i. db' = db\<lparr>apiKeys := update_where (\<lambda>k. key_id k = i) (\<lambda>k. k\<lparr>lastUsedAt := Some now\<rparr>) (apiKeys db)\<rparr>)"
  using assms
  by (auto simp: AuthGuard_def Let_def split: sum.splits option.splits if_splits prod.splits
      dest!: validateApiKey_frame)

interpretation ag: route_guard "AuthGuard C F now header" for C F now header
proof
  fix db r db'
  assume "AuthGuard C F now header db = (r, db')"
  from AuthGuard_frame [OF this]
  show "users db' = users db \<and> funcs db' = funcs db \<and> functionVersions db' = functionVersions db
      \<and> builds db' = builds db \<and> invocations db' = invocations db"
    and "map (\<lambda>k. k\<lparr>lastUsedAt := None\<rparr>) (apiKeys db') = map (\<lambda>k. k\<lparr>lastUsedAt := None\<rparr>) (apiKeys db)"
    by (auto simp: row_simps)
qed

lemma AuthGuard_jwt:
  assumes "\<not> startsWith ''mc_'' token"
  shows "AuthGuard C F now (Some (''Bearer '' @ token)) db =
    (case jwt_verify C now token of
       Inl _ \<Rightarrow> (Inl (Unauthorized ''Invalid or revoked credentials''), db)
     | Inr p \<Rightarrow> (Inr \<lparr>principal_userId = jwt_sub p, principal_scopes = jwt_scopes p\<rparr>, db))"
  using assms startsWith_append [of "''Bearer ''" token]
  by (simp add: AuthGuard_def tryVerifyJwt_def verifyJwt_def split: sum.split)

lemma AuthGuard_key:
  assumes "startsWith ''mc_'' token"
  shows "AuthGuard C F now (Some (''Bearer '' @ token)) db =
    (case validateApiKey C F now token db of
       (Inl e, db') \<Rightarrow> (Inl e, db')
     | (Inr None, db') \<Rightarrow> (Inl (Unauthorized ''Invalid or revoked credentials''), db')
     | (Inr (Some p), db') \<Rightarrow> (Inr p, db'))"
  using assms startsWith_append [of "''Bearer ''" token]
  by (simp add: AuthGuard_def split: sum.split prod.split option.split)

section \<open>Accounts and sessions\<close>

lemma find_user_after_create:
  assumes "user_create u db = Inr db'"
  shows "find (\<lambda>x. email x = email u) (users db') = Some u"
  using assms find_None_key [of email "email u" "users db"]
  by (auto simp: user_create_def find_append split: if_splits)

lemma register_user_Inr:
  assumes "register_user C F salt newId now dto db = (Inr uid, db')"
  shows "uid = newId" and "F UserCreate = None"
    and "user_create \<lparr>user_id = newId, email = reg_email dto,
       passwordHash = bcrypt_hash C BCRYPT_ROUNDS salt (reg_password dto), user_createdAt = now\<rparr> db = Inr db'"
  using assms
  by (auto simp: register_user_def Let_def split: sum.splits db_error.splits)

text \<open>
  C31. Registering and then logging in with the same credentials succeeds, and the token obtained
  is accepted by the guard, as the registered user and with every scope, until two hours have
  passed; from then on it is refused.
\<close>

theorem register_login_roundtrip:
  assumes "bcrypt_ok C" and "jwt_ok C"
    and "register_user C F salt newId now dto db = (Inr uid, db')"
    and "F' UserFindUnique = None"
  shows "\<exists>token. login C F' t \<lparr>login_email = reg_email dto, login_password = reg_password dto\<rparr> db' = Inr token \<and>
     (\<forall>t' db'' F''. t' < t + 7200 \<longrightarrow> AuthGuard C F'' t' (Some (''Bearer '' @ token)) db'' =
        (Inr \<lparr>principal_userId = uid, principal_scopes = ALL_SCOPES\<rparr>, db'')) \<and>
     (\<forall>t' db'' F''. t + 7200 \<le> t' \<longrightarrow> AuthGuard C F'' t' (Some (''Bearer '' @ token)) db'' =
        (Inl (Unauthorized ''Invalid or revoked credentials''), db''))"
proof -
  let ?p = "\<lparr>jwt_sub = uid, jwt_scopes = ALL_SCOPES\<rparr>"
  let ?token = "jwt_sign C JWT_EXPIRES_IN t ?p"
  note r = register_user_Inr [OF assms(3)]
  have "login C F' t \<lparr>login_email = reg_email dto, login_password = reg_password dto\<rparr> db' = Inr ?token"
    using find_user_after_create [OF r(3)] assms(1,4) r(1)
    by (simp add: login_def bcrypt_ok_def)
  moreover have "jwt_verify C t' ?token = Inr ?p" if "t' < t + 7200" for t'
    using assms(2) that by (simp add: jwt_ok_def JWT_EXPIRES_IN_def)
  moreover have "\<exists>m. jwt_verify C t' ?token = Inl m" if "t + 7200 \<le> t'" for t'
    using assms(2) that by (simp add: jwt_ok_def JWT_EXPIRES_IN_def)
  moreover have "\<not> startsWith ''mc_'' ?token" using assms(2) by (simp add: jwt_ok_def)
  note AuthGuard_jwt [OF this]
  ultimately show ?thesis by (intro exI [of _ ?token]) fastforce
qed

text \<open>
  A failed login tells nothing about which e-mail addresses have an account: while the
  database answers, the one error that can come back is the same for an unknown address and for
  a wrong password, and it comes back in exactly these two cases.
\<close>

theorem login_uniform_error:
  assumes "F UserFindUnique = None"
  shows "login C F now dto db = Inl e \<longleftrightarrow>
     e = Unauthorized ''Invalid email or password'' \<and>
     (login_email dto \<notin> email ` set (users db) \<or>
      (\<exists>u. find (\<lambda>u. email u = login_email dto) (users db) = Some u \<and>
           \<not> bcrypt_compare C (login_password dto) (passwordHash u)))"
  using assms find_None_key [of email "login_email dto" "users db"]
  by (auto simp: login_def split: option.splits)

section \<open>API keys\<close>

lemma createApiKey_Inr:
  assumes "createApiKey C F randomHex newId now userId dto db = (Inr k, db')"
  obtains r where "apiKey_create r db = Inr db'" and "key_id r = newId"
    and "key_userId r = userId" and "keyHash r = hashApiKey C (created_rawKey k)"
    and "key_scopes r = ck_scopes dto" and "revokedAt r = None"
    and "created_rawKey k = API_KEY_PREFIX @ randomHex"
  using assms by (auto simp: createApiKey_def Let_def split: sum.splits)

lemma apiKey_create_Inr:
  "apiKey_create r db = Inr db' \<Longrightarrow>
     db' = db\<lparr>apiKeys := apiKeys db @ [r]\<rparr> \<and> keyHash r \<notin> keyHash ` set (apiKeys db)"
  by (auto simp: apiKey_create_def split: if_splits)

lemma find_hash_after_create:
  assumes "apiKey_create r db = Inr db'"
  shows "find (\<lambda>k. keyHash k = keyHash r) (apiKeys db') = Some r"
  using apiKey_create_Inr [OF assms] find_None_key [of keyHash "keyHash r" "apiKeys db"]
  by (auto simp: find_append)

lemma created_key_authenticates:
  assumes "createApiKey C F randomHex newId now userId dto db = (Inr k, db')"
    and "F' ApiKeyFindByHash = None"
  shows "fst (AuthGuard C F' t (Some (''Bearer '' @ created_rawKey k)) db') =
     Inr \<lparr>principal_userId = userId, principal_scopes = ck_scopes dto\<rparr>"
proof -
  obtain r where r: "apiKey_create r db = Inr db'" "key_userId r = userId"
      "keyHash r = hashApiKey C (created_rawKey k)" "key_scopes r = ck_scopes dto" "revokedAt r = None"
      "created_rawKey k = API_KEY_PREFIX @ randomHex"
    using createApiKey_Inr [OF assms(1)] by metis
  have "startsWith ''mc_'' (created_rawKey k)"
    using r(6) startsWith_append [of "''mc_''"] by (simp add: API_KEY_PREFIX_def)
  then show ?thesis
    using AuthGuard_key find_hash_after_create [OF r(1)] r assms(2)
    by (auto simp: validateApiKey_def split: sum.split)
qed

text \<open>
  The raw key that \<open>createApiKey\<close> returns authenticates: presented as a bearer token it is
  accepted as its owner, with exactly the scopes that were asked for.
\<close>

theorem apiKey_roundtrip:
  assumes "createApiKey C F randomHex newId now userId dto db = (Inr k, db')"
    and "F' ApiKeyFindByHash = None"
  shows "fst (AuthGuard C F' t (Some (''Bearer '' @ created_rawKey k)) db') =
     Inr \<lparr>principal_userId = userId, principal_scopes = ck_scopes dto\<rparr>"
  using assms by (rule created_key_authenticates)

text \<open>
  Only the owner revokes a key. The call succeeds exactly when a key with this id belongs to
  the caller; a key that does not exist and a key of someone else give the same 404 and change
  nothing.
\<close>

theorem revokeApiKey_owner:
  assumes "db_wf db" and "F ApiKeyFindById = None" and "F ApiKeyRevoke = None"
  shows "revokeApiKey F now userId keyId db =
     (if \<exists>k \<in> set (apiKeys db). key_id k = keyId \<and> key_userId k = userId
      then (Inr (), db\<lparr>apiKeys := update_where (\<lambda>k. key_id k = keyId) (\<lambda>k. k\<lparr>revokedAt := Some now\<rparr>) (apiKeys db)\<rparr>)
      else (Inl (NotFound (''API key '' @ quoted keyId @ '' not found'')), db))"
proof -
  have d: "distinct (map key_id (apiKeys db))" using assms(1) by (simp add: db_wf_def apiKeys_wf_def)
  have iff: "find (\<lambda>k. key_id k = keyId) (apiKeys db) = Some k \<longleftrightarrow> k \<in> set (apiKeys db) \<and> key_id k = keyId" for k
    by (rule find_key_iff [OF d])
  show ?thesis
  proof (cases "find (\<lambda>k. key_id k = keyId) (apiKeys db)")
    case None
    then have "\<not> (\<exists>k \<in> set (apiKeys db). key_id k = keyId \<and> key_userId k = userId)"
      by (auto simp: find_None_key)
    with None assms(2) show ?thesis by (simp add: revokeApiKey_def)
  next
    case (Some k)
    then have k: "k \<in> set (apiKeys db)" "key_id k = keyId" using iff by auto
    have "k' = k" if "k' \<in> set (apiKeys db)" "key_id k' = keyId" for k'
      using distinct_map_inj [OF d that(1) k(1)] that(2) k(2) by simp
    then have "(\<exists>x \<in> set (apiKeys db). key_id x = keyId \<and> key_userId x = userId) \<longleftrightarrow> key_userId k = userId"
      using k by blast
    moreover have "keyId \<in> key_id ` set (apiKeys db)" using k by blast
    ultimately show ?thesis using Some assms(2,3)
      by (simp add: revokeApiKey_def apiKey_update_def)
  qed
qed

lemma revokeApiKey_Inr:
  assumes "revokeApiKey F now userId keyId db = (Inr (), db')"
  shows "db' = db\<lparr>apiKeys := update_where (\<lambda>k. key_id k = keyId) (\<lambda>k. k\<lparr>revokedAt := Some now\<rparr>) (apiKeys db)\<rparr>"
  using assms by (auto simp: revokeApiKey_def apiKey_update_def split: sum.splits if_splits)

text \<open>
  C32. What the guard accepts: a bearer token with the prefix of a key only if an unrevoked key
  with its hash is stored, and then the principal is that key's owner with that key's scopes; any
  other token only if its signature verifies, and then the principal is the one signed for.
\<close>

theorem AuthGuard_sound:
  assumes "AuthGuard C F now header db = (Inr p, db')"
  shows "\<exists>token. header = Some (''Bearer '' @ token) \<and>
     (if startsWith ''mc_'' token
      then \<exists>k \<in> set (apiKeys db). keyHash k = sha256_hex C token \<and> revokedAt k = None \<and>
             p = \<lparr>principal_userId = key_userId k, principal_scopes = key_scopes k\<rparr>
      else \<exists>pl. jwt_verify C now token = Inr pl \<and>
             p = \<lparr>principal_userId = jwt_sub pl, principal_scopes = jwt_scopes pl\<rparr>)"
proof -
  from assms obtain token where h: "header = Some (''Bearer '' @ token)"
    by (auto simp: AuthGuard_def startsWith_iff split: option.splits if_splits)
  show ?thesis
  proof (cases "startsWith ''mc_'' token")
    case True
    from assms obtain db1 where "validateApiKey C F now token db = (Inr (Some p), db1)"
      unfolding h AuthGuard_key [OF True] by (auto split: prod.splits sum.splits option.splits)
    then have "\<exists>k \<in> set (apiKeys db). keyHash k = sha256_hex C token \<and> revokedAt k = None \<and>
        p = \<lparr>principal_userId = key_userId k, principal_scopes = key_scopes k\<rparr>"
      by (auto simp: validateApiKey_def hashApiKey_def db_read_def
          split: sum.splits option.splits if_splits dest!: find_SomeD)
    with True h show ?thesis by auto
  next
    case False
    from assms show ?thesis unfolding h AuthGuard_jwt [OF False]
      using False by (auto split: sum.splits)
  qed
qed

text \<open>
  Authorization: a route is entered exactly when every scope it requires was granted, and the
  refusal names the missing scopes, in order, and no others.
\<close>

theorem ScopesGuard_iff:
  "ScopesGuard required p =
     (if set required \<subseteq> set (principal_scopes p) then Inr ()
      else Inl (Forbidden (''Missing required scope(s): '' @
             join_comma (filter (\<lambda>s. s \<notin> set (principal_scopes p)) required))))"
  by (auto simp: ScopesGuard_def Let_def filter_empty_conv)

text \<open>
  C33. The controller's comment says a key can only be minted by a session obtained by login. The
  code asks for authentication only: any API key, whatever its scopes, can mint a key with every
  scope for its owner.
\<close>

theorem apiKey_escalation:
  assumes "keyHash k = sha256_hex C raw" and "k \<in> set (apiKeys db)" and "revokedAt k = None"
    and "startsWith ''mc_'' raw" and "db_wf db"
    and "newId \<notin> key_id ` set (apiKeys db)" and "sha256_hex C (''mc_'' @ rnd) \<notin> keyHash ` set (apiKeys db)"
  shows "\<exists>db'. auth_createApiKey C no_faults rnd newId now (Some (''Bearer '' @ raw))
      (JObj [(''name'', JStr nm), (''scopes'', JArr (map JStr ALL_SCOPES))]) db =
     (Inr \<lparr>created_id = newId, created_name = nm, created_scopes = ALL_SCOPES, created_rawKey = ''mc_'' @ rnd\<rparr>, db')
     \<and> fst (AuthGuard C no_faults t (Some (''Bearer '' @ ''mc_'' @ rnd)) db') =
         Inr \<lparr>principal_userId = key_userId k, principal_scopes = ALL_SCOPES\<rparr>"
proof -
  let ?touch = "update_where (\<lambda>x. key_id x = key_id k) (\<lambda>x. x\<lparr>lastUsedAt := Some now\<rparr>) (apiKeys db)"
  let ?db1 = "db\<lparr>apiKeys := ?touch\<rparr>"
  let ?dto = "\<lparr>ck_name = nm, ck_scopes = ALL_SCOPES\<rparr>"
  have d: "distinct (map keyHash (apiKeys db))" using assms(5) by (simp add: db_wf_def apiKeys_wf_def)
  have "find (\<lambda>x. keyHash x = sha256_hex C raw) (apiKeys db) = Some k"
    using find_key_iff [OF d] assms(1,2) by simp
  then have guard: "AuthGuard C no_faults now (Some (''Bearer '' @ raw)) db =
      (Inr \<lparr>principal_userId = key_userId k, principal_scopes = key_scopes k\<rparr>, ?db1)"
    using AuthGuard_key [OF assms(4)] assms(2,3)
    by (auto simp: validateApiKey_def hashApiKey_def apiKey_update_def)
  have "key_id ` set ?touch = key_id ` set (apiKeys db)" "keyHash ` set ?touch = keyHash ` set (apiKeys db)"
    by (simp_all add: row_simps)
  moreover have "key_userId k \<in> user_id ` set (users db)"
    using assms(2,5) by (simp add: db_wf_def apiKeys_wf_def)
  ultimately obtain db' where ck: "createApiKey C no_faults rnd newId now (key_userId k) ?dto ?db1 =
      (Inr \<lparr>created_id = newId, created_name = nm, created_scopes = ALL_SCOPES, created_rawKey = ''mc_'' @ rnd\<rparr>, db')"
    using assms(6,7)
    by (simp add: createApiKey_def Let_def apiKey_create_def hashApiKey_def API_KEY_PREFIX_def)
  have "CreateApiKeyDto (JObj [(''name'', JStr nm), (''scopes'', JArr (map JStr ALL_SCOPES))]) = Inr ?dto"
    by (simp add: CreateApiKeyDto_def member_def ALL_SCOPES_def API_SCOPES_def)
  with guard ck created_key_authenticates [OF ck, of no_faults t] show ?thesis
    by (simp add: auth_createApiKey_def guarded_def)
qed

section \<open>The invariant of the tables\<close>

lemma register_user_wf: "db_wf db \<Longrightarrow> db_wf (snd (register_user C F salt newId now dto db))"
  by (auto simp: register_user_def Let_def split: sum.splits db_error.splits intro: user_create_wf)

lemma createApiKey_wf: "db_wf db \<Longrightarrow> db_wf (snd (createApiKey C F rnd newId now userId dto db))"
  by (auto simp: createApiKey_def Let_def split: sum.splits intro: apiKey_create_wf)

lemma revokeApiKey_wf: "db_wf db \<Longrightarrow> db_wf (snd (revokeApiKey F now userId keyId db))"
  by (auto simp: revokeApiKey_def split: sum.splits if_splits intro: apiKey_update_wf)

section \<open>Instances\<close>

text \<open>
  Concrete functions for the parameters: hashing a password reverses it, hashing a key keeps it, a token is the JSON text of its
  expiry and payload behind the letter \<open>e\<close>.
\<close>

definition demo_sign :: "nat \<Rightarrow> nat \<Rightarrow> jwt_payload \<Rightarrow> string" where
  "demo_sign ttl t p =
     CHR ''e'' # stringify (JArr [JNum (int (t + ttl)), JStr (jwt_sub p), JArr (map JStr (jwt_scopes p))])"

definition demo_verify :: "nat \<Rightarrow> string \<Rightarrow> string + jwt_payload" where
  "demo_verify now token =
     (case parse (drop 1 token) of
        Some (JArr [JNum e, JStr u, JArr ss]) \<Rightarrow>
          (case json_strings ss of
             Some l \<Rightarrow> if int now < e then Inr \<lparr>jwt_sub = u, jwt_scopes = l\<rparr> else Inl ''jwt expired''
           | None \<Rightarrow> Inl ''jwt malformed'')
      | _ \<Rightarrow> Inl ''jwt malformed'')"

definition demo_crypto :: crypto where
  "demo_crypto = \<lparr>bcrypt_hash = (\<lambda>rounds salt pw. rev pw), bcrypt_compare = (\<lambda>pw h. h = rev pw),
     sha256_hex = (\<lambda>s. s), jwt_sign = demo_sign, jwt_verify = demo_verify\<rparr>"

lemma demo_bcrypt_ok: "bcrypt_ok demo_crypto"
  by (simp add: bcrypt_ok_def demo_crypto_def)

lemma json_strings_map: "json_strings (map JStr ss) = Some ss"
  by (induction ss) simp_all

lemma demo_verify_sign:
  "demo_verify t' (demo_sign ttl t p) = (if t' < t + ttl then Inr p else Inl ''jwt expired'')"
proof -
  have "json_ok (JArr [JNum (int (t + ttl)), JStr (jwt_sub p), JArr (map JStr (jwt_scopes p))])" by auto
  from parse_stringify [OF this] show ?thesis
    by (simp only: demo_verify_def demo_sign_def drop_Suc_Cons drop_0 One_nat_def option.case json.case
        list.case json_strings_map of_nat_less_iff) simp
qed

lemma demo_jwt_ok: "jwt_ok demo_crypto"
  by (simp add: jwt_ok_def demo_crypto_def demo_verify_sign) (simp add: demo_sign_def startsWith_def)

definition demo_user_db :: db where
  "demo_user_db = empty_db\<lparr>users := [\<lparr>user_id = ''u1'', email = ''a@b.c'', passwordHash = ''1drowssap'', user_createdAt = 0\<rparr>]\<rparr>"

lemma demo_register:
  "register_user demo_crypto no_faults ''salt'' ''u1'' 0 \<lparr>reg_email = ''a@b.c'', reg_password = ''password1''\<rparr> empty_db
     = (Inr ''u1'', demo_user_db)"
  by (simp add: register_user_def user_create_def empty_db_def demo_user_db_def demo_crypto_def)

text \<open>Witness of C31.\<close>

theorem register_login_roundtrip_witness:
  "\<exists>token. login demo_crypto no_faults 5 \<lparr>login_email = ''a@b.c'', login_password = ''password1''\<rparr> demo_user_db = Inr token \<and>
     AuthGuard demo_crypto no_faults 7204 (Some (''Bearer '' @ token)) empty_db =
       (Inr \<lparr>principal_userId = ''u1'', principal_scopes = ALL_SCOPES\<rparr>, empty_db) \<and>
     AuthGuard demo_crypto no_faults 7205 (Some (''Bearer '' @ token)) empty_db =
       (Inl (Unauthorized ''Invalid or revoked credentials''), empty_db)"
proof -
  obtain token where
    "login demo_crypto no_faults 5 \<lparr>login_email = ''a@b.c'', login_password = ''password1''\<rparr> demo_user_db = Inr token"
    "\<forall>t' db'' F''. t' < 5 + 7200 \<longrightarrow> AuthGuard demo_crypto F'' t' (Some (''Bearer '' @ token)) db'' =
        (Inr \<lparr>principal_userId = ''u1'', principal_scopes = ALL_SCOPES\<rparr>, db'')"
    "\<forall>t' db'' F''. 5 + 7200 \<le> t' \<longrightarrow> AuthGuard demo_crypto F'' t' (Some (''Bearer '' @ token)) db'' =
        (Inl (Unauthorized ''Invalid or revoked credentials''), db'')"
    using register_login_roundtrip [OF demo_bcrypt_ok demo_jwt_ok demo_register, of no_faults 5] by auto
  then show ?thesis by (intro exI [of _ token]) simp
qed

text \<open>Witness of \<open>login_uniform_error\<close>.\<close>

theorem login_uniform_error_witness:
  "login demo_crypto no_faults 5 \<lparr>login_email = ''a@b.c'', login_password = ''nope''\<rparr> demo_user_db
     = Inl (Unauthorized ''Invalid email or password'') \<and>
   login demo_crypto no_faults 5 \<lparr>login_email = ''x@y.z'', login_password = ''nope''\<rparr> demo_user_db
     = Inl (Unauthorized ''Invalid email or password'')"
  using login_uniform_error [of no_faults demo_crypto 5 "\<lparr>login_email = ''a@b.c'', login_password = ''nope''\<rparr>"
      demo_user_db "Unauthorized ''Invalid email or password''"]
    login_uniform_error [of no_faults demo_crypto 5 "\<lparr>login_email = ''x@y.z'', login_password = ''nope''\<rparr>"
      demo_user_db "Unauthorized ''Invalid email or password''"]
  by (simp add: demo_user_db_def empty_db_def demo_crypto_def)

definition demo_key :: api_key where
  "demo_key = \<lparr>key_id = ''k1'', key_userId = ''u1'', keyHash = ''mc_00'', key_name = ''ci'',
     key_scopes = [''functions:read''], lastUsedAt = None, revokedAt = None, key_createdAt = 1\<rparr>"

definition demo_key_db :: db where
  "demo_key_db = demo_user_db\<lparr>apiKeys := [demo_key]\<rparr>"

lemmas demo_defs = demo_key_db_def demo_key_def demo_user_db_def empty_db_def demo_crypto_def

lemma demo_key_db_wf: "db_wf demo_key_db"
  by (simp add: db_wf_def wf_defs demo_defs)

lemma demo_createApiKey:
  "createApiKey demo_crypto no_faults ''00'' ''k1'' 1 ''u1'' \<lparr>ck_name = ''ci'', ck_scopes = [''functions:read'']\<rparr> demo_user_db
     = (Inr \<lparr>created_id = ''k1'', created_name = ''ci'', created_scopes = [''functions:read''], created_rawKey = ''mc_00''\<rparr>,
        demo_key_db)"
  by (simp add: createApiKey_def Let_def apiKey_create_def demo_defs hashApiKey_def API_KEY_PREFIX_def)

text \<open>Witness of \<open>apiKey_roundtrip\<close>.\<close>

theorem apiKey_roundtrip_witness:
  "fst (AuthGuard demo_crypto no_faults 9 (Some (''Bearer '' @ ''mc_00'')) demo_key_db) =
     Inr \<lparr>principal_userId = ''u1'', principal_scopes = [''functions:read'']\<rparr>"
  using apiKey_roundtrip [OF demo_createApiKey, of no_faults 9] by simp

text \<open>Witness of \<open>revokeApiKey_owner\<close>: the owner revokes the key, another user gets the 404.\<close>

theorem revokeApiKey_owner_witness:
  "fst (revokeApiKey no_faults 7 ''u1'' ''k1'' demo_key_db) = Inr () \<and>
   revokeApiKey no_faults 7 ''u2'' ''k1'' demo_key_db =
     (Inl (NotFound (''API key '' @ quoted ''k1'' @ '' not found'')), demo_key_db)"
  using revokeApiKey_owner [OF demo_key_db_wf, of no_faults 7 "''u1''" "''k1''"]
    revokeApiKey_owner [OF demo_key_db_wf, of no_faults 7 "''u2''" "''k1''"]
  by (simp add: demo_defs)

text \<open>Witness of C32.\<close>

theorem AuthGuard_sound_witness:
  "\<exists>k \<in> set (apiKeys demo_key_db). keyHash k = ''mc_00'' \<and> revokedAt k = None"
proof -
  have "AuthGuard demo_crypto no_faults 9 (Some (''Bearer '' @ ''mc_00'')) demo_key_db =
      (Inr \<lparr>principal_userId = ''u1'', principal_scopes = [''functions:read'']\<rparr>,
       demo_key_db\<lparr>apiKeys := [demo_key\<lparr>lastUsedAt := Some 9\<rparr>]\<rparr>)"
    by (simp add: AuthGuard_def startsWith_def validateApiKey_def hashApiKey_def apiKey_update_def
        update_where_def demo_defs)
  from AuthGuard_sound [OF this] show ?thesis
    by (auto simp: startsWith_def demo_crypto_def)
qed

text \<open>Witness of C33: a key that may only read mints a key that may do everything.\<close>

theorem apiKey_escalation_witness:
  "\<exists>db'. auth_createApiKey demo_crypto no_faults ''11'' ''k2'' 3 (Some (''Bearer '' @ ''mc_00''))
      (JObj [(''name'', JStr ''all''), (''scopes'', JArr (map JStr ALL_SCOPES))]) demo_key_db =
     (Inr \<lparr>created_id = ''k2'', created_name = ''all'', created_scopes = ALL_SCOPES, created_rawKey = ''mc_'' @ ''11''\<rparr>, db')
     \<and> fst (AuthGuard demo_crypto no_faults 4 (Some (''Bearer '' @ ''mc_'' @ ''11'')) db') =
         Inr \<lparr>principal_userId = ''u1'', principal_scopes = ALL_SCOPES\<rparr>"
proof -
  have "key_userId demo_key = ''u1''" by (simp add: demo_key_def)
  moreover have "keyHash demo_key = sha256_hex demo_crypto ''mc_00''" "demo_key \<in> set (apiKeys demo_key_db)"
    "revokedAt demo_key = None" "startsWith ''mc_'' ''mc_00''"
    "''k2'' \<notin> key_id ` set (apiKeys demo_key_db)"
    "sha256_hex demo_crypto (''mc_'' @ ''11'') \<notin> keyHash ` set (apiKeys demo_key_db)"
    by (simp_all add: demo_defs startsWith_def)
  ultimately show ?thesis
    using apiKey_escalation [of demo_key demo_crypto "''mc_00''" demo_key_db "''k2''" "''11''" 3 "''all''" 4]
      demo_key_db_wf by simp
qed

end
