(* ===== verification/Redis_Service.thy ===== *)
theory Redis_Service
  imports MC_Prelude "HOL-Library.AList"
begin

text \<open>
  Redis as the program sees it. The service is not part of the repository, so its commands are a
  parameter: a record \<open>'r redis\<close> of the commands the program issues, over a state \<open>'r\<close> of which
  nothing is known but a view of its hashes, streams and published messages. The locales state
  what the documentation of the commands promises of that view; a command may always fail, and a
  failed write may or may not have taken effect.
\<close>

section \<open>What can be observed\<close>

text \<open>
  A stream is an append-only list of entries; a consumer group records which entries it has
  delivered, and for the delivered entries that are not acknowledged yet (the Pending Entries
  List) their owner and the time of the last delivery. \<open>groups\<close> are the consumer groups of a stream.
\<close>

type_synonym entry = "string \<times> string list"

record stream =
  entries :: "entry list"
  delivered :: "string \<Rightarrow> string set"
  pel :: "string \<Rightarrow> string \<rightharpoonup> string \<times> nat"

record redis_view =
  hashes :: "string \<Rightarrow> string \<rightharpoonup> string"
  streams :: "string \<Rightarrow> stream"
  groups :: "string \<Rightarrow> string set"
  published :: "(string \<times> string) list"

section \<open>The commands\<close>

text \<open>A value in a reply: a string, a number, or null.\<close>

datatype reply_value = RStr string | RInt int | RNil

text \<open>
  Arguments are in the order of the command; \<open>now\<close> is the clock of the server, which the idle
  times refer to. \<^term>\<open>Inl m\<close> is a rejected promise with message \<open>m\<close>.
\<close>

record 'r redis =
  view :: "'r \<Rightarrow> redis_view"
  hset :: "string \<Rightarrow> string \<Rightarrow> string \<Rightarrow> 'r \<Rightarrow> (string + unit) \<times> 'r"
  hdel :: "string \<Rightarrow> string \<Rightarrow> 'r \<Rightarrow> (string + unit) \<times> 'r"
  hgetall :: "string \<Rightarrow> 'r \<Rightarrow> (string + (string \<times> string) list) \<times> 'r"
  xadd :: "string \<Rightarrow> string list \<Rightarrow> 'r \<Rightarrow> (string + string) \<times> 'r"
  xreadgroup :: "nat \<Rightarrow> string \<Rightarrow> string \<Rightarrow> string \<Rightarrow> 'r \<Rightarrow> (string + entry list) \<times> 'r"
  xack :: "string \<Rightarrow> string \<Rightarrow> string \<Rightarrow> 'r \<Rightarrow> (string + unit) \<times> 'r"
  xpending :: "nat \<Rightarrow> string \<Rightarrow> string \<Rightarrow> nat \<Rightarrow> nat \<Rightarrow> 'r \<Rightarrow> (string + (string \<times> string) list) \<times> 'r"
  xclaim :: "nat \<Rightarrow> string \<Rightarrow> string \<Rightarrow> string \<Rightarrow> nat \<Rightarrow> string \<Rightarrow> 'r \<Rightarrow> (string + entry list) \<times> 'r"
  xautoclaim :: "nat \<Rightarrow> string \<Rightarrow> string \<Rightarrow> string \<Rightarrow> nat \<Rightarrow> 'r \<Rightarrow> (string + entry list) \<times> 'r"
  publish :: "string \<Rightarrow> string \<Rightarrow> 'r \<Rightarrow> (string + unit) \<times> 'r"
  xgroup_create :: "string \<Rightarrow> string \<Rightarrow> 'r \<Rightarrow> (string + unit) \<times> 'r"
  xinfo_groups :: "string \<Rightarrow> 'r \<Rightarrow> (string + reply_value list list) \<times> 'r"

section \<open>Their documented effect on the view\<close>

definition set_field :: "string \<Rightarrow> string \<Rightarrow> string \<Rightarrow> redis_view \<Rightarrow> redis_view" where
  "set_field k f v V = V\<lparr>hashes := (hashes V)(k := (hashes V k)(f \<mapsto> v))\<rparr>"

definition del_field :: "string \<Rightarrow> string \<Rightarrow> redis_view \<Rightarrow> redis_view" where
  "del_field k f V = V\<lparr>hashes := (hashes V)(k := (hashes V k)(f := None))\<rparr>"

definition upd_stream :: "string \<Rightarrow> (stream \<Rightarrow> stream) \<Rightarrow> redis_view \<Rightarrow> redis_view" where
  "upd_stream k g V = V\<lparr>streams := (streams V)(k := g (streams V k))\<rparr>"

definition append_entry :: "string \<Rightarrow> string list \<Rightarrow> stream \<Rightarrow> stream" where
  "append_entry i fs S = S\<lparr>entries := entries S @ [(i, fs)]\<rparr>"

definition own :: "string \<Rightarrow> string \<Rightarrow> nat \<Rightarrow> string \<Rightarrow> stream \<Rightarrow> stream" where
  "own g c now i S = S\<lparr>pel := (pel S)(g := (pel S g)(i \<mapsto> (c, now)))\<rparr>"

definition deliver :: "string \<Rightarrow> string \<Rightarrow> nat \<Rightarrow> string \<Rightarrow> stream \<Rightarrow> stream" where
  "deliver g c now i S = (own g c now i S)\<lparr>delivered := (delivered S)(g := insert i (delivered S g))\<rparr>"

definition acknowledge :: "string \<Rightarrow> string \<Rightarrow> stream \<Rightarrow> stream" where
  "acknowledge g i S = S\<lparr>pel := (pel S)(g := (pel S g)(i := None))\<rparr>"

definition idle_for :: "nat \<Rightarrow> string \<Rightarrow> nat \<Rightarrow> string \<Rightarrow> stream \<Rightarrow> bool" where
  "idle_for now g ms i S \<longleftrightarrow> (\<exists>c t. pel S g i = Some (c, t) \<and> t + ms \<le> now)"

definition say :: "string \<Rightarrow> string \<Rightarrow> redis_view \<Rightarrow> redis_view" where
  "say ch m V = V\<lparr>published := published V @ [(ch, m)]\<rparr>"

definition start_group :: "string \<Rightarrow> stream \<Rightarrow> stream" where
  "start_group g S = S\<lparr>delivered := (delivered S)(g := fst ` set (entries S)), pel := (pel S)(g := Map.empty)\<rparr>"

definition add_group :: "string \<Rightarrow> string \<Rightarrow> redis_view \<Rightarrow> redis_view" where
  "add_group k g V = (upd_stream k (start_group g) V)\<lparr>groups := (groups V)(k := insert g (groups V k))\<rparr>"

definition undelivered :: "string \<Rightarrow> stream \<Rightarrow> entry list" where
  "undelivered g S = filter (\<lambda>x. fst x \<notin> delivered S g) (entries S)"

text \<open>One group in the reply of \<open>XINFO GROUPS\<close>.\<close>

definition group_info :: "string \<Rightarrow> int \<times> int \<times> string \<times> reply_value \<times> reply_value \<Rightarrow> reply_value list" where
  "group_info g x = (case x of (consumers, pending, lastId, entriesRead, lag) \<Rightarrow>
     [RStr ''name'', RStr g, RStr ''consumers'', RInt consumers, RStr ''pending'', RInt pending,
      RStr ''last-delivered-id'', RStr lastId, RStr ''entries-read'', entriesRead, RStr ''lag'', lag])"

section \<open>Laws: hashes\<close>

locale redis_hash =
  fixes R :: "'r redis"
  assumes hset_Inr: "hset R k f v s = (Inr u, s') \<Longrightarrow> view R s' = set_field k f v (view R s)"
    and hset_Inl: "hset R k f v s = (Inl e, s') \<Longrightarrow> view R s' \<in> {view R s, set_field k f v (view R s)}"
    and hdel_Inr: "hdel R k f s = (Inr u, s') \<Longrightarrow> view R s' = del_field k f (view R s)"
    and hdel_Inl: "hdel R k f s = (Inl e, s') \<Longrightarrow> view R s' \<in> {view R s, del_field k f (view R s)}"
    and hgetall_view: "hgetall R k s = (r, s') \<Longrightarrow> view R s' = view R s"
    and hgetall_Inr: "hgetall R k s = (Inr kvs, s') \<Longrightarrow>
      distinct (map fst kvs) \<and> map_of kvs = hashes (view R s) k"

section \<open>Laws: streams and consumer groups\<close>

text \<open>
  \<open>XADD\<close> appends under a fresh id; \<open>XREADGROUP .. COUNT 1 .. >\<close> delivers the first entry the group
  has not delivered, or nothing; \<open>XACK\<close> takes an entry off the pending list; \<open>XPENDING .. IDLE\<close>
  reports entries that have been idle long enough, with their owners; \<open>XCLAIM\<close> transfers an entry
  only if it has been idle for the given time, and restarts its clock; \<open>XAUTOCLAIM\<close> transfers some
  of the entries that have.
\<close>

locale redis_stream =
  fixes R :: "'r redis"
  assumes xadd_Inr: "xadd R k fs s = (Inr i, s') \<Longrightarrow>
      i \<notin> fst ` set (entries (streams (view R s) k)) \<and> view R s' = upd_stream k (append_entry i fs) (view R s)"
    and xadd_Inl: "xadd R k fs s = (Inl e, s') \<Longrightarrow> view R s' = view R s \<or>
      (\<exists>i. i \<notin> fst ` set (entries (streams (view R s) k)) \<and> view R s' = upd_stream k (append_entry i fs) (view R s))"
    and xreadgroup_Inr: "xreadgroup R now k g c s = (Inr ms, s') \<Longrightarrow>
      ms = [] \<and> view R s' = view R s \<or>
      (\<exists>i fs. ms = [(i, fs)] \<and> find (\<lambda>x. fst x \<notin> delivered (streams (view R s) k) g) (entries (streams (view R s) k)) = Some (i, fs)
         \<and> view R s' = upd_stream k (deliver g c now i) (view R s))"
    and xreadgroup_Inl: "xreadgroup R now k g c s = (Inl e, s') \<Longrightarrow> view R s' = view R s \<or>
      (\<exists>i fs. find (\<lambda>x. fst x \<notin> delivered (streams (view R s) k) g) (entries (streams (view R s) k)) = Some (i, fs)
         \<and> view R s' = upd_stream k (deliver g c now i) (view R s))"
    and xack_Inr: "xack R k g i s = (Inr u, s') \<Longrightarrow> view R s' = upd_stream k (acknowledge g i) (view R s)"
    and xack_Inl: "xack R k g i s = (Inl e, s') \<Longrightarrow>
      view R s' \<in> {view R s, upd_stream k (acknowledge g i) (view R s)}"
    and xpending_view: "xpending R now k g idle count s = (r, s') \<Longrightarrow> view R s' = view R s"
    and xpending_Inr: "xpending R now k g idle count s = (Inr es, s') \<Longrightarrow>
      length es \<le> count \<and> distinct (map fst es) \<and>
      (\<forall>(i, c) \<in> set es. \<exists>t. pel (streams (view R s) k) g i = Some (c, t) \<and> t + idle \<le> now)"
    and xclaim_Inr: "xclaim R now k g c idle i s = (Inr ms, s') \<Longrightarrow>
      (if idle_for now g idle i (streams (view R s) k)
       then view R s' = upd_stream k (own g c now i) (view R s) \<and>
            (case map_of (entries (streams (view R s) k)) i of None \<Rightarrow> ms = [] | Some fs \<Rightarrow> ms = [(i, fs)])
       else view R s' = view R s \<and> ms = [])"
    and xclaim_Inl: "xclaim R now k g c idle i s = (Inl e, s') \<Longrightarrow>
      view R s' \<in> {view R s, upd_stream k (own g c now i) (view R s)}"
    and xautoclaim_Inr: "xautoclaim R now k g c idle s = (Inr ms, s') \<Longrightarrow>
      distinct (map fst ms) \<and>
      (\<forall>(i, fs) \<in> set ms. idle_for now g idle i (streams (view R s) k) \<and> map_of (entries (streams (view R s) k)) i = Some fs)
      \<and> view R s' = upd_stream k (fold (\<lambda>x. own g c now (fst x)) ms) (view R s)"
    and publish_Inr: "publish R ch m s = (Inr u, s') \<Longrightarrow> view R s' = say ch m (view R s)"
    and publish_Inl: "publish R ch m s = (Inl e, s') \<Longrightarrow> view R s' \<in> {view R s, say ch m (view R s)}"

text \<open>
  \<open>XGROUP CREATE .. $ MKSTREAM\<close> creates a group whose first entry will be the next one added, and the
  stream if there is none; it is refused with \<open>BUSYGROUP\<close> if the group exists. \<open>XINFO GROUPS\<close> describes
  every group of a stream; the \<open>lag\<close> is the number of entries not yet delivered to the group, or
  null where the server cannot tell.
\<close>

locale redis_groups =
  fixes R :: "'r redis"
  assumes xgroup_create_Inr: "xgroup_create R k g s = (Inr u, s') \<Longrightarrow>
      g \<notin> groups (view R s) k \<and> view R s' = add_group k g (view R s)"
    and xgroup_create_busy: "xgroup_create R k g s = (Inl m, s') \<Longrightarrow> str_includes m ''BUSYGROUP'' \<Longrightarrow>
      g \<in> groups (view R s) k \<and> view R s' = view R s"
    and xgroup_create_Inl: "xgroup_create R k g s = (Inl m, s') \<Longrightarrow> view R s' = view R s \<or>
      g \<notin> groups (view R s) k \<and> view R s' = add_group k g (view R s)"
    and xinfo_groups_view: "xinfo_groups R k s = (r, s') \<Longrightarrow> view R s' = view R s"
    and xinfo_groups_Inr: "xinfo_groups R k s = (Inr gs, s') \<Longrightarrow>
      \<exists>infos. gs = map (\<lambda>(g, x). group_info g x) infos \<and> distinct (map fst infos) \<and>
        fst ` set infos = groups (view R s) k \<and>
        (\<forall>(g, consumers, pending, lastId, entriesRead, lag) \<in> set infos. entriesRead \<noteq> RStr ''lag'' \<and> lastId \<noteq> ''lag'' \<and>
           lag \<in> {RNil, RInt (int (length (undelivered g (streams (view R s) k))))})"

section \<open>Laws: the whole service\<close>

locale redis_service = redis_hash R + redis_stream R + redis_groups R for R :: "'r redis"

section \<open>An in-memory service\<close>

text \<open>
  The laws are satisfiable together: a service that keeps everything in memory and answers every
  command. Entry ids are increasing numbers.
\<close>

record mem =
  mem_hash :: "string \<Rightarrow> (string \<times> string) list"
  mem_streams :: "string \<Rightarrow> stream"
  mem_groups :: "string \<Rightarrow> string list"
  mem_published :: "(string \<times> string) list"

definition empty_stream :: stream where
  "empty_stream = \<lparr>entries = [], delivered = (\<lambda>_. {}), pel = (\<lambda>_. Map.empty)\<rparr>"

definition empty_mem :: mem where
  "empty_mem = \<lparr>mem_hash = (\<lambda>_. []), mem_streams = (\<lambda>_. empty_stream), mem_groups = (\<lambda>_. []), mem_published = []\<rparr>"

definition mem_view :: "mem \<Rightarrow> redis_view" where
  "mem_view s = \<lparr>hashes = (\<lambda>k. map_of (mem_hash s k)), streams = mem_streams s,
     groups = (\<lambda>k. set (mem_groups s k)), published = mem_published s\<rparr>"

definition mem_stream :: "string \<Rightarrow> (stream \<Rightarrow> stream) \<Rightarrow> mem \<Rightarrow> mem" where
  "mem_stream k g s = s\<lparr>mem_streams := (mem_streams s)(k := g (mem_streams s k))\<rparr>"

definition highest_id :: "entry list \<Rightarrow> nat" where
  "highest_id es = fold max (map (\<lambda>x. nat_of_digits (fst x)) es) 0"

definition fresh_id :: "entry list \<Rightarrow> string" where
  "fresh_id es = string_of_nat (Suc (highest_id es))"

definition is_idle :: "nat \<Rightarrow> string \<Rightarrow> nat \<Rightarrow> stream \<Rightarrow> string \<Rightarrow> bool" where
  "is_idle now g idle S i = (case pel S g i of Some (c, t) \<Rightarrow> t + idle \<le> now | None \<Rightarrow> False)"

definition idle_ids :: "nat \<Rightarrow> string \<Rightarrow> nat \<Rightarrow> stream \<Rightarrow> string list" where
  "idle_ids now g idle S = filter (is_idle now g idle S) (remdups (map fst (entries S)))"

definition mem_xadd where
  "mem_xadd k fs s =
     (let i = fresh_id (entries (mem_streams s k)) in (Inr i :: string + string, mem_stream k (append_entry i fs) s))"

definition mem_xreadgroup where
  "mem_xreadgroup now k g c s =
     (case find (\<lambda>x. fst x \<notin> delivered (mem_streams s k) g) (entries (mem_streams s k)) of
        None \<Rightarrow> (Inr [] :: string + entry list, s)
      | Some (i, fs) \<Rightarrow> (Inr [(i, fs)], mem_stream k (deliver g c now i) s))"

definition mem_xpending where
  "mem_xpending now k g idle count s =
     (Inr (map (\<lambda>i. (i, fst (the (pel (mem_streams s k) g i)))) (take count (idle_ids now g idle (mem_streams s k))))
        :: string + (string \<times> string) list, s)"

definition mem_xclaim where
  "mem_xclaim now k g c idle i s =
     (if is_idle now g idle (mem_streams s k) i
      then (Inr (case map_of (entries (mem_streams s k)) i of None \<Rightarrow> [] | Some fs \<Rightarrow> [(i, fs)]) :: string + entry list,
            mem_stream k (own g c now i) s)
      else (Inr [], s))"

definition mem_xautoclaim where
  "mem_xautoclaim now k g c idle s =
     (let ms = map (\<lambda>i. (i, the (map_of (entries (mem_streams s k)) i))) (idle_ids now g idle (mem_streams s k))
      in (Inr ms :: string + entry list, mem_stream k (fold (\<lambda>x. own g c now (fst x)) ms) s))"

definition mem_xgroup where
  "mem_xgroup k g s =
     (if g \<in> set (mem_groups s k) then (Inl ''BUSYGROUP Consumer Group name already exists'' :: string + unit, s)
      else (Inr (), mem_stream k (start_group g) (s\<lparr>mem_groups := (mem_groups s)(k := g # mem_groups s k)\<rparr>)))"

definition mem_xinfo where
  "mem_xinfo k s =
     (Inr (map (\<lambda>g. group_info g (0, 0, ''0'', RNil, RInt (int (length (undelivered g (mem_streams s k)))))) (remdups (mem_groups s k)))
        :: string + reply_value list list, s)"

definition mem_redis :: "mem redis" where
  "mem_redis =
     \<lparr>view = mem_view,
      hset = (\<lambda>k f v s. (Inr (), s\<lparr>mem_hash := (mem_hash s)(k := (f, v) # mem_hash s k)\<rparr>)),
      hdel = (\<lambda>k f s. (Inr (), s\<lparr>mem_hash := (mem_hash s)(k := AList.delete f (mem_hash s k))\<rparr>)),
      hgetall = (\<lambda>k s. (Inr (AList.clearjunk (mem_hash s k)), s)),
      xadd = mem_xadd,
      xreadgroup = mem_xreadgroup,
      xack = (\<lambda>k g i s. (Inr (), mem_stream k (acknowledge g i) s)),
      xpending = mem_xpending,
      xclaim = mem_xclaim,
      xautoclaim = mem_xautoclaim,
      publish = (\<lambda>ch m s. (Inr (), s\<lparr>mem_published := mem_published s @ [(ch, m)]\<rparr>)),
      xgroup_create = mem_xgroup,
      xinfo_groups = mem_xinfo\<rparr>"

lemma mem_view_stream: "mem_view (mem_stream k g s) = upd_stream k g (mem_view s)"
  by (simp add: mem_view_def mem_stream_def upd_stream_def)

lemma mem_view_publish: "mem_view (s\<lparr>mem_published := mem_published s @ [(ch, m)]\<rparr>) = say ch m (mem_view s)"
  by (simp add: mem_view_def say_def)

lemma fold_max_ge: "a \<le> fold max ns a" "n \<in> set ns \<Longrightarrow> n \<le> fold max ns (a :: nat)"
proof (induction ns arbitrary: a)
  case (Cons m ns)
  { case 1 show ?case using Cons(1) [of "max m a"] by simp }
  { case 2 then show ?case using Cons(1) [of "max m a"] Cons(2) by auto }
qed simp_all

lemma fresh_id_fresh: "fresh_id es \<notin> fst ` set es"
proof
  assume "fresh_id es \<in> fst ` set es"
  then obtain x where es: "x \<in> set es" and x: "fst x = string_of_nat (Suc (highest_id es))"
    by (auto simp: fresh_id_def)
  from es have "nat_of_digits (fst x) \<le> highest_id es"
    unfolding highest_id_def by (intro fold_max_ge(2)) simp
  with x show False by simp
qed

lemma is_idle_iff: "is_idle now g idle S i \<longleftrightarrow> idle_for now g idle i S"
  by (auto simp: is_idle_def idle_for_def split: option.splits)

lemma in_idle_ids: "i \<in> set (idle_ids now g idle S) \<longleftrightarrow> idle_for now g idle i S \<and> i \<in> fst ` set (entries S)"
  by (auto simp: idle_ids_def is_idle_iff)

lemma distinct_idle_ids: "distinct (idle_ids now g idle S)"
  by (simp add: idle_ids_def)

lemma mem_view_streams [simp]: "streams (mem_view s) = mem_streams s"
  by (simp add: mem_view_def)

lemma mem_hash_ok: "redis_hash mem_redis"
proof
  fix k kvs s s'
  assume "hgetall mem_redis k s = (Inr kvs, s')"
  then show "distinct (map fst kvs) \<and> map_of kvs = hashes (view mem_redis s) k"
    by (auto simp: mem_redis_def mem_view_def map_of_clearjunk distinct_clearjunk)
qed (auto simp: mem_redis_def mem_view_def set_field_def del_field_def fun_eq_iff delete_conv)

lemma mem_stream_ok: "redis_stream mem_redis"
proof
  fix now k g idle count s es s'
  assume "xpending mem_redis now k g idle count s = (Inr es, s')"
  then have es: "es = map (\<lambda>i. (i, fst (the (pel (mem_streams s k) g i)))) (take count (idle_ids now g idle (mem_streams s k)))"
    by (auto simp: mem_redis_def mem_xpending_def)
  have "\<exists>t. pel (mem_streams s k) g i = Some (fst (the (pel (mem_streams s k) g i)), t) \<and> t + idle \<le> now"
    if "i \<in> set (take count (idle_ids now g idle (mem_streams s k)))" for i
    using in_set_takeD [OF that] by (auto simp: in_idle_ids idle_for_def)
  then show "length es \<le> count \<and> distinct (map fst es) \<and>
      (\<forall>(i, c) \<in> set es. \<exists>t. pel (streams (view mem_redis s) k) g i = Some (c, t) \<and> t + idle \<le> now)"
    by (auto simp: es comp_def distinct_idle_ids mem_redis_def)
next
  fix now k g c idle s ms s'
  assume "xautoclaim mem_redis now k g c idle s = (Inr ms, s')"
  then have ms: "ms = map (\<lambda>i. (i, the (map_of (entries (mem_streams s k)) i))) (idle_ids now g idle (mem_streams s k))"
    and s': "s' = mem_stream k (fold (\<lambda>x. own g c now (fst x)) ms) s"
    by (auto simp: mem_redis_def mem_xautoclaim_def Let_def)
  have "map_of (entries (mem_streams s k)) i = Some (the (map_of (entries (mem_streams s k)) i))"
    if "i \<in> set (idle_ids now g idle (mem_streams s k))" for i
    using that by (metis in_idle_ids map_of_eq_None_iff option.collapse)
  then show "distinct (map fst ms) \<and>
      (\<forall>(i, fs) \<in> set ms. idle_for now g idle i (streams (view mem_redis s) k) \<and>
         map_of (entries (streams (view mem_redis s) k)) i = Some fs)
      \<and> view mem_redis s' = upd_stream k (fold (\<lambda>x. own g c now (fst x)) ms) (view mem_redis s)"
    by (auto simp: ms s' comp_def distinct_idle_ids mem_redis_def in_idle_ids mem_view_stream)
qed (auto simp: mem_redis_def mem_xadd_def mem_xreadgroup_def mem_xclaim_def mem_xautoclaim_def mem_xpending_def
    Let_def mem_view_stream fresh_id_fresh is_idle_iff mem_view_publish
    split: option.splits if_splits)

lemma mem_groups_ok: "redis_groups mem_redis"
proof
  fix k gs s s'
  assume "xinfo_groups mem_redis k s = (Inr gs, s')"
  then have gs: "gs = map (\<lambda>g. group_info g (0, 0, ''0'', RNil, RInt (int (length (undelivered g (mem_streams s k)))))) (remdups (mem_groups s k))"
    by (auto simp: mem_redis_def mem_xinfo_def)
  show "\<exists>infos. gs = map (\<lambda>(g, x). group_info g x) infos \<and> distinct (map fst infos) \<and>
      fst ` set infos = groups (view mem_redis s) k \<and>
      (\<forall>(g, consumers, pending, lastId, entriesRead, lag) \<in> set infos. entriesRead \<noteq> RStr ''lag'' \<and> lastId \<noteq> ''lag'' \<and>
         lag \<in> {RNil, RInt (int (length (undelivered g (streams (view mem_redis s) k))))})"
    by (intro exI [of _ "map (\<lambda>g. (g, 0, 0, ''0'', RNil, RInt (int (length (undelivered g (mem_streams s k)))))) (remdups (mem_groups s k))"])
       (auto simp: gs comp_def image_image mem_redis_def mem_view_def)
qed (auto simp: mem_redis_def mem_xgroup_def mem_xinfo_def mem_view_def add_group_def upd_stream_def mem_stream_def
    split: if_splits)

interpretation memr: redis_service mem_redis
  by (intro redis_service.intro mem_hash_ok mem_stream_ok mem_groups_ok)

end
