(* ===== verification/Worker_Registry.thy ===== *)
theory Worker_Registry
  imports Redis_Service Json
begin

text \<open>
  The worker registry, \<open>src/worker-registry/worker-registry.service.ts\<close>: one Redis hash from worker
  id to the JSON text of its last heartbeat. Its clients -- the backpressure check of
  \<open>FunctionsService\<close>, the reclaim rule of \<open>WorkerService\<close>, \<open>GET /workers\<close> -- see the registry through
  the locale \<open>worker_registry\<close>.
\<close>

section \<open>Data\<close>

record worker_heartbeat =
  hb_workerId :: string
  hb_capacity :: int
  hb_inFlight :: int
  hb_lastHeartbeatAt :: int

text \<open>
  A status is what \<open>JSON.parse\<close> gave, plus \<open>healthy\<close>; a member that is missing, or not of its
  declared type, is \<^term>\<open>None\<close>, and a comparison with it is false.
\<close>

record worker_status =
  ws_workerId :: "string option"
  ws_capacity :: "int option"
  ws_inFlight :: "int option"
  ws_lastHeartbeatAt :: "int option"
  ws_healthy :: bool

datatype js_error = RedisError string | SyntaxError | TypeError

definition REGISTRY_KEY :: string where
  "REGISTRY_KEY = ''workers:registry''"

definition STALE_AFTER_MS :: int where
  "STALE_AFTER_MS = 10000"

definition heartbeat_json :: "worker_heartbeat \<Rightarrow> json" where
  "heartbeat_json info =
     JObj [(''workerId'', JStr (hb_workerId info)), (''capacity'', JNum (hb_capacity info)),
           (''inFlight'', JNum (hb_inFlight info)), (''lastHeartbeatAt'', JNum (hb_lastHeartbeatAt info))]"

section \<open>Operations\<close>

definition heartbeat :: "'r redis \<Rightarrow> worker_heartbeat \<Rightarrow> 'r \<Rightarrow> (string + unit) \<times> 'r" where
  "heartbeat R info s = hset R REGISTRY_KEY (hb_workerId info) (stringify (heartbeat_json info)) s"

definition deregister :: "'r redis \<Rightarrow> string \<Rightarrow> 'r \<Rightarrow> (string + unit) \<times> 'r" where
  "deregister R workerId s = hdel R REGISTRY_KEY workerId s"

definition num_member :: "string \<Rightarrow> js_object \<Rightarrow> int option" where
  "num_member k ms = (case member k ms of Some (JNum i) \<Rightarrow> Some i | _ \<Rightarrow> None)"

definition str_member :: "string \<Rightarrow> js_object \<Rightarrow> string option" where
  "str_member k ms = (case member k ms of Some (JStr x) \<Rightarrow> Some x | _ \<Rightarrow> None)"

definition to_status :: "int \<Rightarrow> string \<Rightarrow> js_error + worker_status" where
  "to_status now text =
     (case parse text of
        None \<Rightarrow> Inl SyntaxError
      | Some JNull \<Rightarrow> Inl TypeError
      | Some info \<Rightarrow>
        (let ms = (case info of JObj ms \<Rightarrow> ms | _ \<Rightarrow> [])
         in Inr \<lparr>ws_workerId = str_member ''workerId'' ms, ws_capacity = num_member ''capacity'' ms,
                 ws_inFlight = num_member ''inFlight'' ms,
                 ws_lastHeartbeatAt = num_member ''lastHeartbeatAt'' ms,
                 ws_healthy = (case num_member ''lastHeartbeatAt'' ms of
                                 None \<Rightarrow> False | Some t \<Rightarrow> now - t \<le> STALE_AFTER_MS)\<rparr>))"

fun map_throws :: "('a \<Rightarrow> 'e + 'b) \<Rightarrow> 'a list \<Rightarrow> 'e + 'b list" where
  "map_throws f [] = Inr []"
| "map_throws f (x # xs) =
     (case f x of
        Inl e \<Rightarrow> Inl e
      | Inr y \<Rightarrow> (case map_throws f xs of Inl e \<Rightarrow> Inl e | Inr ys \<Rightarrow> Inr (y # ys)))"

definition listWorkers :: "'r redis \<Rightarrow> int \<Rightarrow> 'r \<Rightarrow> (js_error + worker_status list) \<times> 'r" where
  "listWorkers R now s =
     (case hgetall R REGISTRY_KEY s of
        (Inl e, s') \<Rightarrow> (Inl (RedisError e), s')
      | (Inr raw, s') \<Rightarrow> (map_throws (to_status now) (map snd raw), s'))"

definition has_room :: "worker_status \<Rightarrow> bool" where
  "has_room w \<longleftrightarrow> ws_healthy w \<and>
     (case (ws_inFlight w, ws_capacity w) of (Some n, Some c) \<Rightarrow> n < c | _ \<Rightarrow> False)"

definition hasSpareCapacity :: "'r redis \<Rightarrow> int \<Rightarrow> 'r \<Rightarrow> (js_error + bool) \<times> 'r" where
  "hasSpareCapacity R now s =
     (case listWorkers R now s of
        (Inl e, s') \<Rightarrow> (Inl e, s')
      | (Inr workers, s') \<Rightarrow> (Inr (\<exists>w \<in> set workers. has_room w), s'))"

section \<open>The interface\<close>

text \<open>
  The registry as a finite map from worker id to its last heartbeat. \<open>reg\<close> abstracts the state of
  the service, \<open>invar\<close> says that the hash holds heartbeats only.
\<close>

definition status_of :: "int \<Rightarrow> worker_heartbeat \<Rightarrow> worker_status" where
  "status_of now hb =
     \<lparr>ws_workerId = Some (hb_workerId hb), ws_capacity = Some (hb_capacity hb),
      ws_inFlight = Some (hb_inFlight hb), ws_lastHeartbeatAt = Some (hb_lastHeartbeatAt hb),
      ws_healthy = (now - hb_lastHeartbeatAt hb \<le> STALE_AFTER_MS)\<rparr>"

locale worker_registry =
  fixes beat :: "worker_heartbeat \<Rightarrow> 's \<Rightarrow> (string + unit) \<times> 's"
    and drop_worker :: "string \<Rightarrow> 's \<Rightarrow> (string + unit) \<times> 's"
    and list_workers :: "int \<Rightarrow> 's \<Rightarrow> (js_error + worker_status list) \<times> 's"
    and reg :: "'s \<Rightarrow> string \<rightharpoonup> worker_heartbeat"
    and invar :: "'s \<Rightarrow> bool"
  assumes beat_reg: "invar s \<Longrightarrow> beat hb s = (Inr u, s') \<Longrightarrow> reg s' = (reg s)(hb_workerId hb \<mapsto> hb)"
    and beat_invar: "invar s \<Longrightarrow> beat hb s = (r, s') \<Longrightarrow> invar s'"
    and drop_reg: "invar s \<Longrightarrow> drop_worker w s = (Inr u, s') \<Longrightarrow> reg s' = (reg s)(w := None)"
    and drop_invar: "invar s \<Longrightarrow> drop_worker w s = (r, s') \<Longrightarrow> invar s'"
    and list_state: "invar s \<Longrightarrow> list_workers now s = (q, s') \<Longrightarrow> reg s' = reg s \<and> invar s'"
    and list_reg: "invar s \<Longrightarrow> list_workers now s = (Inr ws, s') \<Longrightarrow> set ws = status_of now ` ran (reg s)"
begin

lemma listed_after_beat:
  assumes "invar s" and "beat hb s = (Inr u, s1)" and "list_workers now s1 = (Inr ws, s2)"
  shows "status_of now hb \<in> set ws"
  using list_reg [OF beat_invar [OF assms(1,2)] assms(3)] beat_reg [OF assms(1,2)]
  by (auto simp: ran_def)

lemma not_listed_after_drop:
  assumes "invar s" and "drop_worker w s = (Inr u, s1)" and "list_workers now s1 = (Inr ws, s2)"
    and "\<And>v hb. reg s v = Some hb \<Longrightarrow> hb_workerId hb = v"
  shows "Some w \<notin> ws_workerId ` set ws"
  using list_reg [OF drop_invar [OF assms(1,2)] assms(3)] drop_reg [OF assms(1,2)] assms(4)
  by (auto simp: ran_def status_of_def split: if_splits)

text \<open>A worker counts as healthy exactly while its last heartbeat is at most ten seconds old.\<close>

lemma healthy_iff:
  assumes "invar s" and "list_workers now s = (Inr ws, s')"
  shows "(\<exists>x \<in> set ws. ws_workerId x = Some w \<and> ws_healthy x) \<longleftrightarrow>
    (\<exists>hb \<in> ran (reg s). hb_workerId hb = w \<and> now - hb_lastHeartbeatAt hb \<le> 10000)"
  using list_reg [OF assms] by (auto simp: status_of_def STALE_AFTER_MS_def)

lemma room_iff:
  assumes "invar s" and "list_workers now s = (Inr ws, s')"
  shows "(\<exists>x \<in> set ws. has_room x) \<longleftrightarrow>
    (\<exists>hb \<in> ran (reg s). now - hb_lastHeartbeatAt hb \<le> 10000 \<and> hb_inFlight hb < hb_capacity hb)"
  using list_reg [OF assms] by (auto simp: status_of_def has_room_def STALE_AFTER_MS_def)

end

section \<open>The Redis hash implements it\<close>

lemma to_status_heartbeat: "to_status now (stringify (heartbeat_json hb)) = Inr (status_of now hb)"
proof -
  have "parse (stringify (heartbeat_json hb)) = Some (heartbeat_json hb)"
    by (rule parse_stringify) (simp add: heartbeat_json_def)
  then show ?thesis
    by (simp add: to_status_def)
       (simp add: heartbeat_json_def str_member_def num_member_def member_def status_of_def)
qed

definition registry_ok :: "'r redis \<Rightarrow> 'r \<Rightarrow> bool" where
  "registry_ok R s \<longleftrightarrow>
     (\<forall>w t. hashes (view R s) REGISTRY_KEY w = Some t \<longrightarrow>
        (\<exists>hb. hb_workerId hb = w \<and> t = stringify (heartbeat_json hb)))"

definition read_heartbeat :: "string \<Rightarrow> worker_heartbeat option" where
  "read_heartbeat t =
     (case parse t of
        Some (JObj ms) \<Rightarrow>
          (case (str_member ''workerId'' ms, num_member ''capacity'' ms, num_member ''inFlight'' ms,
                 num_member ''lastHeartbeatAt'' ms) of
             (Some w, Some c, Some n, Some l) \<Rightarrow>
               Some \<lparr>hb_workerId = w, hb_capacity = c, hb_inFlight = n, hb_lastHeartbeatAt = l\<rparr>
           | _ \<Rightarrow> None)
      | _ \<Rightarrow> None)"

definition registry :: "'r redis \<Rightarrow> 'r \<Rightarrow> string \<rightharpoonup> worker_heartbeat" where
  "registry R s w = Option.bind (hashes (view R s) REGISTRY_KEY w) read_heartbeat"

lemma read_heartbeat_json [simp]: "read_heartbeat (stringify (heartbeat_json hb)) = Some hb"
proof -
  have "parse (stringify (heartbeat_json hb)) = Some (heartbeat_json hb)"
    by (rule parse_stringify) (simp add: heartbeat_json_def)
  then show ?thesis
    by (simp add: read_heartbeat_def)
       (simp add: heartbeat_json_def str_member_def num_member_def member_def)
qed

lemma map_throws_Inr:
  "(\<And>x. x \<in> set xs \<Longrightarrow> f (h x) = Inr (g x)) \<Longrightarrow> map_throws f (map h xs) = Inr (map g xs)"
  by (induction xs) auto

context redis_hash
begin

lemma heartbeat_reg:
  assumes "heartbeat R hb s = (Inr u, s')"
  shows "registry R s' = (registry R s)(hb_workerId hb \<mapsto> hb)"
  using hset_Inr [OF assms [unfolded heartbeat_def]]
  by (auto simp: registry_def set_field_def)

lemma heartbeat_ok:
  assumes "registry_ok R s" and "heartbeat R hb s = (r, s')"
  shows "registry_ok R s'"
proof -
  have "view R s' \<in> {view R s, set_field REGISTRY_KEY (hb_workerId hb) (stringify (heartbeat_json hb)) (view R s)}"
    using assms(2) hset_Inr hset_Inl unfolding heartbeat_def by (cases r) fastforce+
  then show ?thesis using assms(1) by (auto simp: registry_ok_def set_field_def split: if_splits)
qed

lemma deregister_reg:
  assumes "deregister R w s = (Inr u, s')"
  shows "registry R s' = (registry R s)(w := None)"
  using hdel_Inr [OF assms [unfolded deregister_def]]
  by (auto simp: registry_def del_field_def)

lemma deregister_ok:
  assumes "registry_ok R s" and "deregister R w s = (r, s')"
  shows "registry_ok R s'"
proof -
  have "view R s' \<in> {view R s, del_field REGISTRY_KEY w (view R s)}"
    using assms(2) hdel_Inr hdel_Inl unfolding deregister_def by (cases r) fastforce+
  then show ?thesis using assms(1) by (auto simp: registry_ok_def del_field_def split: if_splits)
qed

lemma listWorkers_view: "listWorkers R now s = (r, s') \<Longrightarrow> view R s' = view R s"
  by (auto simp: listWorkers_def hgetall_view split: prod.splits sum.splits)

lemma listWorkers_reg:
  assumes "registry_ok R s" and "hgetall R REGISTRY_KEY s = (Inr raw, s')"
  shows "listWorkers R now s = (Inr (map (\<lambda>x. status_of now (the (registry R s (fst x)))) raw), s')"
    and "fst ` set raw = dom (registry R s)"
proof -
  have raw: "distinct (map fst raw)" "map_of raw = hashes (view R s) REGISTRY_KEY"
    using hgetall_Inr [OF assms(2)] by auto
  have val: "\<exists>hb. snd x = stringify (heartbeat_json hb) \<and> registry R s (fst x) = Some hb" if "x \<in> set raw" for x
  proof -
    have "hashes (view R s) REGISTRY_KEY (fst x) = Some (snd x)"
      using raw that by (metis map_of_eq_Some_iff prod.collapse)
    with assms(1) obtain hb where "snd x = stringify (heartbeat_json hb)" by (auto simp: registry_ok_def)
    then show ?thesis using \<open>hashes (view R s) REGISTRY_KEY (fst x) = Some (snd x)\<close> by (simp add: registry_def)
  qed
  have "map_throws (to_status now) (map snd raw) = Inr (map (\<lambda>x. status_of now (the (registry R s (fst x)))) raw)"
    using val by (intro map_throws_Inr) (metis option.sel to_status_heartbeat)
  then show "listWorkers R now s = (Inr (map (\<lambda>x. status_of now (the (registry R s (fst x)))) raw), s')"
    by (simp add: listWorkers_def assms(2))
  show "fst ` set raw = dom (registry R s)"
  proof
    show "fst ` set raw \<subseteq> dom (registry R s)" using val by auto
    show "dom (registry R s) \<subseteq> fst ` set raw"
      using raw(2) by (auto simp: registry_def dom_map_of_conv_image_fst [symmetric] split: bind_splits)
  qed
qed

end

sublocale redis_hash \<subseteq> wr: worker_registry "heartbeat R" "deregister R" "listWorkers R" "registry R" "registry_ok R"
proof
  fix s now ws s'
  assume ok: "registry_ok R s" and list: "listWorkers R now s = (Inr ws, s')"
  obtain raw where raw: "hgetall R REGISTRY_KEY s = (Inr raw, s')"
    using list by (auto simp: listWorkers_def split: prod.splits sum.splits)
  have "ws = map (\<lambda>x. status_of now (the (registry R s (fst x)))) raw"
    using list listWorkers_reg(1) [OF ok raw] by simp
  then have "set ws = (\<lambda>w. status_of now (the (registry R s w))) ` fst ` set raw"
    by (simp add: image_image)
  also have "\<dots> = status_of now ` ran (registry R s)"
    unfolding listWorkers_reg(2) [OF ok raw] by (force simp: ran_def dom_def image_iff)
  finally show "set ws = status_of now ` ran (registry R s)" .
next
  fix s now r s'
  assume "registry_ok R s" and "listWorkers R now s = (r, s')"
  then show "registry R s' = registry R s \<and> registry_ok R s'"
    by (simp add: listWorkers_view registry_ok_def registry_def fun_eq_iff)
qed (auto intro: heartbeat_ok deregister_ok simp: heartbeat_reg deregister_reg)

lemma registry_ok_id:
  assumes "registry_ok R s" and "registry R s w = Some hb"
  shows "hb_workerId hb = w"
proof -
  obtain t where t: "hashes (view R s) REGISTRY_KEY w = Some t" "read_heartbeat t = Some hb"
    using assms(2) by (auto simp: registry_def split: bind_splits)
  then obtain hb' where "hb_workerId hb' = w" "t = stringify (heartbeat_json hb')"
    using assms(1) by (auto simp: registry_ok_def)
  with t(2) show ?thesis by simp
qed

context redis_hash
begin

lemma registered_workers:
  "registry_ok R s \<Longrightarrow> listWorkers R now s = (Inr ws, s') \<Longrightarrow> set ws = status_of now ` ran (registry R s)"
  by (rule wr.list_reg)

lemma listWorkers_answers:
  assumes "registry_ok R s" and "hgetall R REGISTRY_KEY s = (Inr raw, s')"
  obtains ws where "listWorkers R now s = (Inr ws, s')"
  using listWorkers_reg(1) [OF assms] by blast

lemma lease:
  assumes ok: "registry_ok R s" and hb: "heartbeat R hb s = (Inr u, s1)"
    and ls: "listWorkers R now s1 = (Inr ws, s2)"
  shows "(\<exists>x \<in> set ws. ws_workerId x = Some (hb_workerId hb) \<and> ws_healthy x) \<longleftrightarrow> now - hb_lastHeartbeatAt hb \<le> 10000"
proof -
  have ok1: "registry_ok R s1" using heartbeat_ok [OF ok hb] .
  have reg1: "registry R s1 (hb_workerId hb) = Some hb" using heartbeat_reg [OF hb] by simp
  have "x = hb" if x: "x \<in> ran (registry R s1)" "hb_workerId x = hb_workerId hb" for x
  proof -
    obtain w where w: "registry R s1 w = Some x" using x(1) by (auto simp: ran_def)
    then have "w = hb_workerId hb" using registry_ok_id [OF ok1] x(2) by simp
    with w reg1 show ?thesis by simp
  qed
  moreover have "hb \<in> ran (registry R s1)" using reg1 by (rule ranI)
  ultimately have "(\<exists>x \<in> ran (registry R s1). hb_workerId x = hb_workerId hb \<and> P x) \<longleftrightarrow> P hb" for P
    by blast
  with wr.healthy_iff [OF ok1 ls, of "hb_workerId hb"] show ?thesis by simp
qed

lemma spare_capacity:
  assumes "registry_ok R s" and "hgetall R REGISTRY_KEY s = (Inr raw, s')"
  shows "hasSpareCapacity R now s =
     (Inr (\<exists>w hb. registry R s w = Some hb \<and> now - hb_lastHeartbeatAt hb \<le> 10000 \<and> hb_inFlight hb < hb_capacity hb), s')"
proof -
  obtain ws where ws: "listWorkers R now s = (Inr ws, s')"
    using listWorkers_answers [OF assms] .
  show ?thesis using wr.room_iff [OF assms(1) ws]
    by (auto simp: hasSpareCapacity_def ws ran_def)
qed

lemma deregistered:
  assumes "registry_ok R s" and "deregister R w s = (Inr u, s1)" and "listWorkers R now s1 = (Inr ws, s2)"
  shows "Some w \<notin> ws_workerId ` set ws"
  using wr.not_listed_after_drop [OF assms] registry_ok_id [OF assms(1)] by blast

end

section \<open>Properties\<close>

text \<open>
  The heartbeat is a lease. After a worker's heartbeat is stored, listing the fleet answers
  whenever Redis does, and reports that worker as healthy exactly while the heartbeat is at most
  ten seconds old.
\<close>

theorem heartbeat_lease:
  assumes "redis_hash R" and "registry_ok R s" and "heartbeat R hb s = (Inr u, s1)"
    and "hgetall R REGISTRY_KEY s1 = (Inr raw, s2)"
  shows "\<exists>ws. listWorkers R now s1 = (Inr ws, s2) \<and>
     ((\<exists>x \<in> set ws. ws_workerId x = Some (hb_workerId hb) \<and> ws_healthy x) \<longleftrightarrow> now - hb_lastHeartbeatAt hb \<le> 10000)"
  using redis_hash.listWorkers_answers [OF assms(1) redis_hash.heartbeat_ok [OF assms(1-3)] assms(4)]
    redis_hash.lease [OF assms(1-3)] by metis

text \<open>
  Backpressure. The registry reports spare capacity exactly when some registered worker is
  within its lease and runs fewer jobs than its capacity; asking changes nothing.
\<close>

theorem hasSpareCapacity_iff:
  assumes "redis_hash R" and "registry_ok R s" and "hgetall R REGISTRY_KEY s = (Inr raw, s')"
  shows "hasSpareCapacity R now s =
     (Inr (\<exists>w hb. registry R s w = Some hb \<and> now - hb_lastHeartbeatAt hb \<le> 10000 \<and> hb_inFlight hb < hb_capacity hb), s')
     \<and> view R s' = view R s"
  using redis_hash.spare_capacity [OF assms] redis_hash.hgetall_view [OF assms(1,3)] by simp

text \<open>
  A worker that shuts down cleanly is no longer listed after its deregistration.
\<close>

theorem deregister_unlists:
  assumes "redis_hash R" and "registry_ok R s" and "deregister R w s = (Inr u, s1)"
    and "listWorkers R now s1 = (Inr ws, s2)"
  shows "Some w \<notin> ws_workerId ` set ws"
  using assms by (rule redis_hash.deregistered)

section \<open>Instances\<close>

definition demo_hb :: worker_heartbeat where
  "demo_hb = \<lparr>hb_workerId = ''w1'', hb_capacity = 1, hb_inFlight = 0, hb_lastHeartbeatAt = 500\<rparr>"

definition demo_mem :: mem where
  "demo_mem = snd (heartbeat mem_redis demo_hb empty_mem)"

lemma demo_mem_hash: "mem_hash demo_mem REGISTRY_KEY = [(''w1'', stringify (heartbeat_json demo_hb))]"
  by (simp add: demo_mem_def heartbeat_def mem_redis_def empty_mem_def demo_hb_def)

lemma demo_heartbeat: "heartbeat mem_redis demo_hb empty_mem = (Inr (), demo_mem)"
  by (simp add: demo_mem_def heartbeat_def mem_redis_def)

lemma demo_hgetall:
  "hgetall mem_redis REGISTRY_KEY demo_mem = (Inr [(''w1'', stringify (heartbeat_json demo_hb))], demo_mem)"
  by (simp add: mem_redis_def demo_mem_hash)

lemma demo_empty_ok: "registry_ok mem_redis empty_mem"
  by (simp add: registry_ok_def mem_redis_def mem_view_def empty_mem_def)

lemma demo_mem_ok: "registry_ok mem_redis demo_mem"
  using redis_hash.heartbeat_ok [OF mem_hash_ok demo_empty_ok demo_heartbeat] .

text \<open>Witness of \<open>heartbeat_lease\<close>.\<close>

theorem heartbeat_lease_witness:
  "(\<exists>ws. listWorkers mem_redis 10500 demo_mem = (Inr ws, demo_mem) \<and>
      (\<exists>x \<in> set ws. ws_workerId x = Some ''w1'' \<and> ws_healthy x)) \<and>
   (\<exists>ws. listWorkers mem_redis 10501 demo_mem = (Inr ws, demo_mem) \<and>
      \<not> (\<exists>x \<in> set ws. ws_workerId x = Some ''w1'' \<and> ws_healthy x))"
  using heartbeat_lease [OF mem_hash_ok demo_empty_ok demo_heartbeat demo_hgetall, of 10500]
    heartbeat_lease [OF mem_hash_ok demo_empty_ok demo_heartbeat demo_hgetall, of 10501]
  by (simp add: demo_hb_def)

text \<open>Witness of \<open>hasSpareCapacity_iff\<close>.\<close>

theorem hasSpareCapacity_iff_witness:
  "hasSpareCapacity mem_redis 600 demo_mem = (Inr True, demo_mem) \<and>
   hasSpareCapacity mem_redis 20000 demo_mem = (Inr False, demo_mem)"
proof -
  have reg: "registry mem_redis demo_mem w = (if w = ''w1'' then Some demo_hb else None)" for w
    by (simp add: registry_def mem_redis_def mem_view_def demo_mem_hash)
  show ?thesis
    using hasSpareCapacity_iff [OF mem_hash_ok demo_mem_ok demo_hgetall, of 600]
      hasSpareCapacity_iff [OF mem_hash_ok demo_mem_ok demo_hgetall, of 20000]
    by (simp add: reg demo_hb_def)
qed

text \<open>Witness of \<open>deregister_unlists\<close>.\<close>

theorem deregister_unlists_witness:
  "\<exists>s1 ws. deregister mem_redis ''w1'' demo_mem = (Inr (), s1) \<and>
     listWorkers mem_redis 600 s1 = (Inr ws, s1) \<and> Some ''w1'' \<notin> ws_workerId ` set ws"
proof -
  let ?s1 = "demo_mem\<lparr>mem_hash := (mem_hash demo_mem)(REGISTRY_KEY := [])\<rparr>"
  have d: "deregister mem_redis ''w1'' demo_mem = (Inr (), ?s1)"
    by (simp add: deregister_def mem_redis_def demo_mem_hash)
  have l: "listWorkers mem_redis 600 ?s1 = (Inr [], ?s1)"
    by (simp add: listWorkers_def mem_redis_def)
  from deregister_unlists [OF mem_hash_ok demo_mem_ok d l] d l show ?thesis by blast
qed

end
