(* ===== verification/Container_Executor.thy ===== *)
theory Container_Executor
  imports Json
begin

text \<open>
  Running one function in one container: \<open>src/containerExecutor.ts\<close>. Docker is a parameter: a
  function from the arguments of \<open>docker run\<close> and the scratch files to what the process did. The
  scratch files of the host are a map from path to content, so that what is left behind can be
  stated. An outcome is the object that is sent on, member by member, because at run time nothing
  forces it to have the declared type.
\<close>

section \<open>Outcomes and options\<close>

type_synonym outcome = js_object

definition outcome_success :: "json \<Rightarrow> int \<Rightarrow> outcome" where
  "outcome_success result d = [(''status'', JStr ''success''), (''result'', result), (''durationMs'', JNum d)]"

definition outcome_error :: "string \<Rightarrow> int \<Rightarrow> outcome" where
  "outcome_error e d = [(''status'', JStr ''error''), (''error'', JStr e), (''durationMs'', JNum d)]"

definition outcome_timeout :: "int \<Rightarrow> outcome" where
  "outcome_timeout d = [(''status'', JStr ''timeout''), (''durationMs'', JNum d)]"

text \<open>\<open>outcome.status === s\<close>\<close>

definition status_is :: "outcome \<Rightarrow> string \<Rightarrow> bool" where
  "status_is out s \<longleftrightarrow> member ''status'' out = Some (JStr s)"

record execute_options =
  opt_timeoutMs :: "int option"
  opt_memoryMb :: "int option"
  opt_cpus :: "string option"

definition RUNTIME_IMAGE :: string where
  "RUNTIME_IMAGE = ''mini-cloud-runtime:latest''"

definition or_else :: "'a option \<Rightarrow> 'a \<Rightarrow> 'a" where
  "or_else x d = (case x of Some y \<Rightarrow> y | None \<Rightarrow> d)"

section \<open>Files of the host\<close>

type_synonym files = "string \<rightharpoonup> string"

definition path_join :: "string \<Rightarrow> string \<Rightarrow> string" where
  "path_join d f = d @ ''/'' @ f"

text \<open>\<open>fs.rmSync(dir, { recursive: true, force: true })\<close>\<close>

definition rm_recursive :: "string \<Rightarrow> files \<Rightarrow> files" where
  "rm_recursive dir fs = (\<lambda>p. if p = dir \<or> startsWith (dir @ ''/'') p then None else fs p)"

section \<open>docker run\<close>

text \<open>
  What is known when the process closes: its exit code (\<^term>\<open>None\<close> when a signal ended it), what it
  wrote to stderr, the content of \<open>result.json\<close> in the output directory if there is one, and the
  time.
\<close>

record container_run =
  exitCode :: "int option"
  stderr_text :: string
  result_file :: "string option"
  closed_at :: int

type_synonym docker = "string list \<Rightarrow> int \<Rightarrow> files \<Rightarrow> container_run"

definition docker_args :: "string \<Rightarrow> int \<Rightarrow> string \<Rightarrow> string list \<Rightarrow> string \<Rightarrow> string \<Rightarrow> string list" where
  "docker_args containerName memoryMb cpus extraMounts outputDir img =
     [''run'', ''--rm'', ''--name'', containerName,
      ''--network'', ''none'',
      ''--read-only'',
      ''--tmpfs'', ''/tmp:size=16m'',
      ''--user'', ''1000:1000'',
      ''--cap-drop'', ''ALL'',
      ''--security-opt'', ''no-new-privileges'',
      ''--pids-limit'', ''64'',
      ''--memory'', string_of_int memoryMb @ ''m'',
      ''--memory-swap'', string_of_int memoryMb @ ''m'',
      ''--cpus'', cpus]
     @ extraMounts @ [''-v'', outputDir @ '':/output'', img]"

text \<open>\<open>{ ...value }\<close>: the own enumerable members of a value.\<close>

fun spread :: "json \<Rightarrow> js_object" where
  "spread (JObj ms) = ms"
| "spread (JArr vs) = zip (map string_of_nat [0..<length vs]) vs"
| "spread (JStr s) = zip (map string_of_nat [0..<length s]) (map (\<lambda>c. JStr [c]) s)"
| "spread _ = []"

text \<open>
  The listener of \<open>close\<close>. It runs outside the caller's \<open>await\<close>, so an exception thrown in it --
  \<open>JSON.parse\<close> of a malformed result -- is an uncaught exception of the process: \<open>Crashed\<close>.
\<close>

datatype settled = Resolved outcome | Crashed

definition on_close :: "int \<Rightarrow> container_run \<Rightarrow> settled" where
  "on_close start run =
     (let durationMs = closed_at run - start in
      case result_file run of
        Some text \<Rightarrow>
          (case parse text of
             None \<Rightarrow> Crashed
           | Some shimOutcome \<Rightarrow> Resolved (assign ''durationMs'' (JNum durationMs) (spread shimOutcome)))
      | None \<Rightarrow>
          if exitCode run = Some 137 then Resolved (outcome_timeout durationMs)
          else Resolved (outcome_error
            (''Container exited with code '' @ (case exitCode run of Some n \<Rightarrow> string_of_int n | None \<Rightarrow> ''null'') @
             '' before producing a result. stderr: '' @ take 500 (stderr_text run)) durationMs))"

text \<open>
  The steps of \<open>runIsolatedContainer\<close>: the scratch files written before the run, and the run itself.
  \<open>workDir\<close> is the directory \<open>mkdtempSync\<close> made, \<open>uuid\<close> the random part of the container's name.
\<close>

definition scratch_files :: "string \<Rightarrow> json option \<Rightarrow> files \<Rightarrow> files" where
  "scratch_files workDir event fs =
     fs(workDir \<mapsto> [], path_join workDir ''output'' \<mapsto> [],
        path_join workDir ''event.json'' \<mapsto>
          stringify (case event of None \<Rightarrow> JObj [] | Some JNull \<Rightarrow> JObj [] | Some v \<Rightarrow> v))"

definition container_args where
  "container_args workDir uuid img extraMounts options =
     docker_args (''mini-cloud-'' @ uuid) (or_else (opt_memoryMb options) 128) (or_else (opt_cpus options) ''0.5'')
       (extraMounts (path_join workDir ''event.json'')) (path_join workDir ''output'') img"

definition run_container ::
  "docker \<Rightarrow> string \<Rightarrow> string \<Rightarrow> string \<Rightarrow> (string \<Rightarrow> string list) \<Rightarrow> json option \<Rightarrow> execute_options \<Rightarrow>
   files \<Rightarrow> container_run" where
  "run_container docker workDir uuid img extraMounts event options fs =
     docker (container_args workDir uuid img extraMounts options) (or_else (opt_timeoutMs options) 3000)
       (scratch_files workDir event fs)"

text \<open>The directory is removed after the outcome is known; a crash skips the removal.\<close>

definition runIsolatedContainer ::
  "docker \<Rightarrow> string \<Rightarrow> string \<Rightarrow> int \<Rightarrow> string \<Rightarrow> (string \<Rightarrow> string list) \<Rightarrow> json option \<Rightarrow> execute_options \<Rightarrow>
   files \<Rightarrow> settled \<times> files" where
  "runIsolatedContainer docker workDir uuid start img extraMounts event options fs =
     (let run = run_container docker workDir uuid img extraMounts event options fs;
          fs1 = scratch_files workDir event fs;
          fs2 = (case result_file run of
                   None \<Rightarrow> fs1
                 | Some t \<Rightarrow> fs1(path_join (path_join workDir ''output'') ''result.json'' \<mapsto> t))
      in case on_close start run of
           Crashed \<Rightarrow> (Crashed, fs2)
         | Resolved out \<Rightarrow> (Resolved out, rm_recursive workDir fs2))"

definition executeInContainer where
  "executeInContainer docker workDir uuid start absFunctionPath event options fs =
     runIsolatedContainer docker workDir uuid start RUNTIME_IMAGE
       (\<lambda>eventPath. [''-v'', absFunctionPath @ '':/var/task/handler.js:ro'',
                     ''-v'', eventPath @ '':/var/task/event.json:ro'']) event options fs"

definition event_mount :: "string \<Rightarrow> string list" where
  "event_mount eventPath = [''-v'', eventPath @ '':/var/task/event.json:ro'']"

definition executeVersionedFunction where
  "executeVersionedFunction docker workDir uuid start imageTag event options fs =
     runIsolatedContainer docker workDir uuid start imageTag event_mount event options fs"

lemma runIsolatedContainer_fst:
  "fst (runIsolatedContainer docker workDir uuid start img mounts event options fs) =
     on_close start (run_container docker workDir uuid img mounts event options fs)"
  by (simp add: runIsolatedContainer_def Let_def split: settled.split)

section \<open>Well-formed outcomes\<close>

lemma spread_ok: "json_ok v \<Longrightarrow> json_ok (JObj (spread v))"
proof (cases v)
  case (JArr vs)
  assume "json_ok v"
  with JArr show ?thesis
    by (auto simp: distinct_map inj_on_def dest: set_zip_rightD)
next
  case (JStr s)
  show ?thesis unfolding JStr
    by (auto simp: distinct_map inj_on_def dest!: set_zip_rightD)
qed auto

lemma assign_json_ok: "json_ok (JObj ms) \<Longrightarrow> json_ok v \<Longrightarrow> json_ok (JObj (assign k v ms))"
  by (metis assign_ok distinct_assign json_ok.simps(3))

lemma on_close_ok: "on_close start run = Resolved out \<Longrightarrow> json_ok (JObj out)"
  by (auto simp: on_close_def Let_def outcome_timeout_def outcome_error_def
      simp del: json_ok.simps(3) intro!: assign_json_ok spread_ok
      split: option.splits if_splits dest: parse_ok)
     (auto)

lemma on_close_duration:
  "on_close start run = Resolved out \<Longrightarrow> member ''durationMs'' out = Some (JNum (closed_at run - start))"
  by (auto simp: on_close_def Let_def outcome_timeout_def outcome_error_def
      split: option.splits if_splits)
     (auto simp: member_def)

lemma on_close_Crashed:
  "on_close start run = Crashed \<longleftrightarrow> (\<exists>text. result_file run = Some text \<and> parse text = None)"
  by (auto simp: on_close_def Let_def split: option.splits)

section \<open>Isolation\<close>

definition endsWith :: "string \<Rightarrow> string \<Rightarrow> bool" where
  "endsWith p s \<longleftrightarrow> (\<exists>t. s = t @ p)"

text \<open>The values of the \<open>-v\<close> options, in order.\<close>

fun volumes :: "string list \<Rightarrow> string list" where
  "volumes (a # b # as) = (if a = ''-v'' then b # volumes as else volumes (b # as))"
| "volumes _ = []"

text \<open>
  What the platform promises of every container: no network, read-only root, an unprivileged user
  without capabilities, bounded processes, memory without swap, and one writable mount, the output
  directory; the image is the last argument.
\<close>

definition isolated_args :: "string \<Rightarrow> int \<Rightarrow> string \<Rightarrow> string list \<Rightarrow> bool" where
  "isolated_args workDir mem img args \<longleftrightarrow>
     field_after ''--network'' args = Some ''none'' \<and> ''--read-only'' \<in> set args \<and>
     field_after ''--user'' args = Some ''1000:1000'' \<and> field_after ''--cap-drop'' args = Some ''ALL'' \<and>
     field_after ''--security-opt'' args = Some ''no-new-privileges'' \<and>
     field_after ''--pids-limit'' args = Some ''64'' \<and>
     field_after ''--memory'' args = Some (string_of_int mem @ ''m'') \<and>
     field_after ''--memory-swap'' args = Some (string_of_int mem @ ''m'') \<and>
     filter (\<lambda>v. \<not> endsWith '':ro'' v) (volumes args) = [path_join workDir ''output'' @ '':/output''] \<and>
     last args = img"

lemma endsWith_append [simp]: "endsWith p (s @ p)"
  by (auto simp: endsWith_def)

lemma endsWith_rev: "endsWith p s \<longleftrightarrow> startsWith (rev p) (rev s)"
  by (auto simp: endsWith_def startsWith_iff) (metis rev_append rev_rev_ident)

lemma output_writable [simp]: "\<not> endsWith '':ro'' (d @ '':/output'')"
  by (simp add: endsWith_rev startsWith_def)

lemma string_of_int_start:
  obtains c t where "string_of_int i = c # t" and "c = CHR ''-'' \<or> is_digit c"
proof -
  obtain c t where "string_of_nat (nat i) = c # t" "is_digit c"
    using string_of_nat_digits [of "nat i"] string_of_nat_nonempty [of "nat i"]
    by (cases "string_of_nat (nat i)") auto
  then show ?thesis using that by (cases "i < 0") (auto simp: string_of_int_def)
qed

lemma string_of_int_m_neq: "string_of_int i @ ''m'' \<noteq> ''--memory-swap''" "string_of_int i @ ''m'' \<noteq> ''-v''"
  by (auto dest: arg_cong [where f = last])

lemma volumes_skip: "a \<noteq> ''-v'' \<Longrightarrow> volumes (a # as) = volumes as"
  by (cases as) simp_all

lemma isolated_docker_args:
  assumes "\<And>v. v \<in> set ms \<Longrightarrow> endsWith '':ro'' v" and "cpus \<noteq> ''-v''"
  shows "isolated_args workDir mem img
     (docker_args (''mini-cloud-'' @ uuid) mem cpus (concat (map (\<lambda>v. [''-v'', v]) ms)) (path_join workDir ''output'') img)"
proof -
  have mounts: "volumes (concat (map (\<lambda>v. [''-v'', v]) ms) @ as) = ms @ volumes as" for as
    by (induction ms) simp_all
  have "filter (\<lambda>v. \<not> endsWith '':ro'' v) ms = []" using assms(1) by simp
  then show ?thesis using assms(2) string_of_int_m_neq
    by (auto simp: isolated_args_def docker_args_def mounts volumes_skip field_after_def js_nth_def)
qed

text \<open>
  C34. Docker is only ever started with isolated arguments. Whatever the image, the event and the
  requested limits, two Docker daemons that agree on every isolated command line cannot be told
  apart by \<open>executeVersionedFunction\<close>.
\<close>

theorem executeVersionedFunction_isolated:
  assumes "\<And>args t fs. isolated_args workDir (or_else (opt_memoryMb options) 128) imageTag args \<Longrightarrow>
      docker1 args t fs = docker2 args t fs"
    and "opt_cpus options \<noteq> Some ''-v''"
  shows "executeVersionedFunction docker1 workDir uuid start imageTag event options fs =
     executeVersionedFunction docker2 workDir uuid start imageTag event options fs"
proof -
  have "or_else (opt_cpus options) ''0.5'' \<noteq> ''-v''"
    using assms(2) by (auto simp: or_else_def split: option.splits)
  from isolated_docker_args [of "[path_join workDir ''event.json'' @ '':/var/task/event.json:ro'']", OF _ this,
      of workDir "or_else (opt_memoryMb options) 128" imageTag uuid]
  have "isolated_args workDir (or_else (opt_memoryMb options) 128) imageTag
      (container_args workDir uuid imageTag event_mount options)"
    by (simp add: endsWith_rev startsWith_def container_args_def event_mount_def)
  from assms(1) [OF this] show ?thesis
    by (simp add: executeVersionedFunction_def runIsolatedContainer_def run_container_def)
qed

text \<open>
  Nothing is left behind: when an outcome is delivered, the scratch files are exactly those
  that were there before, provided the fresh directory was not in use.
\<close>

theorem executeVersionedFunction_cleans_up:
  assumes "executeVersionedFunction docker workDir uuid start imageTag event options fs = (Resolved out, fs')"
    and "\<And>p. p = workDir \<or> startsWith (workDir @ ''/'') p \<Longrightarrow> fs p = None"
  shows "fs' = fs"
proof
  fix p
  have "startsWith (workDir @ ''/'') (path_join workDir q)" for q
    by (metis append.assoc path_join_def startsWith_append)
  moreover have "startsWith (workDir @ ''/'') (path_join (path_join workDir q) r)" for q r
    by (metis append.assoc path_join_def startsWith_append)
  ultimately show "fs' p = fs p" using assms
    by (auto simp: executeVersionedFunction_def runIsolatedContainer_def Let_def rm_recursive_def
        scratch_files_def split: settled.splits option.splits if_splits)
qed

text \<open>
  The outcome reports the host's measurement: its \<open>durationMs\<close> is the time between start and
  the end of the container whatever the function wrote into its result file, and the object can be
  sent as JSON text without loss.
\<close>

theorem executeVersionedFunction_duration:
  assumes "executeVersionedFunction docker workDir uuid start imageTag event options fs = (Resolved out, fs')"
  shows "member ''durationMs'' out =
       Some (JNum (closed_at (run_container docker workDir uuid imageTag event_mount event options fs) - start))
     \<and> parse (stringify (JObj out)) = Some (JObj out)"
proof -
  have "on_close start (run_container docker workDir uuid imageTag event_mount event options fs) = Resolved out"
    using assms runIsolatedContainer_fst by (metis executeVersionedFunction_def fst_conv)
  then show ?thesis by (metis on_close_duration on_close_ok parse_stringify)
qed

text \<open>
  A result file that is not JSON ends the worker: the text is parsed in the listener of the
  \<open>close\<close> event, outside every \<open>try\<close>, so the exception is uncaught. The file is in the function's
  own writable mount. This is the only way to crash.
\<close>

theorem malformed_result_crashes:
  "fst (executeVersionedFunction docker workDir uuid start imageTag event options fs) = Crashed \<longleftrightarrow>
     (\<exists>text. result_file (run_container docker workDir uuid imageTag event_mount event options fs) = Some text
        \<and> parse text = None)"
  unfolding executeVersionedFunction_def runIsolatedContainer_fst on_close_Crashed ..

section \<open>Instances\<close>

definition demo_result :: js_object where
  "demo_result = [(''status'', JStr ''success''), (''result'', JNum 7), (''durationMs'', JNum 99999)]"

definition demo_run :: container_run where
  "demo_run = \<lparr>exitCode = Some 0, stderr_text = [], result_file = Some (stringify (JObj demo_result)), closed_at = 120\<rparr>"

definition demo_docker :: docker where
  "demo_docker args t fs = demo_run"

text \<open>A daemon that would behave differently, but only with the host's network.\<close>

definition demo_docker_net :: docker where
  "demo_docker_net args t fs =
     (if field_after ''--network'' args = Some ''host'' then demo_run\<lparr>exitCode := Some 1, result_file := None\<rparr> else demo_run)"

definition demo_options :: execute_options where
  "demo_options = \<lparr>opt_timeoutMs = Some 3000, opt_memoryMb = Some 128, opt_cpus = None\<rparr>"

lemma demo_parse: "parse (stringify (JObj demo_result)) = Some (JObj demo_result)"
  by (rule parse_stringify) (simp add: demo_result_def)

lemma demo_on_close: "on_close 100 demo_run = Resolved (outcome_success (JNum 7) 20)"
  unfolding on_close_def Let_def demo_run_def container_run.select_convs option.case demo_parse
  by (simp add: demo_result_def outcome_success_def)

lemma demo_execute:
  "\<exists>fs'. executeVersionedFunction demo_docker ''/t/w'' ''u'' 100 ''img'' None demo_options Map.empty =
     (Resolved (outcome_success (JNum 7) 20), fs')"
  unfolding executeVersionedFunction_def runIsolatedContainer_def Let_def run_container_def demo_docker_def demo_on_close
  by simp

text \<open>Witness of C34.\<close>

theorem executeVersionedFunction_isolated_witness:
  "executeVersionedFunction demo_docker ''/t/w'' ''u'' 100 ''img'' None demo_options Map.empty =
   executeVersionedFunction demo_docker_net ''/t/w'' ''u'' 100 ''img'' None demo_options Map.empty"
  by (rule executeVersionedFunction_isolated)
     (auto simp: demo_docker_def demo_docker_net_def isolated_args_def demo_options_def)

text \<open>Witness of \<open>executeVersionedFunction_cleans_up\<close>.\<close>

theorem executeVersionedFunction_cleans_up_witness:
  "executeVersionedFunction demo_docker ''/t/w'' ''u'' 100 ''img'' None demo_options Map.empty =
     (Resolved (outcome_success (JNum 7) 20), Map.empty)"
proof -
  obtain fs' where fs': "executeVersionedFunction demo_docker ''/t/w'' ''u'' 100 ''img'' None demo_options Map.empty =
     (Resolved (outcome_success (JNum 7) 20), fs')" using demo_execute by blast
  with executeVersionedFunction_cleans_up [OF fs'] show ?thesis by simp
qed

text \<open>Witness of \<open>executeVersionedFunction_duration\<close>: the function claimed 99999 ms, the host reports 20.\<close>

theorem executeVersionedFunction_duration_witness:
  "member ''durationMs'' (outcome_success (JNum 7) 20) = Some (JNum 20)"
proof -
  obtain fs' where fs': "executeVersionedFunction demo_docker ''/t/w'' ''u'' 100 ''img'' None demo_options Map.empty =
     (Resolved (outcome_success (JNum 7) 20), fs')" using demo_execute by blast
  with executeVersionedFunction_duration [OF fs'] show ?thesis
    by (simp add: run_container_def demo_docker_def demo_run_def)
qed

end
