(* ===== verification/Dispatch.thy ===== *)
theory Dispatch
  imports Json
begin

text \<open>
  Request and reply over the queue, API side: \<open>src/invocation/invocation-dispatch.service.ts\<close>. Many
  calls of \<open>dispatch\<close> are in progress at once; between two \<open>await\<close>s anything can happen: replies on
  the subscriber connection, timers, answers of Redis to other calls. The service is a machine
  that reacts to one event of the event loop at a time; \<open>step\<close> is \<^term>\<open>None\<close> where the event cannot
  occur.
\<close>

section \<open>Jobs (also src/worker/invocation-stream.constants.ts)\<close>

record job =
  job_imageTag :: string
  job_event :: "json option"
  job_timeoutMs :: int
  job_memoryMb :: int

definition INVOCATION_STREAM_KEY :: string where
  "INVOCATION_STREAM_KEY = ''invocations:pending''"

definition INVOCATION_CONSUMER_GROUP :: string where
  "INVOCATION_CONSUMER_GROUP = ''invocation-workers''"

definition invocationResultChannel :: "string \<Rightarrow> string" where
  "invocationResultChannel correlationId = ''invocation-result:'' @ correlationId"

definition DISPATCH_TIMEOUT_BUFFER_MS :: int where
  "DISPATCH_TIMEOUT_BUFFER_MS = 5000"

definition dispatch_timeout_ms :: "int option \<Rightarrow> job \<Rightarrow> int" where
  "dispatch_timeout_ms env j = (case env of Some n \<Rightarrow> n | None \<Rightarrow> job_timeoutMs j + DISPATCH_TIMEOUT_BUFFER_MS)"

definition event_or_empty :: "json option \<Rightarrow> json" where
  "event_or_empty e = (case e of None \<Rightarrow> JObj [] | Some JNull \<Rightarrow> JObj [] | Some v \<Rightarrow> v)"

text \<open>The fields of the \<open>XADD\<close>.\<close>

definition job_fields :: "string \<Rightarrow> job \<Rightarrow> string list" where
  "job_fields correlationId j =
     [''correlationId'', correlationId, ''imageTag'', job_imageTag j,
      ''event'', stringify (event_or_empty (job_event j)),
      ''timeoutMs'', string_of_int (job_timeoutMs j), ''memoryMb'', string_of_int (job_memoryMb j)]"

lemma invocationResultChannel_inj [simp]:
  "invocationResultChannel c = invocationResultChannel d \<longleftrightarrow> c = d"
  by (simp add: invocationResultChannel_def)

section \<open>State\<close>

text \<open>
  \<open>resultPromise\<close> of a call; where the call is suspended, and with which result or exception it is
  leaving the \<open>try\<close> block (\<^term>\<open>Inl m\<close> an exception with message \<open>m\<close>).
\<close>

datatype promise = Pending | Fulfilled json | Rejected string

datatype position =
    Subscribing job
  | Adding job
  | Awaiting
  | Unsubscribing "string + json"
  | Returned "string + json"

text \<open>
  \<open>waiters\<close> maps a channel to the call whose promise it settles. The logs record what Redis was
  given and what arrived; \<open>fired\<close> the timers that have gone off. An exception in the listener of
  \<open>message\<close> is uncaught and ends the process.
\<close>

record dispatcher =
  waiters :: "string \<rightharpoonup> string"
  promises :: "string \<rightharpoonup> promise"
  positions :: "string \<rightharpoonup> position"
  subscribed :: "string set"
  fired :: "string set"
  sent :: "(string \<times> string list) list"
  received :: "(string \<times> string) list"
  crashed :: bool

definition init_dispatcher :: dispatcher where
  "init_dispatcher =
     \<lparr>waiters = Map.empty, promises = Map.empty, positions = Map.empty, subscribed = {}, fired = {},
      sent = [], received = [], crashed = False\<rparr>"

datatype event =
    Call string job
  | SubscribeOk string
  | SubscribeFails string string
  | XaddOk string
  | XaddFails string string
  | Message string string
  | Timer string
  | Resume string
  | UnsubscribeOk string
  | UnsubscribeFails string string

section \<open>Reactions\<close>

definition NO_WORKER_MESSAGE :: string where
  "NO_WORKER_MESSAGE = ''No worker responded in time''"

text \<open>The synchronous part of \<open>dispatch\<close>, up to its first \<open>await\<close>.\<close>

definition dispatch_call :: "string \<Rightarrow> job \<Rightarrow> dispatcher \<Rightarrow> dispatcher" where
  "dispatch_call c j s =
     s\<lparr>waiters := (waiters s)(invocationResultChannel c \<mapsto> c),
       promises := (promises s)(c \<mapsto> Pending),
       positions := (positions s)(c \<mapsto> Subscribing j)\<rparr>"

text \<open>The listener of \<open>message\<close> installed by \<open>onModuleInit\<close>.\<close>

definition on_message :: "string \<Rightarrow> string \<Rightarrow> dispatcher \<Rightarrow> dispatcher" where
  "on_message channel msg s =
     (let s1 = s\<lparr>received := received s @ [(channel, msg)]\<rparr> in
      case waiters s channel of
        None \<Rightarrow> s1
      | Some c \<Rightarrow>
        (let s2 = s1\<lparr>waiters := (waiters s)(channel := None)\<rparr> in
         case parse msg of
           None \<Rightarrow> s2\<lparr>crashed := True\<rparr>
         | Some v \<Rightarrow> s2\<lparr>promises := (promises s)(c \<mapsto> Fulfilled v)\<rparr>))"

text \<open>The callback of the timer armed by call \<open>c\<close>.\<close>

definition on_timer :: "string \<Rightarrow> dispatcher \<Rightarrow> dispatcher" where
  "on_timer c s =
     (let s1 = s\<lparr>fired := insert c (fired s)\<rparr>; channel = invocationResultChannel c in
      if waiters s channel = None then s1
      else s1\<lparr>waiters := (waiters s)(channel := None),
              promises := (promises s)(c \<mapsto> Rejected NO_WORKER_MESSAGE)\<rparr>)"

definition at_position :: "string \<Rightarrow> position \<Rightarrow> dispatcher \<Rightarrow> dispatcher" where
  "at_position c p s = s\<lparr>positions := (positions s)(c \<mapsto> p)\<rparr>"

fun step :: "event \<Rightarrow> dispatcher \<Rightarrow> dispatcher option" where
  "step (Call c j) s =
     (if crashed s \<or> positions s c \<noteq> None then None else Some (dispatch_call c j s))"
| "step (SubscribeOk c) s =
     (if crashed s then None else
      case positions s c of
        Some (Subscribing j) \<Rightarrow>
          Some (at_position c (Adding j) (s\<lparr>subscribed := insert (invocationResultChannel c) (subscribed s)\<rparr>))
      | _ \<Rightarrow> None)"
| "step (SubscribeFails c m) s =
     (if crashed s then None else
      case positions s c of
        Some (Subscribing j) \<Rightarrow> Some (at_position c (Returned (Inl m)) s)
      | _ \<Rightarrow> None)"
| "step (XaddOk c) s =
     (if crashed s then None else
      case positions s c of
        Some (Adding j) \<Rightarrow> Some (at_position c Awaiting (s\<lparr>sent := sent s @ [(c, job_fields c j)]\<rparr>))
      | _ \<Rightarrow> None)"
| "step (XaddFails c m) s =
     (if crashed s then None else
      case positions s c of
        Some (Adding j) \<Rightarrow> Some (at_position c (Unsubscribing (Inl m)) s)
      | _ \<Rightarrow> None)"
| "step (Message channel msg) s =
     (if crashed s \<or> channel \<notin> subscribed s then None else Some (on_message channel msg s))"
| "step (Timer c) s =
     (if crashed s \<or> positions s c = None \<or> c \<in> fired s then None else Some (on_timer c s))"
| "step (Resume c) s =
     (if crashed s \<or> positions s c \<noteq> Some Awaiting then None else
      case promises s c of
        Some (Fulfilled v) \<Rightarrow> Some (at_position c (Unsubscribing (Inr v)) s)
      | Some (Rejected m) \<Rightarrow> Some (at_position c (Unsubscribing (Inl m)) s)
      | _ \<Rightarrow> None)"
| "step (UnsubscribeOk c) s =
     (if crashed s then None else
      case positions s c of
        Some (Unsubscribing r) \<Rightarrow>
          Some (at_position c (Returned r) (s\<lparr>subscribed := subscribed s - {invocationResultChannel c}\<rparr>))
      | _ \<Rightarrow> None)"
| "step (UnsubscribeFails c m) s =
     (if crashed s then None else
      case positions s c of
        Some (Unsubscribing r) \<Rightarrow> Some (at_position c (Returned (Inl m)) s)
      | _ \<Rightarrow> None)"

fun run :: "event list \<Rightarrow> dispatcher \<Rightarrow> dispatcher option" where
  "run [] s = Some s"
| "run (e # es) s = (case step e s of None \<Rightarrow> None | Some s' \<Rightarrow> run es s')"

inductive reachable :: "dispatcher \<Rightarrow> bool" where
  init: "reachable init_dispatcher"
| step: "reachable s \<Longrightarrow> step e s = Some t \<Longrightarrow> reachable t"

lemma run_append: "run (es @ fs) s = (case run es s of None \<Rightarrow> None | Some t \<Rightarrow> run fs t)"
  by (induction es arbitrary: s) (auto split: option.splits)

lemma reachable_run: "reachable s \<Longrightarrow> run es s = Some t \<Longrightarrow> reachable t"
  by (induction es arbitrary: s) (auto split: option.splits intro: reachable.step)

section \<open>Invariant\<close>

text \<open>
  A call has a waiter exactly while its promise is pending, and then its timer is still armed; a
  fulfilled promise carries a reply received on the call's own channel, a rejected one means the
  timer went off; a call whose job may be in the stream is subscribed.
\<close>

definition waiters_inv ::
  "(string \<rightharpoonup> string) \<Rightarrow> (string \<rightharpoonup> promise) \<Rightarrow> (string \<rightharpoonup> position) \<Rightarrow> string set \<Rightarrow> bool \<Rightarrow> bool" where
  "waiters_inv W P Q F dead \<longleftrightarrow>
     (\<forall>ch c. W ch = Some c \<longrightarrow> ch = invocationResultChannel c \<and> P c = Some Pending) \<and>
     (\<forall>c. P c = Some Pending \<longrightarrow> W (invocationResultChannel c) = Some c \<or> dead) \<and>
     (\<forall>c. P c = Some Pending \<longrightarrow> c \<notin> F) \<and>
     (\<forall>c. P c = None \<longleftrightarrow> Q c = None) \<and>
     (\<forall>c. c \<in> F \<longrightarrow> Q c \<noteq> None)"

definition waiters_ok :: "dispatcher \<Rightarrow> bool" where
  "waiters_ok s \<longleftrightarrow> waiters_inv (waiters s) (promises s) (positions s) (fired s) (crashed s)"

definition replies_ok :: "dispatcher \<Rightarrow> bool" where
  "replies_ok s \<longleftrightarrow>
     (\<forall>c v. promises s c = Some (Fulfilled v) \<longrightarrow>
        (\<exists>msg. (invocationResultChannel c, msg) \<in> set (received s) \<and> parse msg = Some v)) \<and>
     (\<forall>c m. promises s c = Some (Rejected m) \<longrightarrow> c \<in> fired s \<and> m = NO_WORKER_MESSAGE) \<and>
     (\<forall>c v. positions s c \<in> {Some (Unsubscribing (Inr v)), Some (Returned (Inr v))} \<longrightarrow>
        promises s c = Some (Fulfilled v))"

definition subscriptions_ok :: "dispatcher \<Rightarrow> bool" where
  "subscriptions_ok s \<longleftrightarrow>
     (\<forall>c. (\<exists>j. positions s c = Some (Adding j)) \<or> positions s c = Some Awaiting \<longrightarrow>
        invocationResultChannel c \<in> subscribed s)"

lemmas reactions = dispatch_call_def on_message_def on_timer_def at_position_def Let_def

lemma waiter_channel: "waiters_ok s \<Longrightarrow> waiters s ch = Some c \<Longrightarrow> ch = invocationResultChannel c"
  and waiter_pending: "waiters_ok s \<Longrightarrow> waiters s ch = Some c \<Longrightarrow> promises s c = Some Pending"
  and pending_waits: "waiters_ok s \<Longrightarrow> promises s c = Some Pending \<Longrightarrow> \<not> crashed s \<Longrightarrow>
    waiters s (invocationResultChannel c) = Some c"
  and pending_not_fired: "waiters_ok s \<Longrightarrow> promises s c = Some Pending \<Longrightarrow> c \<notin> fired s"
  and promise_iff_position: "waiters_ok s \<Longrightarrow> promises s c = None \<longleftrightarrow> positions s c = None"
  by (auto simp: waiters_ok_def waiters_inv_def)

text \<open>Settling a promise: the waiter goes and the promise is no longer pending.\<close>

lemma settle_waiters:
  assumes inv: "waiters_inv W P Q F dead" and ch: "W ch = Some c" and p: "p \<noteq> Pending"
  shows "waiters_inv (W(ch := None)) (P(c \<mapsto> p)) Q F dead"
    and "waiters_inv (W(ch := None)) (P(c \<mapsto> p)) Q (insert c F) dead"
proof -
  have W: "ch' = invocationResultChannel d" "P d = Some Pending" if "W ch' = Some d" for ch' d
    using inv that unfolding waiters_inv_def by blast+
  have P: "W (invocationResultChannel d) = Some d \<or> dead" "d \<notin> F" if "P d = Some Pending" for d
    using inv that unfolding waiters_inv_def by blast+
  have Q: "P d = None \<longleftrightarrow> Q d = None" "d \<in> F \<Longrightarrow> Q d \<noteq> None" for d
    using inv unfolding waiters_inv_def by blast+
  have c: "Q c \<noteq> None" using W(2) [OF ch] Q(1) [of c] by simp
  have "d \<noteq> c" if "W ch' = Some d" "ch' \<noteq> ch" for ch' d
    using that W(1) ch by metis
  then have 1: "ch' = invocationResultChannel d \<and> (P(c \<mapsto> p)) d = Some Pending"
    if "(W(ch := None)) ch' = Some d" for ch' d using that W by (simp split: if_splits)
  have 2: "(W(ch := None)) (invocationResultChannel d) = Some d \<or> dead" "d \<notin> insert c F"
    if "(P(c \<mapsto> p)) d = Some Pending" for d
    using that P p W(1) [OF ch] by (auto split: if_splits)
  from 1 2 Q c p show "waiters_inv (W(ch := None)) (P(c \<mapsto> p)) Q F dead"
    and "waiters_inv (W(ch := None)) (P(c \<mapsto> p)) Q (insert c F) dead"
    unfolding waiters_inv_def by simp_all
qed

lemma on_message_waiters_ok:
  assumes "waiters_ok s"
  shows "waiters_ok (on_message ch msg s)"
proof (cases "waiters s ch")
  case None
  with assms show ?thesis by (simp add: reactions waiters_ok_def)
next
  case (Some c)
  show ?thesis
  proof (cases "parse msg")
    case None
    with Some assms show ?thesis by (simp add: on_message_def waiters_ok_def waiters_inv_def)
  next
    case (Some v)
    then show ?thesis
      using settle_waiters(1) [where p = "Fulfilled v"] \<open>waiters s ch = Some c\<close> assms
      by (simp add: on_message_def waiters_ok_def)
  qed
qed

lemma on_timer_waiters_ok:
  assumes "waiters_ok s" and "positions s c \<noteq> None" and "\<not> crashed s"
  shows "waiters_ok (on_timer c s)"
proof (cases "waiters s (invocationResultChannel c)")
  case None
  then have "promises s c \<noteq> Some Pending" using assms pending_waits by fastforce
  with assms None show ?thesis by (auto simp: on_timer_def waiters_ok_def waiters_inv_def)
next
  case (Some d)
  then have "d = c" using assms waiter_channel by fastforce
  with Some assms show ?thesis
    using settle_waiters(2) [where p = "Rejected NO_WORKER_MESSAGE"]
    by (simp add: on_timer_def waiters_ok_def)
qed

lemma at_position_waiters_ok:
  "waiters_ok s \<Longrightarrow> positions s c \<noteq> None \<Longrightarrow> waiters_ok (at_position c p s)"
  by (auto simp: waiters_ok_def waiters_inv_def at_position_def)

lemma dispatch_call_waiters_ok:
  assumes "waiters_ok s" and "positions s c = None"
  shows "waiters_ok (dispatch_call c j s)"
proof -
  have "c \<notin> fired s" and "promises s c = None"
    using assms by (auto simp: waiters_ok_def waiters_inv_def)
  with assms show ?thesis
    unfolding waiters_ok_def waiters_inv_def dispatch_call_def
    by (intro conjI allI impI; simp split: if_splits; metis)
qed

lemma waiters_ok_frame:
  "waiters_ok (s\<lparr>subscribed := u, sent := l\<rparr>) = waiters_ok s"
  "waiters_ok (s\<lparr>subscribed := u\<rparr>) = waiters_ok s"
  "waiters_ok (s\<lparr>sent := l\<rparr>) = waiters_ok s"
  by (simp_all add: waiters_ok_def)

lemma step_waiters_ok:
  assumes "step e s = Some t" and "waiters_ok s"
  shows "waiters_ok t"
  using assms
  by (cases e)
     (auto intro!: on_message_waiters_ok on_timer_waiters_ok at_position_waiters_ok dispatch_call_waiters_ok
       simp: waiters_ok_frame split: if_splits option.splits position.splits promise.splits)

lemma step_subscriptions_ok: "step e s = Some t \<Longrightarrow> subscriptions_ok s \<Longrightarrow> subscriptions_ok t"
  by (cases e)
     (auto simp: reactions subscriptions_ok_def split: if_splits option.splits position.splits promise.splits)

lemma on_message_replies_ok:
  assumes "waiters_ok s" and "replies_ok s"
  shows "replies_ok (on_message ch msg s)"
proof (cases "waiters s ch")
  case None
  with assms(2) show ?thesis by (fastforce simp: on_message_def replies_ok_def)
next
  case (Some c)
  then have ch: "ch = invocationResultChannel c" and "promises s c = Some Pending"
    using assms waiter_channel waiter_pending by blast+
  then show ?thesis using Some assms(2)
    by (cases "parse msg") (fastforce simp: on_message_def replies_ok_def)+
qed

lemma on_timer_replies_ok:
  assumes "waiters_ok s" and "replies_ok s" and "\<not> crashed s"
  shows "replies_ok (on_timer c s)"
proof (cases "waiters s (invocationResultChannel c)")
  case None
  with assms(2) show ?thesis by (auto simp: on_timer_def replies_ok_def)
next
  case (Some d)
  then have "d = c" using assms waiter_channel by fastforce
  with Some have "promises s c = Some Pending" using assms waiter_pending by blast
  with Some assms(2) show ?thesis by (auto simp: on_timer_def replies_ok_def)
qed

definition leaves_with :: "position \<Rightarrow> json \<Rightarrow> bool" where
  "leaves_with p v \<longleftrightarrow> p = Unsubscribing (Inr v) \<or> p = Returned (Inr v)"

lemma at_position_replies_ok:
  "replies_ok s \<Longrightarrow> (\<And>v. leaves_with p v \<Longrightarrow> promises s c = Some (Fulfilled v)) \<Longrightarrow>
   replies_ok (at_position c p s)"
  unfolding replies_ok_def at_position_def leaves_with_def by auto

lemma replies_ok_frame:
  "replies_ok (s\<lparr>subscribed := u\<rparr>) = replies_ok s"
  "replies_ok (s\<lparr>sent := l\<rparr>) = replies_ok s"
  by (simp_all add: replies_ok_def)

lemma replies_ok_leaving: "replies_ok s \<Longrightarrow> positions s c = Some p \<Longrightarrow> leaves_with p v \<Longrightarrow>
    promises s c = Some (Fulfilled v)"
  by (auto simp: replies_ok_def leaves_with_def)

lemma step_replies_ok:
  assumes "step e s = Some t" and "waiters_ok s" and "replies_ok s"
  shows "replies_ok t"
proof (cases e)
  case (Call c j)
  then have "promises s c = None" using assms(1,2) promise_iff_position by (auto split: if_splits)
  then show ?thesis using Call assms(1,3) by (auto simp: dispatch_call_def replies_ok_def split: if_splits)
next
  case (Message ch msg)
  then show ?thesis using assms on_message_replies_ok by (auto split: if_splits)
next
  case (Timer c)
  then show ?thesis using assms on_timer_replies_ok by (auto split: if_splits)
qed (use assms(1,3) in \<open>auto simp: replies_ok_frame leaves_with_def intro!: at_position_replies_ok
      dest: replies_ok_leaving
      split: if_splits option.splits position.splits promise.splits\<close>)

lemma reachable_ok: "reachable s \<Longrightarrow> waiters_ok s \<and> replies_ok s \<and> subscriptions_ok s"
proof (induction rule: reachable.induct)
  case init
  show ?case by (simp add: init_dispatcher_def waiters_ok_def waiters_inv_def replies_ok_def subscriptions_ok_def)
next
  case (step s e t)
  then show ?case using step_waiters_ok step_replies_ok step_subscriptions_ok by blast
qed

text \<open>A settled promise stays as it is, whatever happens next.\<close>

lemma on_message_settled:
  assumes "waiters_ok s" and "promises s c = Some p" and "p \<noteq> Pending"
  shows "promises (on_message ch msg s) c = Some p"
proof (cases "waiters s ch")
  case (Some d)
  with assms have "d \<noteq> c" using waiter_pending by fastforce
  with Some assms show ?thesis by (auto simp: on_message_def Let_def split: option.split)
qed (use assms in \<open>simp add: on_message_def\<close>)

lemma on_timer_settled:
  assumes "waiters_ok s" and "promises s c = Some p" and "p \<noteq> Pending"
  shows "promises (on_timer d s) c = Some p"
proof (cases "waiters s (invocationResultChannel d)")
  case (Some e)
  then have "e = d" using assms waiter_channel by fastforce
  with Some assms have "d \<noteq> c" using waiter_pending by fastforce
  with Some assms show ?thesis by (auto simp: on_timer_def Let_def)
qed (use assms in \<open>simp add: on_timer_def Let_def\<close>)

lemma step_settled:
  assumes "step e s = Some t" and "waiters_ok s" and "promises s c = Some p" and "p \<noteq> Pending"
  shows "promises t c = Some p"
proof (cases e)
  case (Call d j)
  then have "promises s d = None" using assms(1,2) promise_iff_position by (auto split: if_splits)
  then show ?thesis using Call assms by (auto simp: dispatch_call_def split: if_splits)
next
  case (Message ch msg)
  then show ?thesis using assms on_message_settled by (auto split: if_splits)
next
  case (Timer d)
  then show ?thesis using assms on_timer_settled by (auto split: if_splits)
qed (use assms in \<open>auto simp: at_position_def
      split: if_splits option.splits position.splits promise.splits\<close>)

lemma step_returned:
  assumes "step e s = Some t" and "positions s c = Some (Returned r)"
  shows "positions t c = Some (Returned r)"
  using assms
  by (cases e) (auto simp: dispatch_call_def on_message_def on_timer_def at_position_def Let_def
      split: if_splits option.splits position.splits promise.splits)

lemma run_settled:
  "run es s = Some t \<Longrightarrow> reachable s \<Longrightarrow> promises s c = Some p \<Longrightarrow> p \<noteq> Pending \<Longrightarrow>
   promises t c = Some p"
proof (induction es arbitrary: s)
  case (Cons e es)
  then obtain u where u: "step e s = Some u" "run es u = Some t" by (auto split: option.splits)
  with Cons.prems have "promises u c = Some p" using step_settled reachable_ok by blast
  then show ?case using Cons u reachable.step by blast
qed simp

lemma run_returned:
  "run es s = Some t \<Longrightarrow> positions s c = Some (Returned r) \<Longrightarrow> positions t c = Some (Returned r)"
  by (induction es arbitrary: s) (auto split: option.splits dest: step_returned)

text \<open>The job of a call is sent at most once, and only by a call that waits or has waited for it.\<close>

definition sent_ok :: "dispatcher \<Rightarrow> bool" where
  "sent_ok s \<longleftrightarrow> distinct (map fst (sent s)) \<and>
     (\<forall>c \<in> fst ` set (sent s). \<exists>p. positions s c = Some p \<and> (\<forall>j. p \<noteq> Subscribing j \<and> p \<noteq> Adding j))"

lemma step_sent_ok: "step e s = Some t \<Longrightarrow> sent_ok s \<Longrightarrow> sent_ok t"
  by (cases e)
     (fastforce simp: sent_ok_def dispatch_call_def on_message_def on_timer_def at_position_def Let_def
        split: if_splits option.splits position.splits promise.splits)+

lemma reachable_sent_ok: "reachable s \<Longrightarrow> sent_ok s"
proof (induction rule: reachable.induct)
  case init
  show ?case by (simp add: init_dispatcher_def sent_ok_def)
qed (rule step_sent_ok)

section \<open>Properties\<close>

text \<open>
  C14. Only a reply to the call itself is returned: when \<open>dispatch\<close> returns the value \<open>v\<close> under
  correlation id \<open>c\<close>, a message that parses to \<open>v\<close> was received on the channel of \<open>c\<close>; and once a call
  has returned, no later message, timer or other call changes what it returned.
\<close>

theorem dispatch_returns_own_reply:
  assumes "reachable s" and "positions s c = Some (Returned (Inr v))" and "run es s = Some t"
  shows "(\<exists>msg. (invocationResultChannel c, msg) \<in> set (received s) \<and> parse msg = Some v)
    \<and> positions t c = Some (Returned (Inr v))"
  using reachable_ok [OF assms(1)] assms(2) run_returned [OF assms(3,2)]
  by (auto simp: replies_ok_def)

text \<open>
  The promise of a call settles at most once: a reply that comes after the timer went off, or a
  timer that goes off after the reply, changes nothing.
\<close>

theorem dispatch_settles_once:
  assumes "reachable s" and "promises s c = Some p" and "p \<noteq> Pending" and "run es s = Some t"
  shows "promises t c = Some p"
  using run_settled [OF assms(4,1-3)] .

text \<open>
  No waiter leaks: as long as the process lives, the map \<open>waiters\<close> has an entry for a channel
  exactly if it is the channel of a call whose promise is pending, and there is none for a call
  whose timer has gone off.
\<close>

theorem dispatch_waiters_exact:
  assumes "reachable s" and "\<not> crashed s"
  shows "(waiters s ch \<noteq> None \<longleftrightarrow> (\<exists>c. ch = invocationResultChannel c \<and> promises s c = Some Pending))
    \<and> (\<forall>c \<in> fired s. waiters s (invocationResultChannel c) = None)"
proof -
  have ok: "waiters_ok s" using reachable_ok [OF assms(1)] by simp
  have "waiters s (invocationResultChannel c) = None" if "c \<in> fired s" for c
  proof (rule ccontr)
    assume "waiters s (invocationResultChannel c) \<noteq> None"
    then obtain d where "waiters s (invocationResultChannel c) = Some d" by auto
    then have "promises s c = Some Pending" using waiter_channel waiter_pending ok by fastforce
    then show False using pending_not_fired [OF ok] that by blast
  qed
  moreover have "waiters s ch \<noteq> None \<longleftrightarrow> (\<exists>c. ch = invocationResultChannel c \<and> promises s c = Some Pending)"
    using waiter_channel [OF ok] waiter_pending [OF ok] pending_waits [OF ok _ assms(2)]
    by (metis not_None_eq)
  ultimately show ?thesis by blast
qed

text \<open>
  Subscribe before publish: when the job of a call enters the stream, the API is already
  subscribed to the channel of the reply, stays subscribed while it waits, and the job of a call
  enters the stream at most once.
\<close>

theorem dispatch_subscribes_first:
  assumes "reachable s" and "step (XaddOk c) s = Some t"
  shows "invocationResultChannel c \<in> subscribed s
    \<and> (\<exists>j. sent t = sent s @ [(c, job_fields c j)]) \<and> distinct (map fst (sent t))
    \<and> positions t c = Some Awaiting \<and> invocationResultChannel c \<in> subscribed t"
proof -
  obtain j where j: "positions s c = Some (Adding j)"
    and t: "t = at_position c Awaiting (s\<lparr>sent := sent s @ [(c, job_fields c j)]\<rparr>)"
    using assms(2) by (auto split: if_splits option.splits position.splits)
  have "invocationResultChannel c \<in> subscribed s"
    using reachable_ok [OF assms(1)] j by (auto simp: subscriptions_ok_def)
  moreover have "distinct (map fst (sent t))"
    using reachable_sent_ok [OF reachable.step [OF assms]] by (simp add: sent_ok_def)
  ultimately show ?thesis using t by (auto simp: at_position_def)
qed

text \<open>What is left to do for a call whose promise is settled.\<close>

definition finish :: "string \<Rightarrow> event list" where
  "finish c = [Resume c, UnsubscribeOk c]"

lemma finish_settled:
  assumes "\<not> crashed s" and "positions s c = Some Awaiting"
  shows "promises s c = Some (Fulfilled v) \<Longrightarrow>
      \<exists>t. run (finish c) s = Some t \<and> positions t c = Some (Returned (Inr v))"
    and "promises s c = Some (Rejected m) \<Longrightarrow>
      \<exists>t. run (finish c) s = Some t \<and> positions t c = Some (Returned (Inl m))"
  using assms by (simp_all add: finish_def at_position_def)

lemma timer_rejects:
  assumes "waiters_ok s" and "\<not> crashed s" and "promises s c = Some Pending"
  shows "promises (on_timer c s) c = Some (Rejected NO_WORKER_MESSAGE)"
    and "positions (on_timer c s) = positions s" and "\<not> crashed (on_timer c s)"
  using assms pending_waits by (auto simp: on_timer_def Let_def)

lemma message_fulfils:
  assumes "waiters_ok s" and "\<not> crashed s" and "promises s c = Some Pending" and "parse msg = Some v"
  shows "promises (on_message (invocationResultChannel c) msg s) c = Some (Fulfilled v)"
    and "positions (on_message (invocationResultChannel c) msg s) = positions s"
    and "\<not> crashed (on_message (invocationResultChannel c) msg s)"
  using assms pending_waits by (auto simp: on_message_def)

lemma reply_returns:
  assumes "reachable s" and "\<not> crashed s" and "positions s c = Some Awaiting" and "promises s c = Some Pending" and "json_ok v"
  shows "\<exists>t. run (Message (invocationResultChannel c) (stringify v) # finish c) s = Some t \<and> positions t c = Some (Returned (Inr v))"
proof -
  let ?s = "on_message (invocationResultChannel c) (stringify v) s"
  have ok: "waiters_ok s" "subscriptions_ok s" using reachable_ok [OF assms(1)] by auto
  then have "step (Message (invocationResultChannel c) (stringify v)) s = Some ?s"
    using assms(2,3) by (auto simp: subscriptions_ok_def simp del: stringify.simps)
  then show ?thesis
    using message_fulfils [OF ok(1) assms(2,4) parse_stringify [OF assms(5)]] finish_settled(1) [of ?s c v] assms(3) by auto
qed

text \<open>
  C15. A waiting call always comes to an end: from every state in which the process lives and the
  call waits, its own timer (if it has not gone off yet), the continuation and the answer to
  \<open>UNSUBSCRIBE\<close> make it return, with the reply if one has come and with the platform error
  otherwise. And a reply that arrives before the timer is what it returns.
\<close>

theorem dispatch_terminates:
  assumes "reachable s" and "\<not> crashed s" and "positions s c = Some Awaiting"
  shows "(case promises s c of
      Some (Fulfilled v) \<Rightarrow> \<exists>t. run (finish c) s = Some t \<and> positions t c = Some (Returned (Inr v))
    | Some (Rejected m) \<Rightarrow> \<exists>t. run (finish c) s = Some t \<and> positions t c = Some (Returned (Inl NO_WORKER_MESSAGE))
    | Some Pending \<Rightarrow>
        (\<exists>t. run (Timer c # finish c) s = Some t \<and> positions t c = Some (Returned (Inl NO_WORKER_MESSAGE))) \<and>
        (\<forall>v. json_ok v \<longrightarrow>
          (\<exists>t. run (Message (invocationResultChannel c) (stringify v) # finish c) s = Some t
             \<and> positions t c = Some (Returned (Inr v))))
    | None \<Rightarrow> False)"
proof -
  have ok: "waiters_ok s" and rep: "replies_ok s" and "subscriptions_ok s"
    using reachable_ok [OF assms(1)] by auto
  then have sub: "invocationResultChannel c \<in> subscribed s" using assms(3) by (auto simp: subscriptions_ok_def)
  have "promises s c \<noteq> None" using promise_iff_position [OF ok] assms(3) by simp
  then consider (p) "promises s c = Some Pending" | (f) v where "promises s c = Some (Fulfilled v)"
    | (r) m where "promises s c = Some (Rejected m)"
    by (metis option.exhaust promise.exhaust)
  then show ?thesis
  proof cases
    case p
    have "run (Timer c # finish c) s = run (finish c) (on_timer c s)"
      using assms pending_not_fired [OF ok p] by simp
    moreover have "run (Message (invocationResultChannel c) (stringify v) # finish c) s =
        run (finish c) (on_message (invocationResultChannel c) (stringify v) s)" for v
      using assms sub by simp
    ultimately show ?thesis
      using finish_settled timer_rejects [OF ok assms(2) p] message_fulfils [OF ok assms(2) p]
        parse_stringify assms(3) p by simp
  next
    case f
    then show ?thesis using finish_settled(1) [OF assms(2,3)] by simp
  next
    case r
    then have "m = NO_WORKER_MESSAGE" using rep by (auto simp: replies_ok_def)
    then show ?thesis using finish_settled(2) [OF assms(2,3)] r by simp
  qed
qed

section \<open>Shutdown\<close>

text \<open>
  \<open>onModuleDestroy\<close> closes the connection of the subscriber, which ends its subscriptions; a command on
  a closed connection fails, so none is added afterwards.
\<close>

definition dispatch_onModuleDestroy :: "dispatcher \<Rightarrow> dispatcher" where
  "dispatch_onModuleDestroy s = s\<lparr>subscribed := {}\<rparr>"

definition subscribes :: "event \<Rightarrow> bool" where
  "subscribes e \<longleftrightarrow> (case e of SubscribeOk c \<Rightarrow> True | _ \<Rightarrow> False)"

text \<open>
  After that no call gets a reply any more: whatever happens, a promise that is fulfilled was so before
  the shutdown. The calls that still wait end by their timers.
\<close>

lemma closed_step:
  assumes "step e s = Some t" and "\<not> subscribes e" and "subscribed s = {}"
  shows "subscribed t = {} \<and> (promises t c = Some (Fulfilled v) \<longrightarrow> promises s c = Some (Fulfilled v))"
  using assms
  by (cases e) (auto simp: reactions subscribes_def split: if_splits option.splits position.splits promise.splits)

lemma closed_fulfils_nothing:
  assumes "run es (dispatch_onModuleDestroy s) = Some t" and "\<not> list_ex subscribes es"
    and "promises t c = Some (Fulfilled v)"
  shows "promises s c = Some (Fulfilled v)"
proof -
  have "promises t c = Some (Fulfilled v) \<longrightarrow> promises u c = Some (Fulfilled v)"
    if "run es u = Some t" "\<not> list_ex subscribes es" "subscribed u = {}" for u
    using that
  proof (induction es arbitrary: u)
    case (Cons e es)
    from Cons.prems obtain w where w: "step e u = Some w" "run es w = Some t" by (auto split: option.splits)
    with Cons.prems closed_step [OF w(1)] Cons.IH [of w] show ?case by fastforce
  qed simp
  from this [OF assms(1,2)] assms(3) show ?thesis by (simp add: dispatch_onModuleDestroy_def)
qed

section \<open>Witnesses\<close>

definition demo_job :: job where
  "demo_job = \<lparr>job_imageTag = ''img:1'', job_event = None, job_timeoutMs = 3000, job_memoryMb = 128\<rparr>"

text \<open>A call that has sent its job, and the same call after a reply and its return.\<close>

definition demo_sending :: "event list" where
  "demo_sending = [Call ''c1'' demo_job, SubscribeOk ''c1'']"

definition demo_replied :: "event list" where
  "demo_replied = demo_sending @
     [XaddOk ''c1'', Message (invocationResultChannel ''c1'') (stringify (JNum 7)), Resume ''c1'', UnsubscribeOk ''c1'']"

lemma demo_parse_7: "parse (stringify (JNum 7)) = Some (JNum 7)"
  by (rule parse_stringify) simp

lemmas demo_run_defs = demo_sending_def demo_replied_def demo_parse_7 init_dispatcher_def dispatch_call_def
  at_position_def on_message_def on_timer_def

lemma demo_sending_run:
  "\<exists>s t. run demo_sending init_dispatcher = Some s \<and> step (XaddOk ''c1'') s = Some t"
  by (simp add: demo_run_defs del: stringify.simps)

lemma demo_awaiting_run:
  "\<exists>s. run (demo_sending @ [XaddOk ''c1'']) init_dispatcher = Some s
     \<and> positions s ''c1'' = Some Awaiting \<and> \<not> crashed s \<and> promises s ''c1'' = Some Pending"
  by (simp add: demo_run_defs del: stringify.simps)

lemma demo_replied_run:
  "\<exists>s. run demo_replied init_dispatcher = Some s
     \<and> positions s ''c1'' = Some (Returned (Inr (JNum 7))) \<and> promises s ''c1'' = Some (Fulfilled (JNum 7))
     \<and> run [Timer ''c1''] s = Some (s\<lparr>fired := {''c1''}\<rparr>) \<and> \<not> crashed s"
  by (simp add: demo_run_defs del: stringify.simps)

text \<open>Witness of C14: after the return, the timer goes off; the call keeps its result.\<close>

theorem dispatch_returns_own_reply_witness:
  "\<exists>s. run demo_replied init_dispatcher = Some s
     \<and> (\<exists>msg. (invocationResultChannel ''c1'', msg) \<in> set (received s) \<and> parse msg = Some (JNum 7))
     \<and> positions (s\<lparr>fired := {''c1''}\<rparr>) ''c1'' = Some (Returned (Inr (JNum 7)))"
proof -
  obtain s where s: "run demo_replied init_dispatcher = Some s"
      "positions s ''c1'' = Some (Returned (Inr (JNum 7)))" "run [Timer ''c1''] s = Some (s\<lparr>fired := {''c1''}\<rparr>)"
    using demo_replied_run by blast
  from dispatch_returns_own_reply [OF reachable_run [OF reachable.init s(1)] s(2,3)] s(1)
  show ?thesis by blast
qed

text \<open>Witness of \<open>dispatch_settles_once\<close>: the timer of a call that has its reply.\<close>

theorem dispatch_settles_once_witness:
  "\<exists>s t. run demo_replied init_dispatcher = Some s \<and> run [Timer ''c1''] s = Some t
     \<and> promises t ''c1'' = Some (Fulfilled (JNum 7))"
proof -
  obtain s where s: "run demo_replied init_dispatcher = Some s"
      "promises s ''c1'' = Some (Fulfilled (JNum 7))" "run [Timer ''c1''] s = Some (s\<lparr>fired := {''c1''}\<rparr>)"
    using demo_replied_run by blast
  have "promises (s\<lparr>fired := {''c1''}\<rparr>) ''c1'' = Some (Fulfilled (JNum 7))"
    by (rule dispatch_settles_once [OF reachable_run [OF reachable.init s(1)] s(2) _ s(3)]) simp
  with s show ?thesis by blast
qed

text \<open>Witness of \<open>dispatch_waiters_exact\<close>: a call that waits.\<close>

theorem dispatch_waiters_exact_witness:
  "\<exists>s. run (demo_sending @ [XaddOk ''c1'']) init_dispatcher = Some s
     \<and> waiters s (invocationResultChannel ''c1'') \<noteq> None"
proof -
  obtain s where s: "run (demo_sending @ [XaddOk ''c1'']) init_dispatcher = Some s"
      "\<not> crashed s" "promises s ''c1'' = Some Pending"
    using demo_awaiting_run by blast
  with dispatch_waiters_exact [OF reachable_run [OF reachable.init s(1)] s(2), of "invocationResultChannel ''c1''"]
  show ?thesis by auto
qed

text \<open>Witness of \<open>dispatch_subscribes_first\<close>: a call that has subscribed sends its job.\<close>

theorem dispatch_subscribes_first_witness:
  "\<exists>s t. run demo_sending init_dispatcher = Some s \<and> step (XaddOk ''c1'') s = Some t
     \<and> invocationResultChannel ''c1'' \<in> subscribed s"
proof -
  obtain s t where s: "run demo_sending init_dispatcher = Some s" "step (XaddOk ''c1'') s = Some t"
    using demo_sending_run by blast
  with dispatch_subscribes_first [OF reachable_run [OF reachable.init s(1)] s(2)] show ?thesis by blast
qed

text \<open>Witness of C15: a call that waits, and the reply 7.\<close>

theorem dispatch_terminates_witness:
  "\<exists>s t. run (demo_sending @ [XaddOk ''c1'']) init_dispatcher = Some s
     \<and> run (Message (invocationResultChannel ''c1'') (stringify (JNum 7)) # finish ''c1'') s = Some t
     \<and> positions t ''c1'' = Some (Returned (Inr (JNum 7)))"
proof -
  obtain s where s: "run (demo_sending @ [XaddOk ''c1'']) init_dispatcher = Some s"
      "positions s ''c1'' = Some Awaiting" "\<not> crashed s" "promises s ''c1'' = Some Pending"
    using demo_awaiting_run by blast
  from dispatch_terminates [OF reachable_run [OF reachable.init s(1)] s(3,2)] s(4)
  have "\<forall>v. json_ok v \<longrightarrow>
      (\<exists>t. run (Message (invocationResultChannel ''c1'') (stringify v) # finish ''c1'') s = Some t
         \<and> positions t ''c1'' = Some (Returned (Inr v)))" by (simp del: stringify.simps run.simps)
  moreover have "json_ok (JNum 7)" by simp
  ultimately show ?thesis using s(1) by blast
qed

end
