(* ===== verification/Functions.thy ===== *)
theory Functions
  imports Auth Worker_Registry Container_Executor Dispatch Complex_Main
begin

text \<open>
  Functions and their invocation: \<open>src/functions/\<close>. The service reads and writes the database
  and calls the worker registry and the dispatch service; the answers of these two are arguments
  of \<open>invoke\<close>, and so is what the other requests do to the database while it waits for them.
  Where the schema leaves the order of rows with equal timestamps open, the model keeps the
  order of insertion. SQL's floating-point numbers are exact rationals here.
\<close>

section \<open>Request body (dto/register-function.dto.ts)\<close>

record register_function_dto =
  rf_name :: string
  rf_memoryMb :: "int option"
  rf_timeoutMs :: "int option"

definition name_char :: "char \<Rightarrow> bool" where
  "name_char c \<longleftrightarrow>
     (let n = of_char c :: nat in
      97 \<le> n \<and> n \<le> 122 \<or> 65 \<le> n \<and> n \<le> 90 \<or> 48 \<le> n \<and> n \<le> 57 \<or> c = CHR ''_'' \<or> c = CHR ''-'')"

definition name_pattern :: "string \<Rightarrow> bool" where
  "name_pattern s \<longleftrightarrow> s \<noteq> [] \<and> list_all name_char s"

text \<open>
  \<open>@IsOptional() @IsInt() @Min(lo) @Max(hi)\<close>: \<open>undefined\<close> and \<open>null\<close> pass. \<open>fracInt\<close> gives the integer
  denoted by a number literal with a fraction or an exponent, if it denotes one.
\<close>

definition optional_int :: "(string \<Rightarrow> int option) \<Rightarrow> int \<Rightarrow> int \<Rightarrow> json option \<Rightarrow> int option option" where
  "optional_int fracInt lo hi v =
     (let check = (\<lambda>i. if lo \<le> i \<and> i \<le> hi then Some (Some i) else None) in
      case v of
        None \<Rightarrow> Some None
      | Some JNull \<Rightarrow> Some None
      | Some (JNum i) \<Rightarrow> check i
      | Some (JFrac t) \<Rightarrow> (case fracInt t of Some i \<Rightarrow> check i | None \<Rightarrow> None)
      | Some _ \<Rightarrow> None)"

definition RegisterFunctionDto :: "(string \<Rightarrow> int option) \<Rightarrow> json \<Rightarrow> http_exception + register_function_dto" where
  "RegisterFunctionDto fracInt body =
     (case body of
        JObj ms \<Rightarrow>
          (case (member ''name'' ms, optional_int fracInt 64 3008 (member ''memoryMb'' ms),
                 optional_int fracInt 100 60000 (member ''timeoutMs'' ms)) of
             (Some (JStr n), Some mem, Some tmo) \<Rightarrow>
               if name_pattern n then Inr \<lparr>rf_name = n, rf_memoryMb = mem, rf_timeoutMs = tmo\<rparr>
               else Inl ValidationFailed
           | _ \<Rightarrow> Inl ValidationFailed)
      | _ \<Rightarrow> Inl ValidationFailed)"

section \<open>FunctionsService: functions\<close>

definition register_function ::
  "faults \<Rightarrow> string \<Rightarrow> nat \<Rightarrow> string \<Rightarrow> register_function_dto \<Rightarrow> db \<Rightarrow> (http_exception + func) \<times> db" where
  "register_function F newId now userId dto db =
     (let f = \<lparr>fn_id = newId, fn_userId = userId, fn_name = rf_name dto,
               memoryMb = or_else (rf_memoryMb dto) 128, timeoutMs = or_else (rf_timeoutMs dto) 3000,
               fn_createdAt = now\<rparr>
      in case db_write F FunctionCreate (function_create f db) of
           Inr db' \<Rightarrow> (Inr f, db')
         | Inl P2002 \<Rightarrow> (Inl (Conflict (''Function '' @ quoted (rf_name dto) @ '' already exists'')), db)
         | Inl _ \<Rightarrow> (Inl InternalError, db))"

definition list_functions :: "faults \<Rightarrow> string \<Rightarrow> db \<Rightarrow> http_exception + func list" where
  "list_functions F userId db =
     (case db_read F FunctionFindMany
        (sort_key fn_createdAt (filter (\<lambda>f. fn_userId f = userId) (funcs db))) of
        Inl _ \<Rightarrow> Inl InternalError
      | Inr fs \<Rightarrow> Inr fs)"

definition function_not_found :: "string \<Rightarrow> http_exception" where
  "function_not_found name = NotFound (''Function '' @ quoted name @ '' not found'')"

definition get_function :: "faults \<Rightarrow> string \<Rightarrow> string \<Rightarrow> db \<Rightarrow> http_exception + func" where
  "get_function F userId name db =
     (case db_read F FunctionFindUnique (function_findUnique userId name db) of
        Inl _ \<Rightarrow> Inl InternalError
      | Inr None \<Rightarrow> Inl (function_not_found name)
      | Inr (Some f) \<Rightarrow> Inr f)"

definition remove_function :: "faults \<Rightarrow> string \<Rightarrow> string \<Rightarrow> db \<Rightarrow> (http_exception + unit) \<times> db" where
  "remove_function F userId name db =
     (case db_write F FunctionDelete (function_delete userId name db) of
        Inr db' \<Rightarrow> (Inr (), db')
      | Inl P2025 \<Rightarrow> (Inl (function_not_found name), db)
      | Inl _ \<Rightarrow> (Inl InternalError, db))"

section \<open>FunctionsService: invocation\<close>

text \<open>
  The generated values and clock readings of one call: the id of the row, the request id, the
  time of its creation, and \<open>Date.now()\<close> before and after.
\<close>

record invoke_ctx =
  ctx_invId :: string
  ctx_requestId :: string
  ctx_now :: nat
  ctx_start :: int
  ctx_end :: int

text \<open>
  \<open>recordInvocation\<close>. Prisma refuses a \<open>durationMs\<close> that is not a 32-bit integer and an
  \<open>errorMessage\<close> that is not a string (\<open>null\<close> and \<open>undefined\<close> leave the column empty); whatever
  goes wrong is swallowed.
\<close>

definition int32 :: "int \<Rightarrow> bool" where
  "int32 i \<longleftrightarrow> - (2 ^ 31) \<le> i \<and> i < 2 ^ 31"

definition error_column :: "json option \<Rightarrow> string option option" where
  "error_column err =
     (case err of
        None \<Rightarrow> Some None
      | Some JNull \<Rightarrow> Some None
      | Some (JStr m) \<Rightarrow> Some (Some m)
      | Some _ \<Rightarrow> None)"

definition invocation_data ::
  "invoke_ctx \<Rightarrow> string \<Rightarrow> string \<Rightarrow> invocation_status \<Rightarrow> json option \<Rightarrow> json option \<Rightarrow> invocation option" where
  "invocation_data cx functionId versionId status duration err =
     (case (duration, error_column err) of
        (Some (JNum d), Some m) \<Rightarrow>
          if int32 d
          then Some \<lparr>inv_id = ctx_invId cx, inv_functionId = functionId, inv_versionId = Some versionId,
                     requestId = ctx_requestId cx, inv_status = status, coldStart = True, durationMs = d,
                     inv_errorMessage = m, inv_createdAt = ctx_now cx\<rparr>
          else None
      | _ \<Rightarrow> None)"

definition recordInvocation ::
  "faults \<Rightarrow> invoke_ctx \<Rightarrow> string \<Rightarrow> string \<Rightarrow> invocation_status \<Rightarrow> json option \<Rightarrow> json option \<Rightarrow> db \<Rightarrow> db" where
  "recordInvocation F cx functionId versionId status duration err db =
     (case invocation_data cx functionId versionId status duration err of
        None \<Rightarrow> db
      | Some row \<Rightarrow>
        (case db_write F InvocationCreate (invocation_create row db) of Inr db' \<Rightarrow> db' | Inl _ \<Rightarrow> db))"

definition latestVersion :: "string \<Rightarrow> db \<Rightarrow> function_version option" where
  "latestVersion functionId db =
     (case sort_key (\<lambda>v. - int (versionNumber v)) (filter (\<lambda>v. ver_functionId v = functionId) (functionVersions db)) of
        [] \<Rightarrow> None
      | v # _ \<Rightarrow> Some v)"

text \<open>Reading a member of a value that need not be an object; \<open>null\<close> throws, see \<open>invoke\<close>.\<close>

definition js_get :: "string \<Rightarrow> json \<Rightarrow> json option" where
  "js_get k v = (case v of JObj ms \<Rightarrow> member k ms | _ \<Rightarrow> None)"

definition recorded_status :: "json \<Rightarrow> invocation_status" where
  "recorded_status outcome =
     (if js_get ''status'' outcome = Some (JStr ''success'') then InvSuccess
      else if js_get ''status'' outcome = Some (JStr ''timeout'') then InvTimeout
      else InvError)"

definition recorded_error :: "json \<Rightarrow> json option" where
  "recorded_error outcome =
     (if js_get ''status'' outcome = Some (JStr ''success'') then Some JNull
      else if js_get ''status'' outcome = Some (JStr ''timeout'') then Some (JStr ''Function timed out'')
      else js_get ''error'' outcome)"

definition no_version_message :: "string \<Rightarrow> string" where
  "no_version_message name =
     ''Function '' @ quoted name @ '' has no built version yet - upload one via POST /functions/'' @ name
     @ ''/versions first''"

definition no_capacity_message :: "string \<Rightarrow> string" where
  "no_capacity_message name = ''No worker has spare capacity to run '' @ quoted name @ '' right now''"

definition no_worker_message :: "string \<Rightarrow> string" where
  "no_worker_message name = ''No worker was available to run '' @ quoted name"

definition invoke ::
  "faults \<Rightarrow> (js_error + bool) \<Rightarrow> (job \<Rightarrow> string + json) \<Rightarrow> (db \<Rightarrow> db) \<Rightarrow> invoke_ctx \<Rightarrow>
   string \<Rightarrow> string \<Rightarrow> json option \<Rightarrow> db \<Rightarrow> (http_exception + json) \<times> db" where
  "invoke F spare dispatch meanwhile cx userId name event db =
     (case get_function F userId name db of
        Inl e \<Rightarrow> (Inl e, db)
      | Inr record \<Rightarrow>
        (case db_read F LatestVersionFind (latestVersion (fn_id record) db) of
           Inl _ \<Rightarrow> (Inl InternalError, db)
         | Inr None \<Rightarrow> (Inl (Conflict (no_version_message name)), db)
         | Inr (Some version) \<Rightarrow>
           (let took = Some (JNum (ctx_end cx - ctx_start cx));
                note = recordInvocation F cx (fn_id record) (ver_id version);
                db1 = meanwhile db;
                unavailable = (\<lambda>m. (Inl (ServiceUnavailable m)))
            in case spare of
                 Inl _ \<Rightarrow> (Inl InternalError, db1)
               | Inr False \<Rightarrow>
                   (unavailable (no_capacity_message name),
                    note InvNoWorker took (Some (JStr ''No healthy worker had spare capacity'')) db1)
               | Inr True \<Rightarrow>
                   (case dispatch \<lparr>job_imageTag = ver_imageTag version, job_event = event,
                                   job_timeoutMs = timeoutMs record, job_memoryMb = memoryMb record\<rparr> of
                      Inr outcome \<Rightarrow>
                        if outcome = JNull
                        then (unavailable (no_worker_message name),
                              note InvNoWorker took (Some (JStr ''No worker responded within the dispatch window'')) db1)
                        else (Inr outcome,
                              note (recorded_status outcome) (js_get ''durationMs'' outcome) (recorded_error outcome) db1)
                    | Inl _ \<Rightarrow>
                        (unavailable (no_worker_message name),
                         note InvNoWorker took (Some (JStr ''No worker responded within the dispatch window'')) db1)))))"

definition listInvocations :: "faults \<Rightarrow> string \<Rightarrow> string \<Rightarrow> db \<Rightarrow> http_exception + invocation list" where
  "listInvocations F userId name db =
     (case get_function F userId name db of
        Inl e \<Rightarrow> Inl e
      | Inr record \<Rightarrow>
        (case db_read F InvocationFindMany
           (take 50 (sort_key (\<lambda>i. - int (inv_createdAt i))
              (filter (\<lambda>i. inv_functionId i = fn_id record) (invocations db)))) of
           Inl _ \<Rightarrow> Inl InternalError
         | Inr is \<Rightarrow> Inr is))"

section \<open>FunctionsService: metrics\<close>

text \<open>
  SQL's \<open>percentile_cont(p) WITHIN GROUP (ORDER BY x)\<close>: the value at position \<open>p * (n - 1)\<close> of the
  sorted column, interpolated between its two neighbours; \<open>NULL\<close> on an empty group.
\<close>

definition interpolate :: "int list \<Rightarrow> rat \<Rightarrow> rat" where
  "interpolate ys r =
     (let lo = nat \<lfloor>r\<rfloor>; hi = nat \<lceil>r\<rceil>
      in of_int (ys ! lo) + (r - of_nat lo) * (of_int (ys ! hi) - of_int (ys ! lo)))"

definition percentile_cont :: "rat \<Rightarrow> int list \<Rightarrow> rat option" where
  "percentile_cont p xs = (if xs = [] then None else Some (interpolate (sort xs) (p * of_nat (length xs - 1))))"

record metrics_summary =
  windowHours :: nat
  totalInvocations :: nat
  errorRate :: rat
  latencyMsP50 :: "rat option"
  latencyMsP95 :: "rat option"
  latencyMsP99 :: "rat option"

definition HOUR_MS :: nat where
  "HOUR_MS = 3600000"

definition in_window :: "nat \<Rightarrow> string \<Rightarrow> invocation \<Rightarrow> bool" where
  "in_window now functionId i \<longleftrightarrow> inv_functionId i = functionId \<and> now < inv_createdAt i + HOUR_MS"

definition error_rate :: "invocation list \<Rightarrow> rat option" where
  "error_rate rows =
     (if rows = [] then None
      else Some (of_nat (length (filter (\<lambda>i. inv_status i \<noteq> InvSuccess) rows)) / of_nat (length rows)))"

definition summary_of :: "invocation list \<Rightarrow> metrics_summary" where
  "summary_of rows =
     \<lparr>windowHours = 1, totalInvocations = length rows, errorRate = or_else (error_rate rows) 0,
      latencyMsP50 = percentile_cont (50 / 100) (map durationMs rows),
      latencyMsP95 = percentile_cont (95 / 100) (map durationMs rows),
      latencyMsP99 = percentile_cont (99 / 100) (map durationMs rows)\<rparr>"

definition getMetricsSummary ::
  "faults \<Rightarrow> nat \<Rightarrow> string \<Rightarrow> string \<Rightarrow> db \<Rightarrow> http_exception + metrics_summary" where
  "getMetricsSummary F now userId name db =
     (case get_function F userId name db of
        Inl e \<Rightarrow> Inl e
      | Inr record \<Rightarrow>
        (case db_read F InvocationMetrics (filter (in_window now (fn_id record)) (invocations db)) of
           Inl _ \<Rightarrow> Inl InternalError
         | Inr rows \<Rightarrow> Inr (summary_of rows)))"

section \<open>FunctionsController\<close>

text \<open>\<open>@UseGuards(AuthGuard, ScopesGuard)\<close> with \<open>@RequireScopes(..)\<close>: in this order.\<close>

definition scoped ::
  "crypto \<Rightarrow> faults \<Rightarrow> nat \<Rightarrow> string option \<Rightarrow> string list \<Rightarrow>
   (principal \<Rightarrow> db \<Rightarrow> (http_exception + 'a) \<times> db) \<Rightarrow> db \<Rightarrow> (http_exception + 'a) \<times> db" where
  "scoped C F now header required h =
     guarded C F now header
       (\<lambda>user db'. case ScopesGuard required user of
          Inl e \<Rightarrow> (Inl e, db')
        | Inr _ \<Rightarrow> h user db')"

definition functions_register where
  "functions_register C F fracInt newId now header body =
     scoped C F now header [''functions:write'']
       (\<lambda>user db'. case RegisterFunctionDto fracInt body of
          Inl e \<Rightarrow> (Inl e, db')
        | Inr dto \<Rightarrow> register_function F newId now (principal_userId user) dto db')"

definition functions_list where
  "functions_list C F now header =
     scoped C F now header [''functions:read''] (\<lambda>user db'. (list_functions F (principal_userId user) db', db'))"

definition functions_get where
  "functions_get C F now header name =
     scoped C F now header [''functions:read''] (\<lambda>user db'. (get_function F (principal_userId user) name db', db'))"

definition functions_listInvocations where
  "functions_listInvocations C F now header name =
     scoped C F now header [''functions:read'']
       (\<lambda>user db'. (listInvocations F (principal_userId user) name db', db'))"

definition functions_getMetrics where
  "functions_getMetrics C F now nowMs header name =
     scoped C F now header [''functions:read'']
       (\<lambda>user db'. (getMetricsSummary F nowMs (principal_userId user) name db', db'))"

definition functions_remove where
  "functions_remove C F now header name =
     scoped C F now header [''functions:write'']
       (\<lambda>user db'. remove_function F (principal_userId user) name db')"

text \<open>The response of the invoke route; \<open>res.json\<close> leaves out members that are \<open>undefined\<close>.\<close>

record invoke_response =
  resp_status :: nat
  resp_functionError :: "string option"
  resp_body :: js_object

definition json_body :: "(string \<times> json option) list \<Rightarrow> js_object" where
  "json_body ms = concat (map (\<lambda>(k, v). case v of Some w \<Rightarrow> [(k, w)] | None \<Rightarrow> []) ms)"

definition invoke_response :: "json \<Rightarrow> invoke_response" where
  "invoke_response outcome =
     (let status = js_get ''status'' outcome; durationMs = js_get ''durationMs'' outcome in
      if status = Some (JStr ''success'')
      then \<lparr>resp_status = 200, resp_functionError = None,
            resp_body = json_body [(''result'', js_get ''result'' outcome), (''durationMs'', durationMs)]\<rparr>
      else \<lparr>resp_status = 200,
            resp_functionError = Some (if status = Some (JStr ''timeout'') then ''Timeout'' else ''Unhandled''),
            resp_body = json_body
              [(''errorMessage'', if status = Some (JStr ''timeout'') then Some (JStr ''Function timed out'')
                                  else js_get ''error'' outcome),
               (''durationMs'', durationMs)]\<rparr>)"

definition functions_invoke where
  "functions_invoke C F spare dispatch meanwhile cx now header name event =
     scoped C F now header [''functions:invoke'']
       (\<lambda>user db'. case invoke F spare dispatch meanwhile cx (principal_userId user) name event db' of
          (Inl e, db2) \<Rightarrow> (Inl e, db2)
        | (Inr outcome, db2) \<Rightarrow> (Inr (invoke_response outcome), db2))"

section \<open>Percentiles\<close>

lemma rat_floor_bounds: "0 \<le> (r :: rat) \<Longrightarrow> of_nat (nat \<lfloor>r\<rfloor>) \<le> r \<and> r < of_nat (nat \<lfloor>r\<rfloor>) + 1"
  using floor_correct [of r] by simp

lemma nat_ceiling_le: "(r :: rat) \<le> of_nat n \<Longrightarrow> nat \<lceil>r\<rceil> \<le> n"
  by (simp add: nat_le_iff ceiling_le_iff)

lemma nat_floor_le: "(r :: rat) \<le> of_nat n \<Longrightarrow> nat \<lfloor>r\<rfloor> \<le> n"
  using nat_ceiling_le [of r n] nat_mono [OF floor_le_ceiling [of r]] by linarith

lemma interpolate_between:
  assumes "sorted ys" and "0 \<le> r" and "r \<le> of_nat (length ys - 1)" and "ys \<noteq> []"
  shows "of_int (ys ! nat \<lfloor>r\<rfloor>) \<le> interpolate ys r \<and> interpolate ys r \<le> of_int (ys ! nat \<lceil>r\<rceil>)"
proof -
  let ?lo = "nat \<lfloor>r\<rfloor>" and ?hi = "nat \<lceil>r\<rceil>"
  have hi: "?hi < length ys" using nat_ceiling_le [OF assms(3)] assms(4) by (cases ys) auto
  have "?lo \<le> ?hi" by (simp add: nat_mono floor_le_ceiling)
  then have d: "(of_int (ys ! ?lo) :: rat) \<le> of_int (ys ! ?hi)" using assms(1) hi by (simp add: sorted_nth_mono)
  have "0 \<le> r - of_nat ?lo" "r - of_nat ?lo \<le> 1" using rat_floor_bounds [OF assms(2)] by linarith+
  then have "0 \<le> (r - of_nat ?lo) * (of_int (ys ! ?hi) - of_int (ys ! ?lo))"
    and "(r - of_nat ?lo) * (of_int (ys ! ?hi) - of_int (ys ! ?lo)) \<le> of_int (ys ! ?hi) - of_int (ys ! ?lo)"
    using d mult_left_le_one_le [of "of_int (ys ! ?hi) - of_int (ys ! ?lo)" "r - of_nat ?lo"] by auto
  then show ?thesis by (simp add: interpolate_def Let_def)
qed

lemma interpolate_mono:
  assumes ys: "sorted ys" "ys \<noteq> []" and r: "0 \<le> r" "r \<le> s" and s: "s \<le> of_nat (length ys - 1)"
  shows "interpolate ys r \<le> interpolate ys s"
proof (cases "\<lfloor>r\<rfloor> = \<lfloor>s\<rfloor>")
  case False
  then have "\<lceil>r\<rceil> \<le> \<lfloor>s\<rfloor>" using r floor_mono [OF r(2)] by (metis ceiling_diff_floor_le_1 diff_le_eq
        add.commute order_le_less zless_imp_add1_zle order_trans)
  moreover have "nat \<lfloor>s\<rfloor> < length ys" using nat_floor_le [OF s] ys(2) by (cases ys) auto
  ultimately have "ys ! nat \<lceil>r\<rceil> \<le> ys ! nat \<lfloor>s\<rfloor>" using ys(1) by (intro sorted_nth_mono) (auto simp: nat_mono)
  then show ?thesis
    using interpolate_between [OF ys(1) r(1) _ ys(2)] interpolate_between [OF ys(1) _ s ys(2)] r s
    by (metis of_int_le_iff order_trans)
next
  case True
  show ?thesis
  proof (cases "r = of_int \<lfloor>r\<rfloor>")
    case True
    then have "interpolate ys r = of_int (ys ! nat \<lfloor>s\<rfloor>)" using \<open>\<lfloor>r\<rfloor> = \<lfloor>s\<rfloor>\<close> r
      by (simp add: interpolate_def Let_def)
    then show ?thesis using interpolate_between [OF ys(1) _ s ys(2)] r by simp
  next
    case False
    then have "s \<noteq> of_int \<lfloor>s\<rfloor>" using r True by (metis floor_correct order_antisym)
    then have "\<lceil>s\<rceil> = \<lceil>r\<rceil>" using False True by (simp add: ceiling_altdef)
    moreover have "(of_int (ys ! nat \<lfloor>s\<rfloor>) :: rat) \<le> of_int (ys ! nat \<lceil>s\<rceil>)"
      using interpolate_between [OF ys(1) _ s ys(2)] r by linarith
    ultimately show ?thesis using True r
      by (simp add: interpolate_def Let_def mult_right_mono)
  qed
qed

lemma sort_Nil_iff: "sort xs = [] \<longleftrightarrow> xs = []"
  by (metis length_0_conv length_sort)

lemma percentile_cont_mono:
  assumes "xs \<noteq> []" and "0 \<le> p" and "p \<le> q" and "q \<le> 1"
  shows "\<exists>a b. percentile_cont p xs = Some a \<and> percentile_cont q xs = Some b \<and> a \<le> b"
proof -
  let ?n = "of_nat (length xs - 1) :: rat"
  have "interpolate (sort xs) (p * ?n) \<le> interpolate (sort xs) (q * ?n)"
  proof (rule interpolate_mono)
    show "q * ?n \<le> of_nat (length (sort xs) - 1)"
      using assms by (simp add: mult_left_le_one_le)
  qed (use assms in \<open>simp_all add: mult_right_mono sort_Nil_iff\<close>)
  then show ?thesis using assms(1) by (simp add: percentile_cont_def)
qed

lemma interpolate_range:
  assumes "sorted ys" and "0 \<le> r" and "r \<le> of_nat (length ys - 1)" and "ys \<noteq> []"
  shows "of_int (Min (set ys)) \<le> interpolate ys r \<and> interpolate ys r \<le> of_int (Max (set ys))"
proof -
  have "nat \<lfloor>r\<rfloor> < length ys" "nat \<lceil>r\<rceil> < length ys"
    using nat_floor_le [OF assms(3)] nat_ceiling_le [OF assms(3)] assms(4) by (cases ys; auto)+
  then have "Min (set ys) \<le> ys ! nat \<lfloor>r\<rfloor>" "ys ! nat \<lceil>r\<rceil> \<le> Max (set ys)" by simp_all
  then have "of_int (Min (set ys)) \<le> (of_int (ys ! nat \<lfloor>r\<rfloor>) :: rat)"
    "(of_int (ys ! nat \<lceil>r\<rceil>) :: rat) \<le> of_int (Max (set ys))" by simp_all
  then show ?thesis using interpolate_between [OF assms] by linarith
qed

lemma percentile_cont_range:
  assumes "xs \<noteq> []" and "0 \<le> p" and "p \<le> 1" and "percentile_cont p xs = Some a"
  shows "of_int (Min (set xs)) \<le> a \<and> a \<le> of_int (Max (set xs))"
proof -
  have "p * of_nat (length xs - 1) \<le> of_nat (length (sort xs) - 1)"
    using assms(2,3) by (simp add: mult_left_le_one_le)
  with interpolate_range [of "sort xs" "p * of_nat (length xs - 1)"] assms show ?thesis
    by (simp add: percentile_cont_def sort_Nil_iff)
qed

lemma error_rate_bounds: "0 \<le> or_else (error_rate rows) 0 \<and> or_else (error_rate rows) 0 \<le> 1"
  by (simp add: error_rate_def or_else_def divide_le_eq_1)

lemma error_rate_zero: "or_else (error_rate rows) 0 = 0 \<longleftrightarrow> (\<forall>i \<in> set rows. inv_status i = InvSuccess)"
  by (auto simp: error_rate_def or_else_def filter_empty_conv)

section \<open>What belongs to one account\<close>

record tenant =
  t_funcs :: "func list"
  t_versions :: "function_version list"
  t_builds :: "build list"
  t_invocations :: "invocation list"

definition owned :: "string \<Rightarrow> db \<Rightarrow> func list" where
  "owned u db = filter (\<lambda>f. fn_userId f = u) (funcs db)"

definition owned_ids :: "string \<Rightarrow> db \<Rightarrow> string set" where
  "owned_ids u db = fn_id ` set (owned u db)"

definition tenant_view :: "string \<Rightarrow> db \<Rightarrow> tenant" where
  "tenant_view u db =
     \<lparr>t_funcs = owned u db,
      t_versions = filter (\<lambda>v. ver_functionId v \<in> owned_ids u db) (functionVersions db),
      t_builds = filter (\<lambda>b. build_functionId b \<in> owned_ids u db) (builds db),
      t_invocations = filter (\<lambda>i. inv_functionId i \<in> owned_ids u db) (invocations db)\<rparr>"

text \<open>An invocation refers to a version of its own function; the schema alone does not say so.\<close>

definition refs_ok :: "db \<Rightarrow> bool" where
  "refs_ok db \<longleftrightarrow>
     (\<forall>i \<in> set (invocations db). \<forall>v \<in> set (functionVersions db).
        inv_versionId i = Some (ver_id v) \<longrightarrow> ver_functionId v = inv_functionId i)"

lemma owned_ids_disjoint:
  assumes "db_wf db" and "u \<noteq> v" and "i \<in> owned_ids u db"
  shows "i \<notin> owned_ids v db"
  using assms by (auto simp: owned_ids_def owned_def db_wf_def funcs_wf_def dest: distinct_map_inj)

lemma tenant_view_owned:
  "tenant_view u db = tenant_view u db' \<Longrightarrow> owned u db = owned u db' \<and> owned_ids u db = owned_ids u db'"
  by (simp add: tenant_view_def owned_ids_def)

lemma find_owned: "function_findUnique u n db = find (\<lambda>f. fn_name f = n) (owned u db)"
  by (simp add: function_findUnique_def owned_def find_filter_conj)

lemma filter_owned:
  assumes "i \<in> owned_ids u db"
  shows "filter (\<lambda>v. ver_functionId v = i) (functionVersions db) =
      filter (\<lambda>v. ver_functionId v = i) (t_versions (tenant_view u db))"
    and "filter (\<lambda>x. inv_functionId x = i) (invocations db) =
      filter (\<lambda>x. inv_functionId x = i) (t_invocations (tenant_view u db))"
    and "filter (in_window now i) (invocations db) = filter (in_window now i) (t_invocations (tenant_view u db))"
  using assms by (auto simp: tenant_view_def in_window_def intro!: filter_cong)

lemma get_function_owned:
  assumes "get_function F u n db = Inr f"
  shows "f \<in> set (owned u db) \<and> fn_id f \<in> owned_ids u db \<and> fn_userId f = u \<and> fn_name f = n"
  using assms
  by (auto simp: get_function_def owned_ids_def owned_def split: sum.splits option.splits
      dest!: function_findUnique_SomeD)

text \<open>Writes of one account leave the rows of the others alone.\<close>

lemma register_function_cases:
  assumes "register_function F newId now u dto db = (r, db')"
  obtains (created) f where "r = Inr f" "function_create f db = Inr db'" "fn_id f = newId" "fn_userId f = u"
      "fn_name f = rf_name dto" "memoryMb f = or_else (rf_memoryMb dto) 128"
      "timeoutMs f = or_else (rf_timeoutMs dto) 3000" "fn_createdAt f = now"
  | (refused) e where "r = Inl e" "db' = db"
  using assms
  by (auto simp: register_function_def Let_def split: sum.splits db_error.splits)

lemma register_function_isolated:
  assumes "v \<noteq> u"
  shows "tenant_view v (snd (register_function F newId now u dto db)) = tenant_view v db"
proof (cases "register_function F newId now u dto db")
  case (Pair r db')
  then have "tenant_view v db' = tenant_view v db"
  proof (cases rule: register_function_cases)
    case (created f)
    then have "db' = db\<lparr>funcs := funcs db @ [f]\<rparr>" by (auto simp: function_create_def split: if_splits)
    moreover have "owned v (db\<lparr>funcs := funcs db @ [f]\<rparr>) = owned v db"
      using created(4) assms by (simp add: owned_def)
    ultimately show ?thesis by (simp add: tenant_view_def owned_ids_def)
  qed simp
  then show ?thesis using Pair by simp
qed

lemma delete_isolated:
  assumes "db_wf db" and "refs_ok db" and "v \<noteq> u" and "f \<in> set (owned u db)"
  shows "tenant_view v (delete_function_row (fn_id f) db) = tenant_view v db"
proof -
  let ?db' = "delete_function_row (fn_id f) db"
  have id: "fn_id f \<notin> owned_ids v db" using assms owned_ids_disjoint by (metis image_eqI owned_ids_def)
  then have "fn_id g \<noteq> fn_id f" if "g \<in> set (funcs db)" "fn_userId g = v" for g
    using that by (auto simp: owned_ids_def owned_def image_iff)
  then have own: "owned v ?db' = owned v db"
    by (auto simp: delete_function_row_def Let_def owned_def intro!: filter_cong)
  have keep: "clear_version (ver_id ` {w \<in> set (functionVersions db). ver_functionId w = fn_id f}) i = i"
    if "i \<in> set (invocations db)" "inv_functionId i \<in> owned_ids v db" for i
    using that id assms(2) by (auto simp: clear_version_def refs_ok_def split: option.split)
  have "filter (\<lambda>i. inv_functionId i \<in> owned_ids v db)
      (map (clear_version (ver_id ` {w \<in> set (functionVersions db). ver_functionId w = fn_id f})) is) =
      filter (\<lambda>i. inv_functionId i \<in> owned_ids v db) is" if "set is \<subseteq> set (invocations db)" for "is"
    using that keep by (induction "is") auto
  then have "t_invocations (tenant_view v ?db') = t_invocations (tenant_view v db)"
    using id own by (auto simp: tenant_view_def owned_ids_def delete_function_row_def Let_def intro!: filter_cong)
  moreover have "t_versions (tenant_view v ?db') = t_versions (tenant_view v db)"
    "t_builds (tenant_view v ?db') = t_builds (tenant_view v db)"
    using id own by (auto simp: tenant_view_def owned_ids_def delete_function_row_def Let_def intro!: filter_cong)
  ultimately show ?thesis using own by (simp add: tenant_view_def)
qed

lemma remove_function_isolated:
  assumes "db_wf db" and "refs_ok db" and "v \<noteq> u"
  shows "tenant_view v (snd (remove_function F u name db)) = tenant_view v db"
proof -
  have "tenant_view v (delete_function_row (fn_id f) db) = tenant_view v db"
    if "function_findUnique u name db = Some f" for f
    using delete_isolated [OF assms, of f] that function_findUnique_SomeD [OF that] by (auto simp: owned_def)
  then show ?thesis
    by (auto simp: remove_function_def function_delete_def db_write_def split: sum.split option.split db_error.split)
qed

lemma invocation_data_columns:
  "invocation_data cx fid vid st d err = Some i \<Longrightarrow>
   inv_functionId i = fid \<and> inv_versionId i = Some vid \<and> inv_status i = st \<and> d = Some (JNum (durationMs i))"
  by (auto simp: invocation_data_def split: option.splits json.splits if_splits)

lemma recordInvocation_cases:
  assumes "recordInvocation F cx fid vid st d err db \<noteq> db"
  obtains i where "invocation_data cx fid vid st d err = Some i"
    and "invocation_create i db = Inr (recordInvocation F cx fid vid st d err db)"
    and "recordInvocation F cx fid vid st d err db = db\<lparr>invocations := invocations db @ [i]\<rparr>"
  using assms
  by (auto simp: recordInvocation_def invocation_create_def split: option.splits sum.splits if_splits)

lemma recordInvocation_isolated:
  assumes "fid \<notin> owned_ids v db"
  shows "tenant_view v (recordInvocation F cx fid vid st d err db) = tenant_view v db"
proof (cases "recordInvocation F cx fid vid st d err db = db")
  case False
  then show ?thesis
  proof (rule recordInvocation_cases)
    fix i
    assume "invocation_data cx fid vid st d err = Some i"
      and r: "recordInvocation F cx fid vid st d err db = db\<lparr>invocations := invocations db @ [i]\<rparr>"
    then have "inv_functionId i = fid" using invocation_data_columns by blast
    then show ?thesis unfolding r using assms by (simp add: tenant_view_def owned_ids_def owned_def)
  qed
qed simp

lemma recordInvocation_wf: "db_wf db \<Longrightarrow> db_wf (recordInvocation F cx fid vid st d err db)"
  by (cases "recordInvocation F cx fid vid st d err db = db")
     (auto elim!: recordInvocation_cases intro: invocation_create_wf)

text \<open>
  What \<open>invoke\<close> does, once the function and its version are found: its answer, and the row it
  tries to record.
\<close>

definition invoke_answer :: "(js_error + bool) \<Rightarrow> (string + json) \<Rightarrow> string \<Rightarrow> http_exception + json" where
  "invoke_answer spare reply name =
     (case spare of
        Inl _ \<Rightarrow> Inl InternalError
      | Inr False \<Rightarrow> Inl (ServiceUnavailable (no_capacity_message name))
      | Inr True \<Rightarrow>
        (case reply of
           Inr outcome \<Rightarrow> if outcome = JNull then Inl (ServiceUnavailable (no_worker_message name)) else Inr outcome
         | Inl _ \<Rightarrow> Inl (ServiceUnavailable (no_worker_message name))))"

definition invoke_row ::
  "invoke_ctx \<Rightarrow> string \<Rightarrow> string \<Rightarrow> (js_error + bool) \<Rightarrow> (string + json) \<Rightarrow> invocation option" where
  "invoke_row cx fid vid spare reply =
     (let took = Some (JNum (ctx_end cx - ctx_start cx)) in
      case spare of
        Inl _ \<Rightarrow> None
      | Inr False \<Rightarrow>
          invocation_data cx fid vid InvNoWorker took (Some (JStr ''No healthy worker had spare capacity''))
      | Inr True \<Rightarrow>
        (case (case reply of Inr JNull \<Rightarrow> None | Inr out \<Rightarrow> Some out | Inl _ \<Rightarrow> None) of
           Some outcome \<Rightarrow>
             invocation_data cx fid vid (recorded_status outcome) (js_get ''durationMs'' outcome) (recorded_error outcome)
         | None \<Rightarrow>
             invocation_data cx fid vid InvNoWorker took
               (Some (JStr ''No worker responded within the dispatch window''))))"

definition job_of :: "func \<Rightarrow> function_version \<Rightarrow> json option \<Rightarrow> job" where
  "job_of f v event =
     \<lparr>job_imageTag = ver_imageTag v, job_event = event, job_timeoutMs = timeoutMs f, job_memoryMb = memoryMb f\<rparr>"

definition store_row :: "faults \<Rightarrow> invocation option \<Rightarrow> db \<Rightarrow> db" where
  "store_row F row db =
     (case row of
        None \<Rightarrow> db
      | Some i \<Rightarrow> (case db_write F InvocationCreate (invocation_create i db) of Inr db' \<Rightarrow> db' | Inl _ \<Rightarrow> db))"

lemma invoke_found:
  assumes "get_function F u name db = Inr f" and "F LatestVersionFind = None"
    and "latestVersion (fn_id f) db = Some v"
  shows "invoke F spare dispatch meanwhile cx u name event db =
    (invoke_answer spare (dispatch (job_of f v event)) name,
     store_row F (invoke_row cx (fn_id f) (ver_id v) spare (dispatch (job_of f v event))) (meanwhile db))"
  using assms
  by (cases "dispatch (job_of f v event)")
     (auto simp: invoke_def invoke_answer_def invoke_row_def recordInvocation_def store_row_def job_of_def Let_def
       split: sum.split bool.split json.split)

lemma invoke_not_found:
  assumes "get_function F u name db = Inl e"
  shows "invoke F spare dispatch meanwhile cx u name event db = (Inl e, db)"
  using assms by (simp add: invoke_def)

lemma invoke_no_version:
  assumes "get_function F u name db = Inr f" and "F LatestVersionFind = None"
    and "latestVersion (fn_id f) db = None"
  shows "invoke F spare dispatch meanwhile cx u name event db = (Inl (Conflict (no_version_message name)), db)"
  using assms by (simp add: invoke_def)

lemma invoke_fault:
  assumes "get_function F u name db = Inr f" and "F LatestVersionFind = Some m"
  shows "invoke F spare dispatch meanwhile cx u name event db = (Inl InternalError, db)"
  using assms by (simp add: invoke_def db_read_def)

lemma invoke_cases:
  obtains (not_found) e where "get_function F u name db = Inl e"
      "invoke F spare dispatch meanwhile cx u name event db = (Inl e, db)"
  | (stopped) f e where "get_function F u name db = Inr f"
      "invoke F spare dispatch meanwhile cx u name event db = (Inl e, db)"
  | (found) f v where "get_function F u name db = Inr f" "F LatestVersionFind = None"
      "latestVersion (fn_id f) db = Some v"
      "invoke F spare dispatch meanwhile cx u name event db =
        (invoke_answer spare (dispatch (job_of f v event)) name,
         store_row F (invoke_row cx (fn_id f) (ver_id v) spare (dispatch (job_of f v event))) (meanwhile db))"
proof (cases "get_function F u name db")
  case (Inl e)
  then show thesis using not_found invoke_not_found by blast
next
  case (Inr f)
  show thesis
  proof (cases "F LatestVersionFind")
    case (Some m)
    show thesis by (rule stopped [OF Inr invoke_fault [OF Inr Some]])
  next
    case None
    show thesis
    proof (cases "latestVersion (fn_id f) db")
      case (Some v)
      show thesis by (rule found [OF Inr None Some invoke_found [OF Inr None Some]])
    next
      case no: None
      show thesis by (rule stopped [OF Inr invoke_no_version [OF Inr None no]])
    qed
  qed
qed

lemma invoke_row_columns:
  "invoke_row cx fid vid spare reply = Some i \<Longrightarrow> inv_functionId i = fid \<and> inv_versionId i = Some vid"
  by (auto simp: invoke_row_def Let_def split: sum.splits bool.splits option.splits
      dest!: invocation_data_columns)

lemma store_row_cases:
  assumes "store_row F row db \<noteq> db"
  obtains i where "row = Some i" and "invocation_create i db = Inr (store_row F row db)"
    and "store_row F row db = db\<lparr>invocations := invocations db @ [i]\<rparr>"
  using assms
  by (auto simp: store_row_def invocation_create_def split: option.splits sum.splits if_splits)

lemma store_row_wf: "db_wf db \<Longrightarrow> db_wf (store_row F row db)"
  by (cases "store_row F row db = db") (auto elim!: store_row_cases intro: invocation_create_wf)

lemma store_row_isolated:
  assumes "\<And>i. row = Some i \<Longrightarrow> inv_functionId i \<notin> owned_ids v db"
  shows "tenant_view v (store_row F row db) = tenant_view v db"
proof (cases "store_row F row db = db")
  case False
  then show ?thesis
  proof (rule store_row_cases)
    fix i
    assume "row = Some i" and r: "store_row F row db = db\<lparr>invocations := invocations db @ [i]\<rparr>"
    then show ?thesis unfolding r using assms by (simp add: tenant_view_def owned_ids_def owned_def)
  qed
qed simp

lemma invoke_isolated:
  assumes "db_wf db" and "v \<noteq> u" and "tenant_view v (meanwhile db) = tenant_view v db"
  shows "tenant_view v (snd (invoke F spare dispatch meanwhile cx u name event db)) = tenant_view v db"
proof (cases rule: invoke_cases [of F u name db spare dispatch meanwhile cx event])
  case (found f w)
  have "fn_id f \<notin> owned_ids v db"
    using owned_ids_disjoint [OF assms(1)] assms(2) get_function_owned [OF found(1)] by metis
  then have "fn_id f \<notin> owned_ids v (meanwhile db)" using tenant_view_owned [OF assms(3)] by simp
  then show ?thesis
    using found(4) assms(3) invoke_row_columns store_row_isolated by (metis snd_conv)
qed simp_all

text \<open>The answers of one account depend on its own rows only.\<close>

lemma get_function_local:
  "tenant_view u db = tenant_view u db' \<Longrightarrow> get_function F u n db = get_function F u n db'"
  using tenant_view_owned [of u db db'] by (simp add: get_function_def find_owned)

lemma latestVersion_local:
  assumes "tenant_view u db = tenant_view u db'" and "i \<in> owned_ids u db"
  shows "latestVersion i db = latestVersion i db'"
  using filter_owned(1) [OF assms(2)] filter_owned(1) [of i u db'] assms tenant_view_owned [OF assms(1)]
  by (simp add: latestVersion_def)

lemma invoke_local:
  assumes "tenant_view u db = tenant_view u db'"
  shows "fst (invoke F spare dispatch meanwhile cx u name event db) =
    fst (invoke F spare dispatch meanwhile cx u name event db')"
proof (cases "get_function F u name db")
  case (Inl e)
  then show ?thesis using get_function_local [OF assms, of F name] by (simp add: invoke_not_found)
next
  case (Inr f)
  then have f: "get_function F u name db' = Inr f" using get_function_local [OF assms] by metis
  have v: "latestVersion (fn_id f) db' = latestVersion (fn_id f) db"
    using latestVersion_local [OF assms] get_function_owned [OF Inr] by metis
  show ?thesis
  proof (cases "F LatestVersionFind")
    case None
    with Inr f v show ?thesis
      by (cases "latestVersion (fn_id f) db") (simp_all add: invoke_no_version invoke_found)
  next
    case (Some m)
    with Inr f show ?thesis by (simp add: invoke_fault)
  qed
qed

lemma listInvocations_local:
  assumes "tenant_view u db = tenant_view u db'"
  shows "listInvocations F u n db = listInvocations F u n db'"
proof (cases "get_function F u n db")
  case (Inl e)
  then show ?thesis using get_function_local [OF assms, of F n] by (simp add: listInvocations_def)
next
  case (Inr f)
  then have "fn_id f \<in> owned_ids u db" "fn_id f \<in> owned_ids u db'"
    using get_function_owned tenant_view_owned [OF assms] by metis+
  then show ?thesis
    using Inr get_function_local [OF assms, of F n] filter_owned(2) assms by (simp add: listInvocations_def)
qed

lemma getMetricsSummary_local:
  assumes "tenant_view u db = tenant_view u db'"
  shows "getMetricsSummary F now u n db = getMetricsSummary F now u n db'"
proof (cases "get_function F u n db")
  case (Inl e)
  then show ?thesis using get_function_local [OF assms, of F n] by (simp add: getMetricsSummary_def)
next
  case (Inr f)
  then have "fn_id f \<in> owned_ids u db" "fn_id f \<in> owned_ids u db'"
    using get_function_owned tenant_view_owned [OF assms] by metis+
  then show ?thesis
    using Inr get_function_local [OF assms, of F n] filter_owned(3) assms by (simp add: getMetricsSummary_def)
qed

section \<open>Versions, limits, rows\<close>

lemma latestVersion_None: "latestVersion i db = None \<longleftrightarrow> (\<forall>v \<in> set (functionVersions db). ver_functionId v \<noteq> i)"
proof -
  let ?l = "sort_key (\<lambda>v. - int (versionNumber v)) (filter (\<lambda>v. ver_functionId v = i) (functionVersions db))"
  have "latestVersion i db = None \<longleftrightarrow> ?l = []" by (simp add: latestVersion_def split: list.split)
  also have "\<dots> \<longleftrightarrow> set ?l = {}" by blast
  finally show ?thesis by auto
qed

lemma latestVersion_SomeD:
  assumes "latestVersion i db = Some v"
  shows "v \<in> set (functionVersions db) \<and> ver_functionId v = i
    \<and> (\<forall>w \<in> set (functionVersions db). ver_functionId w = i \<longrightarrow> versionNumber w \<le> versionNumber v)"
proof -
  let ?k = "\<lambda>v. - int (versionNumber v)"
  let ?l = "sort_key ?k (filter (\<lambda>v. ver_functionId v = i) (functionVersions db))"
  obtain vs where l: "?l = v # vs"
    using assms by (auto simp: latestVersion_def split: list.splits)
  have "sorted (map ?k (v # vs))" unfolding l [symmetric] by (rule sorted_sort_key)
  then have "\<forall>w \<in> set (v # vs). versionNumber w \<le> versionNumber v" by auto
  moreover have "set (v # vs) = {w \<in> set (functionVersions db). ver_functionId w = i}"
    unfolding l [symmetric] by simp
  ultimately show ?thesis by auto
qed

lemma latestVersion_eqI:
  assumes "db_wf db" and "v \<in> set (functionVersions db)" and "ver_functionId v = i"
    and "\<And>w. w \<in> set (functionVersions db) \<Longrightarrow> ver_functionId w = i \<Longrightarrow> versionNumber w \<le> versionNumber v"
  shows "latestVersion i db = Some v"
proof (cases "latestVersion i db")
  case None
  with assms show ?thesis by (auto simp: latestVersion_None)
next
  case (Some w)
  then have "w \<in> set (functionVersions db)" "ver_key w = ver_key v"
    using latestVersion_SomeD [OF Some] assms by (auto intro: order_antisym)
  then have "w = v" using assms(1,2) unfolding db_wf_def versions_wf_def by (metis distinct_map_inj)
  with Some show ?thesis by simp
qed

definition limits_ok :: "db \<Rightarrow> bool" where
  "limits_ok db \<longleftrightarrow>
     (\<forall>f \<in> set (funcs db). memoryMb f \<in> {64..3008} \<and> timeoutMs f \<in> {100..60000} \<and> name_pattern (fn_name f))"

lemma optional_int_bounds:
  "optional_int fi lo hi v = Some (Some i) \<Longrightarrow> lo \<le> i \<and> i \<le> hi"
  by (auto simp: optional_int_def Let_def split: option.splits json.splits if_splits)

lemma RegisterFunctionDto_bounds:
  assumes "RegisterFunctionDto fi body = Inr dto"
  shows "or_else (rf_memoryMb dto) 128 \<in> {64..3008}" and "or_else (rf_timeoutMs dto) 3000 \<in> {100..60000}"
    and "name_pattern (rf_name dto)"
proof -
  obtain ms n mem tmo where "body = JObj ms" "optional_int fi 64 3008 (member ''memoryMb'' ms) = Some mem"
      "optional_int fi 100 60000 (member ''timeoutMs'' ms) = Some tmo"
      and dto: "dto = \<lparr>rf_name = n, rf_memoryMb = mem, rf_timeoutMs = tmo\<rparr>" "name_pattern n"
    using assms by (auto simp: RegisterFunctionDto_def split: json.splits option.splits if_splits)
  then show "or_else (rf_memoryMb dto) 128 \<in> {64..3008}" and "or_else (rf_timeoutMs dto) 3000 \<in> {100..60000}"
    and "name_pattern (rf_name dto)"
    using optional_int_bounds by (auto simp: or_else_def split: option.split)
qed

lemma register_function_limits:
  assumes "limits_ok db" and "RegisterFunctionDto fi body = Inr dto"
  shows "limits_ok (snd (register_function F newId now u dto db))"
proof (cases "register_function F newId now u dto db")
  case (Pair r db')
  then have "limits_ok db'" using assms RegisterFunctionDto_bounds [OF assms(2)]
    by (cases rule: register_function_cases) (auto simp: limits_ok_def function_create_def split: if_splits)
  with Pair show ?thesis by simp
qed

text \<open>A guard leaves the functions alone, so a route keeps what its handler keeps.\<close>

lemma scoped_cases:
  assumes "scoped C F now header required h db = (r, db')"
  obtains (refused) e where "r = Inl e" "funcs db' = funcs db"
  | (served) p db1 where "AuthGuard C F now header db = (Inr p, db1)" "ScopesGuard required p = Inr ()"
      "h p db1 = (r, db')" "funcs db1 = funcs db"
proof (cases "AuthGuard C F now header db")
  case (Pair a db1)
  then have fr: "funcs db1 = funcs db" using ag.guard_frame by blast
  show thesis
  proof (cases a)
    case (Inl e)
    then show thesis using assms Pair fr refused by (auto simp: scoped_def guarded_def)
  next
    case (Inr p)
    then show thesis using assms Pair fr refused served
      by (cases "ScopesGuard required p") (auto simp: scoped_def guarded_def)
  qed
qed

text \<open>The row an attempt leaves, and when the database can take it.\<close>

definition attempt_row ::
  "invoke_ctx \<Rightarrow> func \<Rightarrow> function_version \<Rightarrow> invocation_status \<Rightarrow> int \<Rightarrow> string option \<Rightarrow> invocation" where
  "attempt_row cx f v st d err =
     \<lparr>inv_id = ctx_invId cx, inv_functionId = fn_id f, inv_versionId = Some (ver_id v),
      requestId = ctx_requestId cx, inv_status = st, coldStart = True, durationMs = d,
      inv_errorMessage = err, inv_createdAt = ctx_now cx\<rparr>"

definition logged :: "invocation \<Rightarrow> db \<Rightarrow> db" where
  "logged i db = db\<lparr>invocations := invocations db @ [i]\<rparr>"

definition recordable :: "invoke_ctx \<Rightarrow> func \<Rightarrow> function_version \<Rightarrow> db \<Rightarrow> bool" where
  "recordable cx f v db \<longleftrightarrow>
     ctx_invId cx \<notin> inv_id ` set (invocations db) \<and> ctx_requestId cx \<notin> requestId ` set (invocations db) \<and>
     f \<in> set (funcs db) \<and> v \<in> set (functionVersions db)"

lemma store_row_logged:
  assumes "store_row F row db = logged i db"
  shows "row = Some i"
proof (rule store_row_cases [of F row db])
  have "invocations (logged i db) \<noteq> invocations db" by (simp add: logged_def)
  then show "store_row F row db \<noteq> db" using assms by metis
next
  fix j
  assume "row = Some j" and "store_row F row db = db\<lparr>invocations := invocations db @ [j]\<rparr>"
  then have "logged i db = db\<lparr>invocations := invocations db @ [j]\<rparr>" using assms by metis
  then have "invocations (logged i db) = invocations db @ [j]" by simp
  with \<open>row = Some j\<close> show ?thesis by (simp add: logged_def)
qed

lemma store_attempt:
  "recordable cx f v db \<Longrightarrow>
   store_row no_faults (Some (attempt_row cx f v st d err)) db = logged (attempt_row cx f v st d err) db"
  by (auto simp: recordable_def store_row_def invocation_create_def attempt_row_def logged_def)

lemma invocation_data_attempt:
  "int32 d \<Longrightarrow> error_column err = Some m \<Longrightarrow>
   invocation_data cx (fn_id f) (ver_id v) st (Some (JNum d)) err = Some (attempt_row cx f v st d m)"
  by (simp add: invocation_data_def attempt_row_def)

lemma error_column_simps [simp]:
  "error_column None = Some None" "error_column (Some JNull) = Some None"
  "error_column (Some (JStr m)) = Some (Some m)"
  by (simp_all add: error_column_def)

lemma outcome_members [simp]:
  "js_get ''status'' (JObj (outcome_success r d)) = Some (JStr ''success'')"
  "js_get ''status'' (JObj (outcome_error e d)) = Some (JStr ''error'')"
  "js_get ''status'' (JObj (outcome_timeout d)) = Some (JStr ''timeout'')"
  "js_get ''durationMs'' (JObj (outcome_success r d)) = Some (JNum d)"
  "js_get ''durationMs'' (JObj (outcome_error e d)) = Some (JNum d)"
  "js_get ''durationMs'' (JObj (outcome_timeout d)) = Some (JNum d)"
  "js_get ''result'' (JObj (outcome_success r d)) = Some r"
  "js_get ''error'' (JObj (outcome_error e d)) = Some (JStr e)"
  by (simp_all add: js_get_def outcome_success_def outcome_error_def outcome_timeout_def member_def)

lemma recorded_simps [simp]:
  "recorded_status (JObj (outcome_success r d)) = InvSuccess"
  "recorded_status (JObj (outcome_error e d)) = InvError"
  "recorded_status (JObj (outcome_timeout d)) = InvTimeout"
  "recorded_error (JObj (outcome_success r d)) = Some JNull"
  "recorded_error (JObj (outcome_error e d)) = Some (JStr e)"
  "recorded_error (JObj (outcome_timeout d)) = Some (JStr ''Function timed out'')"
  by (simp_all add: recorded_status_def recorded_error_def)

lemma invoke_attempt:
  assumes "function_findUnique u name db = Some f" and "latestVersion (fn_id f) db = Some v"
    and "recordable cx f v (meanwhile db)"
    and "invoke_row cx (fn_id f) (ver_id v) spare (dispatch (job_of f v event)) = Some (attempt_row cx f v st d err)"
  shows "invoke no_faults spare dispatch meanwhile cx u name event db =
    (invoke_answer spare (dispatch (job_of f v event)) name, logged (attempt_row cx f v st d err) (meanwhile db))"
proof -
  have "get_function no_faults u name db = Inr f" using assms(1) by (simp add: get_function_def)
  then show ?thesis using invoke_found [OF _ _ assms(2)] assms(3,4) store_attempt by simp
qed

lemma get_function_row:
  "db_wf db \<Longrightarrow> f \<in> set (funcs db) \<Longrightarrow> get_function no_faults (fn_userId f) (fn_name f) db = Inr f"
  using function_findUnique_iff [of db "fn_userId f" "fn_name f" f] by (simp add: get_function_def)

lemma functions_register_limits:
  assumes "limits_ok db"
  shows "limits_ok (snd (functions_register C F fracInt newId now header body db))"
proof (cases "functions_register C F fracInt newId now header body db")
  case (Pair r db')
  then have "limits_ok db'" unfolding functions_register_def
  proof (cases rule: scoped_cases)
    case (served p db1)
    then have "limits_ok db1" using assms by (simp add: limits_ok_def)
    with served(3) show ?thesis using register_function_limits
      by (auto split: sum.splits) (metis snd_conv)
  qed (use assms in \<open>simp add: limits_ok_def\<close>)
  with Pair show ?thesis by simp
qed

lemma functions_remove_limits:
  assumes "limits_ok db"
  shows "limits_ok (snd (functions_remove C F now header name db))"
proof (cases "functions_remove C F now header name db")
  case (Pair r db')
  then have "limits_ok db'" unfolding functions_remove_def
  proof (cases rule: scoped_cases)
    case (served p db1)
    then have "limits_ok db1" using assms by (simp add: limits_ok_def)
    with served(3) show ?thesis
      by (auto simp: remove_function_def function_delete_def delete_function_row_def Let_def limits_ok_def
          split: sum.splits option.splits db_error.splits)
  qed (use assms in \<open>simp add: limits_ok_def\<close>)
  with Pair show ?thesis by simp
qed

lemma invoke_dispatch_cong:
  assumes "get_function F u name db = Inr f" and "\<And>v. d1 (job_of f v event) = d2 (job_of f v event)"
  shows "invoke F spare d1 meanwhile cx u name event db = invoke F spare d2 meanwhile cx u name event db"
proof (cases "F LatestVersionFind")
  case None
  then show ?thesis
    using assms by (cases "latestVersion (fn_id f) db") (simp_all add: invoke_no_version invoke_found)
qed (use assms in \<open>simp add: invoke_fault\<close>)

lemma invoke_job_limits:
  assumes "limits_ok db"
    and "\<forall>j. job_memoryMb j \<in> {64..3008} \<and> job_timeoutMs j \<in> {100..60000} \<longrightarrow> d1 j = d2 j"
  shows "invoke F spare d1 meanwhile cx u name event db = invoke F spare d2 meanwhile cx u name event db"
proof (cases "get_function F u name db")
  case (Inr f)
  then have "f \<in> set (funcs db)" using get_function_owned by (auto simp: owned_def)
  then have "d1 (job_of f v event) = d2 (job_of f v event)" for v
    using assms by (auto simp: limits_ok_def job_of_def)
  then show ?thesis by (rule invoke_dispatch_cong [OF Inr])
qed (simp add: invoke_not_found)

section \<open>Properties\<close>

text \<open>
  Tenant isolation of writes: registering, removing or invoking a function as one account leaves
  every function, version, build and invocation of every other account exactly as it was.
  While an invocation waits, other requests may run; the condition is that they do not touch the
  other account either.
\<close>

theorem tenant_writes_isolated:
  assumes "db_wf db" and "refs_ok db" and "v \<noteq> u" and "tenant_view v (meanwhile db) = tenant_view v db"
  shows "tenant_view v (snd (register_function F newId now u dto db)) = tenant_view v db
    \<and> tenant_view v (snd (remove_function F u name db)) = tenant_view v db
    \<and> tenant_view v (snd (invoke F spare dispatch meanwhile cx u name event db)) = tenant_view v db"
  using register_function_isolated [OF assms(3)] remove_function_isolated [OF assms(1-3)]
    invoke_isolated [OF assms(1,3), of meanwhile] assms(4) by blast

text \<open>
  Registering: a name the account already uses is a conflict (409) and changes nothing; a new one
  creates the function with the defaults 128 MB and 3000 ms filled in, after which the account
  gets exactly this function under the name -- also if another account uses the same name.
\<close>

theorem register_function_spec:
  assumes "db_wf db" and "u \<in> user_id ` set (users db)" and "newId \<notin> fn_id ` set (funcs db)"
    and "register_function no_faults newId now u dto db = (r, db')"
  shows "if (u, rf_name dto) \<in> fn_key ` set (funcs db)
    then (\<exists>m. r = Inl (Conflict m)) \<and> db' = db
    else (\<exists>f. r = Inr f \<and> fn_id f = newId \<and> memoryMb f = or_else (rf_memoryMb dto) 128
        \<and> timeoutMs f = or_else (rf_timeoutMs dto) 3000
        \<and> get_function no_faults u (rf_name dto) db' = Inr f \<and> latestVersion newId db' = None) \<and> db_wf db'"
proof (cases "(u, rf_name dto) \<in> fn_key ` set (funcs db)")
  case True
  then have "register_function no_faults newId now u dto db =
      (Inl (Conflict (''Function '' @ quoted (rf_name dto) @ '' already exists'')), db)"
    by (simp add: register_function_def Let_def function_create_def)
  with True assms(4) show ?thesis by auto
next
  case False
  define f where "f = \<lparr>fn_id = newId, fn_userId = u, fn_name = rf_name dto, memoryMb = or_else (rf_memoryMb dto) 128,
      timeoutMs = or_else (rf_timeoutMs dto) 3000, fn_createdAt = now\<rparr>"
  have r: "function_create f db = Inr db'" "r = Inr f" "db' = db\<lparr>funcs := funcs db @ [f]\<rparr>"
    using False assms(2-4) by (auto simp: register_function_def Let_def function_create_def f_def)
  then have wf: "db_wf db'" using assms(1) function_create_wf by blast
  have "function_findUnique u (rf_name dto) db' = Some f"
    using function_findUnique_iff [OF wf] r(3) by (simp add: f_def)
  moreover have "latestVersion newId db' = None"
    using assms(1,3) r(3) by (auto simp: latestVersion_None db_wf_def versions_wf_def)
  ultimately show ?thesis using False wf r(2) by (simp add: get_function_def f_def)
qed

text \<open>
  C19. Limits: a function that came in through the route has between 64 and 3008 MB and between 100 and
  60000 ms, and its name matches the pattern; this is kept by registering and removing. So
  every job an invocation hands to the dispatcher is within these limits: two dispatchers
  that agree on the jobs within the limits give the same invocation.
\<close>

theorem function_limits:
  assumes "limits_ok db"
  shows "limits_ok (snd (functions_register C F fracInt newId now header body db))
    \<and> limits_ok (snd (functions_remove C F now header name db))
    \<and> ((\<forall>j. job_memoryMb j \<in> {64..3008} \<and> job_timeoutMs j \<in> {100..60000} \<longrightarrow> d1 j = d2 j) \<longrightarrow>
       invoke F spare d1 meanwhile cx u name event db = invoke F spare d2 meanwhile cx u name event db)"
  by (intro conjI impI functions_register_limits functions_remove_limits invoke_job_limits assms)

text \<open>
  Removing: an unknown name, or the name of a function of another account, is 404 and changes
  nothing; otherwise the function goes with all its versions, builds and invocations, a
  second removal is 404, and everything that belongs to other functions stays.
\<close>

theorem remove_function_spec:
  assumes "db_wf db" and "remove_function no_faults u name db = (r, db')"
  shows "case function_findUnique u name db of
      None \<Rightarrow> r = Inl (function_not_found name) \<and> db' = db
    | Some f \<Rightarrow> r = Inr () \<and> db_wf db'
        \<and> remove_function no_faults u name db' = (Inl (function_not_found name), db')
        \<and> funcs db' = filter (\<lambda>g. g \<noteq> f) (funcs db)
        \<and> functionVersions db' = filter (\<lambda>v. ver_functionId v \<noteq> fn_id f) (functionVersions db)
        \<and> builds db' = filter (\<lambda>b. build_functionId b \<noteq> fn_id f) (builds db)
        \<and> map inv_id (invocations db') = map inv_id (filter (\<lambda>i. inv_functionId i \<noteq> fn_id f) (invocations db))"
proof (cases "function_findUnique u name db")
  case None
  with assms(2) show ?thesis by (simp add: remove_function_def function_delete_def)
next
  case (Some f)
  then have db': "db' = delete_function_row (fn_id f) db" and r: "r = Inr ()"
    using assms(2) by (auto simp: remove_function_def function_delete_def)
  have f: "f \<in> set (funcs db)" using function_findUnique_SomeD [OF Some] by simp
  have "g = f \<longleftrightarrow> fn_id g = fn_id f" if "g \<in> set (funcs db)" for g
    using that f assms(1) unfolding db_wf_def funcs_wf_def by (metis distinct_map_inj)
  then have fs: "funcs db' = filter (\<lambda>g. g \<noteq> f) (funcs db)"
    unfolding db' by (auto simp: delete_function_row_def Let_def intro: filter_cong)
  have wf: "db_wf db'" unfolding db' by (rule delete_function_row_wf [OF assms(1)])
  have "function_findUnique u name db' = None"
  proof (rule ccontr)
    assume "function_findUnique u name db' \<noteq> None"
    then obtain g where "g \<in> set (funcs db')" "fn_userId g = u" "fn_name g = name"
      using function_findUnique_SomeD by blast
    then have "g \<noteq> f" "function_findUnique u name db = Some g"
      using fs function_findUnique_iff [OF assms(1)] by auto
    with Some show False by simp
  qed
  then have "remove_function no_faults u name db' = (Inl (function_not_found name), db')"
    by (simp add: remove_function_def function_delete_def)
  with Some r wf fs show ?thesis unfolding db' by (simp add: delete_function_row_def Let_def comp_def)
qed

text \<open>
  C20. The version that runs: for a function with a built version, an invocation that finds a
  worker sends the image of the version with the highest number, with the function's own timeout
  and memory and the caller's event, and its answer is the reply to exactly this job, or 503.
\<close>

theorem invoke_runs_latest_version:
  assumes "db_wf db" and "f \<in> set (funcs db)" and "v \<in> set (functionVersions db)" and "ver_functionId v = fn_id f"
    and "\<forall>w \<in> set (functionVersions db). ver_functionId w = fn_id f \<longrightarrow> versionNumber w \<le> versionNumber v"
  shows "fst (invoke no_faults (Inr True) dispatch meanwhile cx (fn_userId f) (fn_name f) event db) =
      (case dispatch \<lparr>job_imageTag = ver_imageTag v, job_event = event, job_timeoutMs = timeoutMs f,
                      job_memoryMb = memoryMb f\<rparr> of
         Inr outcome \<Rightarrow> if outcome = JNull then Inl (ServiceUnavailable (no_worker_message (fn_name f))) else Inr outcome
       | Inl _ \<Rightarrow> Inl (ServiceUnavailable (no_worker_message (fn_name f))))"
proof -
  have "latestVersion (fn_id f) db = Some v" using latestVersion_eqI assms by simp
  from invoke_found [OF get_function_row [OF assms(1,2)] _ this]
  show ?thesis by (simp add: invoke_answer_def job_of_def)
qed

text \<open>
  What is refused before any dispatch: an unknown function, or one of another account, is 404, a
  function without a built version 409, whatever the workers answer; nothing is written.
\<close>

theorem invoke_refuses:
  assumes "db_wf db"
  shows "((u, n) \<notin> fn_key ` set (funcs db) \<longrightarrow>
        invoke no_faults spare dispatch meanwhile cx u n event db = (Inl (function_not_found n), db))
    \<and> (\<forall>f \<in> set (funcs db). (\<forall>w \<in> set (functionVersions db). ver_functionId w \<noteq> fn_id f) \<longrightarrow>
        invoke no_faults spare dispatch meanwhile cx (fn_userId f) (fn_name f) event db =
          (Inl (Conflict (no_version_message (fn_name f))), db))"
proof (intro conjI ballI impI)
  assume "(u, n) \<notin> fn_key ` set (funcs db)"
  then have "function_findUnique u n db = None" by (simp add: function_findUnique_None)
  then show "invoke no_faults spare dispatch meanwhile cx u n event db = (Inl (function_not_found n), db)"
    by (simp add: invoke_not_found get_function_def)
next
  fix f
  assume f: "f \<in> set (funcs db)" "\<forall>w \<in> set (functionVersions db). ver_functionId w \<noteq> fn_id f"
  show "invoke no_faults spare dispatch meanwhile cx (fn_userId f) (fn_name f) event db =
      (Inl (Conflict (no_version_message (fn_name f))), db)"
    by (rule invoke_no_version [OF get_function_row [OF assms f(1)]]) (use f(2) in \<open>simp_all add: latestVersion_None\<close>)
qed


text \<open>
  The response and the log agree: whatever value the dispatcher returned, the header
  \<open>X-Function-Error\<close> is absent exactly if the row written says SUCCESS, is \<open>Timeout\<close> exactly if it
  says TIMEOUT and \<open>Unhandled\<close> if it says ERROR; the row never says NO_WORKER when an outcome is
  returned; the HTTP status is 200 in all these cases.
\<close>

theorem invoke_response_agrees_with_log:
  assumes "invoke F spare dispatch meanwhile cx u name event db = (Inr out, logged row (meanwhile db))"
  shows "resp_status (invoke_response out) = 200 \<and> inv_status row \<noteq> InvNoWorker
    \<and> resp_functionError (invoke_response out) =
      (case inv_status row of InvSuccess \<Rightarrow> None | InvTimeout \<Rightarrow> Some ''Timeout'' | _ \<Rightarrow> Some ''Unhandled'')"
proof (cases rule: invoke_cases [of F u name db spare dispatch meanwhile cx event])
  case (found f v)
  have spare: "spare = Inr True" and rep: "dispatch (job_of f v event) = Inr out" and out: "out \<noteq> JNull"
    using found(4) assms by (auto simp: invoke_answer_def split: sum.splits bool.splits if_splits)
  let ?row = "invoke_row cx (fn_id f) (ver_id v) spare (dispatch (job_of f v event))"
  have "store_row F ?row (meanwhile db) = logged row (meanwhile db)" using found(4) assms by simp
  then have "?row = Some row" by (rule store_row_logged)
  then have "inv_status row = recorded_status out"
    using spare rep out by (auto simp: invoke_row_def split: json.splits dest!: invocation_data_columns)
  then show ?thesis by (simp add: invoke_response_def recorded_status_def Let_def)
qed (use assms in simp_all)

text \<open>
  C22. The metrics of a function summarise its invocations of the last hour: the total counts them,
  the error rate lies between 0 and 1 and is 0 exactly if all succeeded; the latency percentiles
  are absent exactly if there are none, are ordered, and lie between the shortest and the
  longest duration.
\<close>

theorem getMetricsSummary_spec:
  assumes "function_findUnique u name db = Some f"
    and "getMetricsSummary no_faults now u name db = Inr m"
    and "rows = filter (\<lambda>i. inv_functionId i = fn_id f \<and> now < inv_createdAt i + HOUR_MS) (invocations db)"
  shows "totalInvocations m = length rows \<and> 0 \<le> errorRate m \<and> errorRate m \<le> 1
    \<and> (errorRate m = 0 \<longleftrightarrow> (\<forall>i \<in> set rows. inv_status i = InvSuccess))
    \<and> (if rows = [] then latencyMsP50 m = None \<and> latencyMsP95 m = None \<and> latencyMsP99 m = None
       else (\<exists>a b c. latencyMsP50 m = Some a \<and> latencyMsP95 m = Some b \<and> latencyMsP99 m = Some c
          \<and> of_int (Min (durationMs ` set rows)) \<le> a \<and> a \<le> b \<and> b \<le> c
          \<and> c \<le> of_int (Max (durationMs ` set rows))))"
proof -
  have m: "m = summary_of rows"
    using assms by (simp add: getMetricsSummary_def get_function_def in_window_def [abs_def])
  have "\<exists>a b c. percentile_cont (50 / 100) xs = Some a \<and> percentile_cont (95 / 100) xs = Some b
      \<and> percentile_cont (99 / 100) xs = Some c \<and> of_int (Min (set xs)) \<le> a \<and> a \<le> b \<and> b \<le> c
      \<and> c \<le> of_int (Max (set xs))" if "xs \<noteq> []" for xs
    using percentile_cont_mono [OF that, of "50 / 100" "95 / 100"] percentile_cont_mono [OF that, of "95 / 100" "99 / 100"]
      percentile_cont_range [OF that, of "50 / 100"] percentile_cont_range [OF that, of "99 / 100"] by force
  from this [of "map durationMs rows"] show ?thesis
    using error_rate_bounds [of rows] error_rate_zero [of rows]
    by (simp add: m summary_of_def percentile_cont_def)
qed

section \<open>Witnesses\<close>

text \<open>Two accounts that both have a function \<open>f\<close>; the function of the first has two versions.\<close>

definition demo_fn :: "string \<Rightarrow> string \<Rightarrow> func" where
  "demo_fn i u = \<lparr>fn_id = i, fn_userId = u, fn_name = ''f'', memoryMb = 128, timeoutMs = 3000, fn_createdAt = 1\<rparr>"

definition demo_ver :: "string \<Rightarrow> nat \<Rightarrow> function_version" where
  "demo_ver i n = \<lparr>ver_id = i, ver_functionId = ''f1'', versionNumber = n, ver_imageTag = i, ver_createdAt = n\<rparr>"

definition demo_account :: "string \<Rightarrow> user" where
  "demo_account i = \<lparr>user_id = i, email = i, passwordHash = [], user_createdAt = 0\<rparr>"

definition demo_cx :: invoke_ctx where
  "demo_cx = \<lparr>ctx_invId = ''i9'', ctx_requestId = ''r9'', ctx_now = 9, ctx_start = 0, ctx_end = 5\<rparr>"

definition demo_db :: db where
  "demo_db =
     \<lparr>users = [demo_account ''u1'', demo_account ''u2''], apiKeys = [],
      funcs = [demo_fn ''f1'' ''u1'', demo_fn ''f2'' ''u2''],
      functionVersions = [demo_ver ''v1'' 1, demo_ver ''v2'' 2], builds = [],
      invocations = [attempt_row (demo_cx\<lparr>ctx_invId := ''i1'', ctx_requestId := ''r1''\<rparr>) (demo_fn ''f1'' ''u1'')
        (demo_ver ''v1'' 1) InvSuccess 7 None]\<rparr>"

lemmas demo_db_defs = demo_db_def demo_fn_def demo_ver_def demo_account_def demo_cx_def attempt_row_def

lemma demo_db_wf: "db_wf demo_db" and demo_refs: "refs_ok demo_db" and demo_limits: "limits_ok demo_db"
  by (simp_all add: demo_db_defs db_wf_def wf_defs refs_ok_def limits_ok_def name_pattern_def name_char_def)

lemma demo_find: "function_findUnique ''u1'' ''f'' demo_db = Some (demo_fn ''f1'' ''u1'')"
  by (simp add: demo_db_defs function_findUnique_def)

lemma demo_latest: "latestVersion ''f1'' demo_db = Some (demo_ver ''v2'' 2)"
  by (simp add: demo_db_defs latestVersion_def)

lemma demo_recordable: "recordable demo_cx (demo_fn ''f1'' ''u1'') (demo_ver ''v2'' 2) demo_db"
  by (simp add: demo_db_defs recordable_def)

definition demo_reply :: "job \<Rightarrow> string + json" where
  "demo_reply j = Inr (JObj (outcome_success (JStr (job_imageTag j)) 42))"

text \<open>Witness of \<open>tenant_writes_isolated\<close>: the first account works, the second sees no change.\<close>

theorem tenant_writes_isolated_witness:
  "tenant_view ''u2'' (snd (remove_function no_faults ''u1'' ''f'' demo_db)) = tenant_view ''u2'' demo_db
   \<and> tenant_view ''u2'' (snd (invoke no_faults (Inr True) demo_reply (\<lambda>d. d) demo_cx ''u1'' ''f'' None demo_db))
     = tenant_view ''u2'' demo_db"
  using tenant_writes_isolated [OF demo_db_wf demo_refs, of "''u2''" "''u1''" "\<lambda>d. d" no_faults _ _ _ "''f''"
      "Inr True" demo_reply demo_cx None] by simp

text \<open>Witness of \<open>register_function_spec\<close>: a name in use, and a new one.\<close>

theorem register_function_spec_witness:
  "\<exists>r db'. register_function no_faults ''f3'' 5 ''u1'' \<lparr>rf_name = ''g'', rf_memoryMb = None, rf_timeoutMs = None\<rparr>
       demo_db = (r, db')
     \<and> (\<exists>f. r = Inr f \<and> memoryMb f = 128 \<and> get_function no_faults ''u1'' ''g'' db' = Inr f)"
proof -
  let ?dto = "\<lparr>rf_name = ''g'', rf_memoryMb = None, rf_timeoutMs = None\<rparr>"
  obtain r db' where r: "register_function no_faults ''f3'' 5 ''u1'' ?dto demo_db = (r, db')" by fastforce
  have "''u1'' \<in> user_id ` set (users demo_db)" "''f3'' \<notin> fn_id ` set (funcs demo_db)"
    "(''u1'', ''g'') \<notin> fn_key ` set (funcs demo_db)" by (simp_all add: demo_db_defs)
  with register_function_spec [OF demo_db_wf _ _ r] show ?thesis using r by (auto simp: or_else_def)
qed

text \<open>Witness of C19: a body without limits, and two dispatchers that differ on a job of 1 MB.\<close>

theorem function_limits_witness:
  "limits_ok (snd (functions_register demo_crypto no_faults (\<lambda>_. None) ''f3'' 5 None
       (JObj [(''name'', JStr ''g'')]) demo_db))
   \<and> invoke no_faults (Inr True) demo_reply (\<lambda>d. d) demo_cx ''u1'' ''f'' None demo_db =
     invoke no_faults (Inr True) (\<lambda>j. if job_memoryMb j = 1 then Inl [] else demo_reply j) (\<lambda>d. d) demo_cx
       ''u1'' ''f'' None demo_db"
proof -
  have "\<forall>j. job_memoryMb j \<in> {64..3008} \<and> job_timeoutMs j \<in> {100..60000} \<longrightarrow>
      demo_reply j = (if job_memoryMb j = 1 then Inl [] else demo_reply j)" by auto
  with function_limits [OF demo_limits, of demo_crypto no_faults "\<lambda>_. None" "''f3''" 5 None "JObj [(''name'', JStr ''g'')]"
      "''f''" demo_reply "\<lambda>j. if job_memoryMb j = 1 then Inl [] else demo_reply j" "Inr True" "\<lambda>d. d" demo_cx "''u1''" None]
  show ?thesis by blast
qed

text \<open>Witness of \<open>remove_function_spec\<close>: the first account removes its function.\<close>

theorem remove_function_spec_witness:
  "\<exists>db'. remove_function no_faults ''u1'' ''f'' demo_db = (Inr (), db') \<and> funcs db' = [demo_fn ''f2'' ''u2'']
     \<and> functionVersions db' = [] \<and> map inv_id (invocations db') = []"
proof -
  obtain r db' where r: "remove_function no_faults ''u1'' ''f'' demo_db = (r, db')" by fastforce
  from remove_function_spec [OF demo_db_wf r] show ?thesis using r demo_find by (auto simp: demo_db_defs)
qed

text \<open>Witness of C20: version 2 runs.\<close>

theorem invoke_runs_latest_version_witness:
  "fst (invoke no_faults (Inr True) demo_reply (\<lambda>d. d) demo_cx ''u1'' ''f'' None demo_db) =
     Inr (JObj (outcome_success (JStr ''v2'') 42))"
  using invoke_runs_latest_version [OF demo_db_wf, of "demo_fn ''f1'' ''u1''" "demo_ver ''v2'' 2" demo_reply
      "\<lambda>d. d" demo_cx None]
  by (simp add: demo_db_defs demo_reply_def)

text \<open>Witness of \<open>invoke_refuses\<close>: an unknown name, and the function of the second account, which has no version.\<close>

theorem invoke_refuses_witness:
  "invoke no_faults (Inr True) demo_reply (\<lambda>d. d) demo_cx ''u1'' ''g'' None demo_db = (Inl (function_not_found ''g''), demo_db)
   \<and> invoke no_faults (Inr True) demo_reply (\<lambda>d. d) demo_cx ''u2'' ''f'' None demo_db =
     (Inl (Conflict (no_version_message ''f'')), demo_db)"
proof -
  have g: "(''u1'', ''g'') \<notin> fn_key ` set (funcs demo_db)" and f: "demo_fn ''f2'' ''u2'' \<in> set (funcs demo_db)"
    and v: "\<forall>w \<in> set (functionVersions demo_db). ver_functionId w \<noteq> fn_id (demo_fn ''f2'' ''u2'')"
    by (simp_all add: demo_db_defs)
  have n: "fn_userId (demo_fn ''f2'' ''u2'') = ''u2''" "fn_name (demo_fn ''f2'' ''u2'') = ''f''"
    by (simp_all add: demo_fn_def)
  note * = invoke_refuses [OF demo_db_wf, of "''u1''" "''g''" "Inr True" demo_reply "\<lambda>d. d" demo_cx None]
  show ?thesis
    using conjunct1 [OF *, THEN mp, OF g] conjunct2 [OF *, THEN bspec, OF f, THEN mp, OF v] unfolding n by (rule conjI)
qed


text \<open>Witness of \<open>invoke_response_agrees_with_log\<close>: the same invocation.\<close>

theorem invoke_response_agrees_with_log_witness:
  "\<exists>out row. invoke no_faults (Inr True) demo_reply (\<lambda>d. d) demo_cx ''u1'' ''f'' None demo_db = (Inr out, logged row demo_db)
     \<and> inv_status row = InvSuccess \<and> resp_functionError (invoke_response out) = None"
proof -
  have "get_function no_faults ''u1'' ''f'' demo_db = Inr (demo_fn ''f1'' ''u1'')"
    "latestVersion (fn_id (demo_fn ''f1'' ''u1'')) demo_db = Some (demo_ver ''v2'' 2)"
    using demo_find demo_latest by (simp_all add: get_function_def demo_fn_def)
  then have i: "invoke no_faults (Inr True) demo_reply (\<lambda>d. d) demo_cx ''u1'' ''f'' None demo_db =
      (Inr (JObj (outcome_success (JStr ''v2'') 42)),
       logged (attempt_row demo_cx (demo_fn ''f1'' ''u1'') (demo_ver ''v2'' 2) InvSuccess 42 None) demo_db)"
    using store_attempt [OF demo_recordable, of InvSuccess 42 None]
      invocation_data_attempt [of 42 "Some JNull" None demo_cx "demo_fn ''f1'' ''u1''" "demo_ver ''v2'' 2" InvSuccess]
    by (simp add: invoke_found invoke_answer_def invoke_row_def demo_reply_def job_of_def int32_def demo_ver_def)
  from invoke_response_agrees_with_log [where meanwhile = "\<lambda>d. d", OF i] i show ?thesis
    by (auto simp: attempt_row_def)
qed

text \<open>Witness of C22: one invocation of 7 ms in the last hour.\<close>

theorem getMetricsSummary_spec_witness:
  "\<exists>m. getMetricsSummary no_faults 10 ''u1'' ''f'' demo_db = Inr m \<and> totalInvocations m = 1 \<and> errorRate m = 0
     \<and> (\<exists>a c. latencyMsP50 m = Some a \<and> latencyMsP99 m = Some c \<and> 7 \<le> a \<and> c \<le> 7)"
proof -
  define m where "m = summary_of (filter (in_window 10 ''f1'') (invocations demo_db))"
  have m: "getMetricsSummary no_faults 10 ''u1'' ''f'' demo_db = Inr m"
    using demo_find by (simp add: getMetricsSummary_def get_function_def m_def demo_fn_def)
  have rows: "filter (\<lambda>i. inv_functionId i = fn_id (demo_fn ''f1'' ''u1'') \<and> 10 < inv_createdAt i + HOUR_MS)
      (invocations demo_db) = invocations demo_db" by (simp add: demo_db_defs HOUR_MS_def)
  from getMetricsSummary_spec [OF demo_find m rows [symmetric]] show ?thesis using m by (auto simp: demo_db_defs)
qed

end
