(* ===== verification/Object_Storage.thy ===== *)
theory Object_Storage
  imports MC_Prelude
begin

text \<open>
  \<open>src/storage/object-storage.service.ts\<close>, a thin wrapper around the S3 API. The S3 client is a
  parameter: a record of the commands the wrapper sends, over an unknown state of which only the
  stored objects are visible. Bodies are strings of bytes; a download arrives in chunks.
\<close>

section \<open>The S3 client\<close>

record 's s3 =
  s3_objects :: "'s \<Rightarrow> string \<Rightarrow> string \<rightharpoonup> string"
  s3_putObject :: "string \<Rightarrow> string \<Rightarrow> string \<Rightarrow> 's \<Rightarrow> (string + unit) \<times> 's"
  s3_getObject :: "string \<Rightarrow> string \<Rightarrow> 's \<Rightarrow> (string + string list) \<times> 's"
  s3_createBucket :: "string \<Rightarrow> 's \<Rightarrow> (string + unit) \<times> 's"

definition store_object :: "string \<Rightarrow> string \<Rightarrow> string \<Rightarrow> (string \<Rightarrow> string \<rightharpoonup> string) \<Rightarrow> string \<Rightarrow> string \<rightharpoonup> string" where
  "store_object b k body objs = objs(b := (objs b)(k \<mapsto> body))"

text \<open>
  An accepted \<open>PutObject\<close> replaces the object, a rejected one may or may not have; an answered
  \<open>GetObject\<close> delivers the object in chunks; creating a bucket leaves every object in place. Any
  command may be rejected.
\<close>

locale s3_service =
  fixes S :: "'s s3"
  assumes put_Inr: "s3_putObject S b k body s = (Inr u, s') \<Longrightarrow> s3_objects S s' = store_object b k body (s3_objects S s)"
    and put_Inl: "s3_putObject S b k body s = (Inl e, s') \<Longrightarrow>
      s3_objects S s' \<in> {s3_objects S s, store_object b k body (s3_objects S s)}"
    and get_objects: "s3_getObject S b k s = (r, s') \<Longrightarrow> s3_objects S s' = s3_objects S s"
    and get_Inr: "s3_getObject S b k s = (Inr chunks, s') \<Longrightarrow> s3_objects S s b k = Some (concat chunks)"
    and create_objects: "s3_createBucket S b s = (q, s') \<Longrightarrow> s3_objects S s' = s3_objects S s"

section \<open>ObjectStorageService\<close>

record storage_config =
  bucket :: string
  isMinio :: bool

text \<open>The constructor, from the environment.\<close>

definition storage_config :: "string option \<Rightarrow> string option \<Rightarrow> storage_config" where
  "storage_config S3_BUCKET S3_ENDPOINT =
     \<lparr>bucket = (case S3_BUCKET of Some b \<Rightarrow> b | None \<Rightarrow> ''mini-cloud-function-source''),
      isMinio = (case S3_ENDPOINT of Some e \<Rightarrow> e \<noteq> [] | None \<Rightarrow> False)\<rparr>"

text \<open>\<open>onModuleInit\<close>; \<^term>\<open>Inl e\<close> is a throw, which ends the start-up.\<close>

definition storage_init :: "'s s3 \<Rightarrow> storage_config \<Rightarrow> 's \<Rightarrow> (string + unit) \<times> 's" where
  "storage_init S cfg s =
     (if \<not> isMinio cfg then (Inr (), s)
      else case s3_createBucket S (bucket cfg) s of
             (Inr u, s') \<Rightarrow> (Inr (), s')
           | (Inl code, s') \<Rightarrow>
               if code \<noteq> ''BucketAlreadyOwnedByYou'' \<and> code \<noteq> ''BucketAlreadyExists'' then (Inl code, s')
               else (Inr (), s'))"

definition putObject :: "'s s3 \<Rightarrow> storage_config \<Rightarrow> string \<Rightarrow> string \<Rightarrow> 's \<Rightarrow> (string + unit) \<times> 's" where
  "putObject S cfg key body s = s3_putObject S (bucket cfg) key body s"

definition getObject :: "'s s3 \<Rightarrow> storage_config \<Rightarrow> string \<Rightarrow> 's \<Rightarrow> (string + string) \<times> 's" where
  "getObject S cfg key s =
     (case s3_getObject S (bucket cfg) key s of
        (Inl e, s') \<Rightarrow> (Inl e, s')
      | (Inr chunks, s') \<Rightarrow> (Inr (concat chunks), s'))"

section \<open>The interface its clients rely on\<close>

locale object_storage =
  fixes put :: "string \<Rightarrow> string \<Rightarrow> 's \<Rightarrow> (string + unit) \<times> 's"
    and get :: "string \<Rightarrow> 's \<Rightarrow> (string + string) \<times> 's"
    and stored :: "'s \<Rightarrow> string \<rightharpoonup> string"
  assumes put_stored: "put k body s = (Inr u, s') \<Longrightarrow> stored s' = (stored s)(k \<mapsto> body)"
    and put_failed: "put k body s = (Inl e, s') \<Longrightarrow> stored s' \<in> {stored s, (stored s)(k \<mapsto> body)}"
    and get_frame: "get k s = (r, s') \<Longrightarrow> stored s' = stored s"
    and get_stored: "get k s = (Inr body, s') \<Longrightarrow> stored s k = Some body"
begin

text \<open>What was uploaded under a key comes back, whatever is uploaded under other keys meanwhile.\<close>

lemma get_after_put:
  assumes "put k body s = (Inr u, s1)" and "stored s2 k = stored s1 k" and "get k s2 = (Inr got, s3)"
  shows "got = body"
  using put_stored [OF assms(1)] get_stored [OF assms(3)] assms(2) by simp

lemma put_other:
  assumes "put k body s = (r, s')" and "j \<noteq> k"
  shows "stored s' j = stored s j"
  using put_stored [of k body s _ s'] put_failed [of k body s _ s'] assms by (cases r) fastforce+

end

sublocale s3_service \<subseteq> os: object_storage "putObject S cfg" "getObject S cfg" "\<lambda>s. s3_objects S s (bucket cfg)" for cfg
proof
  fix k body s u s'
  assume "putObject S cfg k body s = (Inr u, s')"
  then show "s3_objects S s' (bucket cfg) = (s3_objects S s (bucket cfg))(k \<mapsto> body)"
    using put_Inr by (auto simp: putObject_def store_object_def)
next
  fix k body s e s'
  assume "putObject S cfg k body s = (Inl e, s')"
  then show "s3_objects S s' (bucket cfg) \<in> {s3_objects S s (bucket cfg), (s3_objects S s (bucket cfg))(k \<mapsto> body)}"
    using put_Inl by (fastforce simp: putObject_def store_object_def)
next
  fix k s r s'
  assume "getObject S cfg k s = (r, s')"
  then show "s3_objects S s' (bucket cfg) = s3_objects S s (bucket cfg)"
    using get_objects by (auto simp: getObject_def split: prod.splits sum.splits)
next
  fix k s body s'
  assume "getObject S cfg k s = (Inr body, s')"
  then show "s3_objects S s (bucket cfg) k = Some body"
    using get_Inr by (auto simp: getObject_def split: prod.splits sum.splits)
qed

context s3_service
begin

lemma download_upload:
  assumes "putObject S cfg k body s = (Inr u, s1)"
    and "s3_objects S s2 (bucket cfg) k = s3_objects S s1 (bucket cfg) k"
    and "getObject S cfg k s2 = (Inr got, s3)"
  shows "got = body"
  using os.get_after_put [OF assms] .

lemma upload_other:
  "putObject S cfg k body s = (r, s') \<Longrightarrow> j \<noteq> k \<Longrightarrow> s3_objects S s' (bucket cfg) j = s3_objects S s (bucket cfg) j"
  by (rule os.put_other)

end

section \<open>A store in memory\<close>

text \<open>A bucket store that keeps every object and delivers it in two chunks.\<close>

definition mem_s3 :: "(string \<Rightarrow> string \<rightharpoonup> string) s3" where
  "mem_s3 =
     \<lparr>s3_objects = (\<lambda>s. s),
      s3_putObject = (\<lambda>b k body s. (Inr (), store_object b k body s)),
      s3_getObject = (\<lambda>b k s. (case s b k of None \<Rightarrow> Inl ''NoSuchKey'' | Some body \<Rightarrow> Inr [take 2 body, drop 2 body], s)),
      s3_createBucket = (\<lambda>b s. (Inr (), s))\<rparr>"

interpretation mems3: s3_service mem_s3
  by unfold_locales (auto simp: mem_s3_def split: option.splits)

end
