(* ===== verification/Build.thy ===== *)
theory Build
  imports Functions Object_Storage
begin

text \<open>
  From an uploaded source to a version: \<open>src/build/\<close> without its queue. \<open>BuildService\<close> owns version
  numbers and the record of the outcome, a \<open>BuildExecutor\<close> turns source into an image; the two
  executors of the repository are modelled and interpret the interface \<open>build_executor\<close>. Docker,
  CodeBuild and the text of Prisma's messages are parameters. A build takes long; what other
  requests do to the database meanwhile is a parameter too.
\<close>

section \<open>Executors (build-executor.ts)\<close>

record build_params =
  bp_sourceObjectKey :: string
  bp_functionName :: string
  bp_versionNumber :: nat

section \<open>LocalDockerBuildExecutor\<close>

definition BASE_RUNTIME_IMAGE :: string where
  "BASE_RUNTIME_IMAGE = ''mini-cloud-runtime:latest''"

definition newline :: char where
  "newline = CHR 0x0A"

definition dockerfile :: string where
  "dockerfile = ''FROM '' @ BASE_RUNTIME_IMAGE @ [newline] @ ''COPY handler.js /var/task/handler.js'' @ [newline]"

text \<open>
  What \<open>docker build\<close> does with its arguments and the files it can read: exit code (\<^term>\<open>None\<close> when
  killed by a signal) and stderr.
\<close>

type_synonym docker_builder = "string list \<Rightarrow> files \<Rightarrow> int option \<times> string"

definition last_chars :: "nat \<Rightarrow> string \<Rightarrow> string" where
  "last_chars n s = drop (length s - n) s"

definition exit_code_text :: "int option \<Rightarrow> string" where
  "exit_code_text code = (case code of Some c \<Rightarrow> string_of_int c | None \<Rightarrow> ''null'')"

definition dockerBuild :: "docker_builder \<Rightarrow> string \<Rightarrow> string \<Rightarrow> files \<Rightarrow> string + unit" where
  "dockerBuild D contextDir imageTag fs =
     (let (code, stderr) = D [''build'', ''-t'', imageTag, contextDir] fs
      in if code = Some 0 then Inr ()
         else Inl (''docker build exited with code '' @ exit_code_text code @ '': '' @ last_chars 1000 stderr))"

definition local_image_ref :: "string \<Rightarrow> nat \<Rightarrow> string" where
  "local_image_ref functionName n =
     ''mini-cloud-fn-'' @ functionName @ '':'' @ string_of_nat n"

text \<open>\<open>workDir\<close> is the directory \<open>mkdtempSync\<close> made; the \<open>finally\<close> block removes it on every path.\<close>

definition local_build ::
  "'s s3 \<Rightarrow> storage_config \<Rightarrow> docker_builder \<Rightarrow> string \<Rightarrow> build_params \<Rightarrow> files \<times> 's \<Rightarrow> (string + string) \<times> files \<times> 's" where
  "local_build S cfg D workDir p st =
     (let (fs, s) = st;
          (result, fs', s') =
            (case getObject S cfg (bp_sourceObjectKey p) s of
               (Inl e, s') \<Rightarrow> (Inl e, fs, s')
             | (Inr source, s') \<Rightarrow>
                 (let fs1 = fs(path_join workDir ''handler.js'' \<mapsto> source);
                      fs2 = fs1(path_join workDir ''Dockerfile'' \<mapsto> dockerfile);
                      imageRef = local_image_ref (bp_functionName p) (bp_versionNumber p)
                  in case dockerBuild D workDir imageRef fs2 of
                       Inl m \<Rightarrow> (Inl m, fs2, s')
                     | Inr _ \<Rightarrow> (Inr imageRef, fs2, s')))
      in (result, rm_recursive workDir fs', s'))"

section \<open>CodeBuildExecutor\<close>

definition POLL_INTERVAL_MS :: nat where
  "POLL_INTERVAL_MS = 3000"

definition MAX_POLL_ATTEMPTS :: nat where
  "MAX_POLL_ATTEMPTS = 100"

record codebuild_env =
  CODEBUILD_PROJECT_NAME :: "string option"
  S3_BUCKET :: "string option"
  FUNCTIONS_ECR_REPO_URI :: "string option"
  RUNTIME_IMAGE_URI :: "string option"

text \<open>
  The client: \<open>StartBuild\<close> answers the id of the new build if it has one; \<open>BatchGetBuilds\<close>, in the
  given attempt, the first build found, and of it the status, where these are defined. Both may
  throw.
\<close>

record codebuild =
  cb_startBuild :: "string \<Rightarrow> (string \<times> string) list \<Rightarrow> string + string option"
  cb_batchGetBuilds :: "string \<Rightarrow> nat \<Rightarrow> string + string option option"

definition present :: "string option \<Rightarrow> bool" where
  "present s \<longleftrightarrow> s \<noteq> None \<and> s \<noteq> Some []"

definition codebuild_image_tag :: "string \<Rightarrow> nat \<Rightarrow> string" where
  "codebuild_image_tag functionName n = functionName @ ''-v'' @ string_of_nat n"

definition codebuild_image_ref :: "string \<Rightarrow> string \<Rightarrow> nat \<Rightarrow> string" where
  "codebuild_image_ref repo functionName n = repo @ '':'' @ codebuild_image_tag functionName n"

text \<open>The polling loop; \<open>left\<close> attempts remain.\<close>

fun poll_build :: "codebuild \<Rightarrow> string \<Rightarrow> string \<Rightarrow> nat \<Rightarrow> nat \<Rightarrow> string + string" where
  "poll_build B buildId imageRef attempt 0 =
     Inl (''CodeBuild '' @ buildId @ '' did not finish within the poll window'')"
| "poll_build B buildId imageRef attempt (Suc left) =
     (case cb_batchGetBuilds B buildId attempt of
        Inl m \<Rightarrow> Inl m
      | Inr None \<Rightarrow> poll_build B buildId imageRef (Suc attempt) left
      | Inr (Some status) \<Rightarrow>
          if status = Some ''SUCCEEDED'' then Inr imageRef
          else if present status \<and> status \<noteq> Some ''IN_PROGRESS''
          then Inl (''CodeBuild '' @ buildId @ '' ended with status '' @ the status)
          else poll_build B buildId imageRef (Suc attempt) left)"

definition codebuild_build :: "codebuild_env \<Rightarrow> codebuild \<Rightarrow> build_params \<Rightarrow> string + string" where
  "codebuild_build env B p =
     (if \<not> present (CODEBUILD_PROJECT_NAME env) \<or> \<not> present (S3_BUCKET env)
         \<or> \<not> present (FUNCTIONS_ECR_REPO_URI env) \<or> \<not> present (RUNTIME_IMAGE_URI env)
      then Inl (''CodeBuildExecutor requires CODEBUILD_PROJECT_NAME, S3_BUCKET, FUNCTIONS_ECR_REPO_URI, ''
        @ ''and RUNTIME_IMAGE_URI'')
      else
        (let imageTag = codebuild_image_tag (bp_functionName p) (bp_versionNumber p);
             repo = the (FUNCTIONS_ECR_REPO_URI env);
             imageRef = repo @ '':'' @ imageTag
         in case cb_startBuild B (the (CODEBUILD_PROJECT_NAME env))
                [(''SOURCE_BUCKET'', the (S3_BUCKET env)), (''SOURCE_KEY'', bp_sourceObjectKey p),
                 (''RUNTIME_IMAGE_URI'', the (RUNTIME_IMAGE_URI env)), (''IMAGE_URI'', repo),
                 (''IMAGE_TAG'', imageTag)] of
              Inl m \<Rightarrow> Inl m
            | Inr buildId \<Rightarrow>
                if \<not> present buildId then Inl ''CodeBuild did not return a build id''
                else poll_build B (the buildId) imageRef 0 MAX_POLL_ATTEMPTS))"

section \<open>BuildService\<close>

definition source_object_key :: "string \<Rightarrow> string \<Rightarrow> string" where
  "source_object_key functionId uuid = ''functions/'' @ functionId @ ''/'' @ uuid @ ''.js''"

definition new_build :: "string \<Rightarrow> nat \<Rightarrow> string \<Rightarrow> string \<Rightarrow> build" where
  "new_build newId now functionId key =
     \<lparr>build_id = newId, build_functionId = functionId, sourceObjectKey = key, build_status = PENDING,
      build_imageTag = None, build_errorMessage = None, build_createdAt = now, startedAt = None,
      finishedAt = None, publishedToStreamAt = None\<rparr>"

definition submitBuild ::
  "'s s3 \<Rightarrow> storage_config \<Rightarrow> faults \<Rightarrow> string \<Rightarrow> string \<Rightarrow> nat \<Rightarrow> string \<Rightarrow> string \<Rightarrow> 's \<times> db \<Rightarrow>
   (http_exception + build) \<times> 's \<times> db" where
  "submitBuild S cfg F uuid newId now functionId source st =
     (let (s, db) = st; key = source_object_key functionId uuid in
      case putObject S cfg key source s of
        (Inl _, s') \<Rightarrow> (Inl InternalError, s', db)
      | (Inr _, s') \<Rightarrow>
          (let b = new_build newId now functionId key in
           case db_write F BuildCreate (build_create b db) of
             Inl _ \<Rightarrow> (Inl InternalError, s', db)
           | Inr db' \<Rightarrow> (Inr b, s', db')))"

definition getBuild :: "faults \<Rightarrow> string \<Rightarrow> string \<Rightarrow> db \<Rightarrow> http_exception + build" where
  "getBuild F functionId buildId db =
     (case db_read F BuildFindUnique (build_find buildId db) of
        Inl _ \<Rightarrow> Inl InternalError
      | Inr b \<Rightarrow>
          if (case b of None \<Rightarrow> True | Some b \<Rightarrow> build_functionId b \<noteq> functionId)
          then Inl (NotFound (''Build '' @ quoted buildId @ '' not found''))
          else Inr (the b))"

definition listVersions :: "faults \<Rightarrow> string \<Rightarrow> db \<Rightarrow> http_exception + function_version list" where
  "listVersions F functionId db =
     (case db_read F VersionFindMany
        (sort_key versionNumber (filter (\<lambda>v. ver_functionId v = functionId) (functionVersions db))) of
        Inl _ \<Rightarrow> Inl InternalError
      | Inr vs \<Rightarrow> Inr vs)"

definition nextVersionNumber :: "string \<Rightarrow> db \<Rightarrow> nat" where
  "nextVersionNumber functionId db =
     (case latestVersion functionId db of Some v \<Rightarrow> versionNumber v | None \<Rightarrow> 0) + 1"

text \<open>The two writes of the transaction, and the write of the \<open>catch\<close> block.\<close>

definition commit_version ::
  "string \<Rightarrow> nat \<Rightarrow> build \<Rightarrow> nat \<Rightarrow> string \<Rightarrow> db \<Rightarrow> db_error + db" where
  "commit_version verId now b n imageRef db =
     (case version_create \<lparr>ver_id = verId, ver_functionId = build_functionId b, versionNumber = n,
                           ver_imageTag = imageRef, ver_createdAt = now\<rparr> db of
        Inl e \<Rightarrow> Inl e
      | Inr db1 \<Rightarrow>
          build_update (build_id b)
            (\<lambda>x. x\<lparr>build_status := SUCCESS, build_imageTag := Some imageRef, finishedAt := Some now\<rparr>) db1)"

definition mark_failed :: "faults \<Rightarrow> nat \<Rightarrow> string \<Rightarrow> string \<Rightarrow> db \<Rightarrow> (db_error + unit) \<times> db" where
  "mark_failed F now buildId m db =
     (case db_write F RunBuildMarkFailed
        (build_update buildId
           (\<lambda>x. x\<lparr>build_status := FAILED, build_errorMessage := Some m, finishedAt := Some now\<rparr>) db) of
        Inl e \<Rightarrow> (Inl e, db)
      | Inr db' \<Rightarrow> (Inr (), db'))"

text \<open>
  \<open>runBuild\<close>. \<open>dbMessage\<close> is the text of a database error, \<open>exec\<close> the injected executor, \<open>meanwhile\<close>
  what happens to the database while it runs; \<^term>\<open>Inl e\<close> is the exception of the \<open>catch\<close> block's
  own write.
\<close>

definition runBuild ::
  "faults \<Rightarrow> (db_error \<Rightarrow> string) \<Rightarrow> (build_params \<Rightarrow> string + string) \<Rightarrow> (db \<Rightarrow> db) \<Rightarrow> string \<Rightarrow> nat \<Rightarrow>
   build \<Rightarrow> db \<Rightarrow> (db_error + unit) \<times> db" where
  "runBuild F dbMessage exec meanwhile verId now b db =
     (let fail = (\<lambda>m. mark_failed F now (build_id b) m) in
      case db_read F RunBuildFindFunction (find (\<lambda>f. fn_id f = build_functionId b) (funcs db)) of
        Inl e \<Rightarrow> fail (dbMessage e) db
      | Inr None \<Rightarrow> fail (dbMessage P2025) db
      | Inr (Some fn) \<Rightarrow>
          (case db_read F RunBuildLatestVersion (nextVersionNumber (build_functionId b) db) of
             Inl e \<Rightarrow> fail (dbMessage e) db
           | Inr n \<Rightarrow>
               (case exec \<lparr>bp_sourceObjectKey = sourceObjectKey b, bp_functionName = fn_name fn, bp_versionNumber = n\<rparr> of
                  Inl m \<Rightarrow> fail m (meanwhile db)
                | Inr imageRef \<Rightarrow>
                    (case db_write F RunBuildCommit (commit_version verId now b n imageRef (meanwhile db)) of
                       Inl e \<Rightarrow> fail (dbMessage e) (meanwhile db)
                     | Inr db' \<Rightarrow> (Inr (), db')))))"

section \<open>BuildController\<close>

text \<open>\<open>file\<close> is the uploaded file, if there is one; the object store is threaded beside the database.\<close>

definition createVersion where
  "createVersion C S cfg F uuid newId now header name file st =
     (let (s, db) = st in
      case AuthGuard C F now header db of
        (Inl e, db1) \<Rightarrow> (Inl e, s, db1)
      | (Inr user, db1) \<Rightarrow>
          (case ScopesGuard [''functions:write''] user of
             Inl e \<Rightarrow> (Inl e, s, db1)
           | Inr _ \<Rightarrow>
               (case file of
                  None \<Rightarrow> (Inl (BadRequest (''Upload a source file under the '' @ quoted ''source'' @ '' field'')), s, db1)
                | Some source \<Rightarrow>
                    (case get_function F (principal_userId user) name db1 of
                       Inl e \<Rightarrow> (Inl e, s, db1)
                     | Inr fn \<Rightarrow>
                         (case submitBuild S cfg F uuid newId now (fn_id fn) source (s, db1) of
                            (Inl e, s', db') \<Rightarrow> (Inl e, s', db')
                          | (Inr b, s', db') \<Rightarrow> (Inr (build_id b, build_status b), s', db'))))))"

definition builds_getBuild where
  "builds_getBuild C F now header name buildId =
     scoped C F now header [''functions:read'']
       (\<lambda>user db'. (case get_function F (principal_userId user) name db' of
          Inl e \<Rightarrow> Inl e
        | Inr fn \<Rightarrow> getBuild F (fn_id fn) buildId db', db'))"

definition builds_listVersions where
  "builds_listVersions C F now header name =
     scoped C F now header [''functions:read'']
       (\<lambda>user db'. (case get_function F (principal_userId user) name db' of
          Inl e \<Rightarrow> Inl e
        | Inr fn \<Rightarrow> listVersions F (fn_id fn) db', db'))"

section \<open>The interface of an executor\<close>

text \<open>
  What \<open>BuildService\<close> relies on: a successful build is available under a reference that depends on
  the name and the version number only, and tells them apart.
\<close>

locale build_executor =
  fixes exec :: "build_params \<Rightarrow> string + string"
    and image_ref :: "string \<Rightarrow> nat \<Rightarrow> string"
  assumes exec_ref: "exec p = Inr ref \<Longrightarrow> ref = image_ref (bp_functionName p) (bp_versionNumber p)"
    and image_ref_inj: "image_ref f n = image_ref g m \<Longrightarrow> f = g \<and> n = m"
begin

lemma distinct_versions:
  assumes "exec p = Inr r" and "exec q = Inr r"
  shows "bp_functionName p = bp_functionName q \<and> bp_versionNumber p = bp_versionNumber q"
  by (rule image_ref_inj) (use exec_ref [OF assms(1)] exec_ref [OF assms(2)] in simp)

text \<open>The reference does not mention the account: equal names and numbers share it.\<close>

lemma shared_ref:
  assumes "exec p = Inr r" and "exec q = Inr r'" and "bp_functionName p = bp_functionName q"
    and "bp_versionNumber p = bp_versionNumber q"
  shows "r = r'"
  using exec_ref [OF assms(1)] exec_ref [OF assms(2)] assms(3,4) by simp

end

lemma digits_suffix_inj:
  assumes "xs @ c # string_of_nat n = ys @ c # string_of_nat m" and "\<not> is_digit c"
  shows "xs = ys \<and> n = m"
proof -
  have tw: "takeWhile is_digit (rev (zs @ c # string_of_nat k)) = rev (string_of_nat k)" for zs k
    using assms(2) string_of_nat_digits [of k]
    by (simp add: list_all_iff takeWhile_append)
  have "rev (string_of_nat n) = rev (string_of_nat m)"
    using tw [of xs n] tw [of ys m] assms(1) by metis
  then have "n = m" by simp
  with assms(1) show ?thesis by simp
qed

lemma local_image_ref_inj: "local_image_ref f n = local_image_ref g m \<Longrightarrow> f = g \<and> n = m"
  using digits_suffix_inj [of f "CHR '':''" n g m] by (simp add: local_image_ref_def is_digit_def)

lemma codebuild_image_ref_inj: "codebuild_image_ref r f n = codebuild_image_ref r g m \<Longrightarrow> f = g \<and> n = m"
  using digits_suffix_inj [of "f @ ''-''" "CHR ''v''" n "g @ ''-''" m]
  by (simp add: codebuild_image_ref_def codebuild_image_tag_def is_digit_def)

lemma local_build_ref:
  "local_build S cfg D w p st = (Inr ref, st') \<Longrightarrow>
   ref = local_image_ref (bp_functionName p) (bp_versionNumber p)"
  by (auto simp: local_build_def Let_def split: prod.splits sum.splits)

lemma poll_build_ref: "poll_build B i ref a n = Inr r \<Longrightarrow> r = ref"
  by (induction B i ref a n rule: poll_build.induct) (auto split: sum.splits option.splits if_splits)

lemma codebuild_build_ref:
  "codebuild_build env B p = Inr ref \<Longrightarrow>
   ref = codebuild_image_ref (the (FUNCTIONS_ECR_REPO_URI env)) (bp_functionName p) (bp_versionNumber p)"
  by (auto simp: codebuild_build_def Let_def codebuild_image_ref_def
      split: sum.splits if_splits dest!: poll_build_ref)

interpretation local_exec: build_executor "\<lambda>p. fst (local_build S cfg D w p st)" local_image_ref
  for S cfg D w st
proof
  fix p ref
  assume "fst (local_build S cfg D w p st) = Inr ref"
  then show "ref = local_image_ref (bp_functionName p) (bp_versionNumber p)"
    by (cases "local_build S cfg D w p st") (auto dest: local_build_ref)
qed (rule local_image_ref_inj)

interpretation codebuild_exec: build_executor "codebuild_build env B"
    "codebuild_image_ref (the (FUNCTIONS_ECR_REPO_URI env))"
  for env B
  by unfold_locales (auto dest: codebuild_build_ref codebuild_image_ref_inj)

text \<open>\<open>useFactory\<close> of build.module.ts.\<close>

definition choose_executor :: "string option \<Rightarrow> 'e \<Rightarrow> 'e \<Rightarrow> 'e" where
  "choose_executor BUILD_EXECUTOR local codebuild =
     (if BUILD_EXECUTOR = Some ''codebuild'' then codebuild else local)"

section \<open>Builds and versions\<close>

lemma build_update_Inr:
  "build_update i g db = Inr db' \<longleftrightarrow>
   i \<in> build_id ` set (builds db) \<and> db' = db\<lparr>builds := update_where (\<lambda>b. build_id b = i) g (builds db)\<rparr>"
  by (auto simp: build_update_def)

lemma commit_version_Inr:
  assumes "commit_version verId now b n ref db = Inr db'"
  shows "functionVersions db' = functionVersions db @ [\<lparr>ver_id = verId, ver_functionId = build_functionId b,
        versionNumber = n, ver_imageTag = ref, ver_createdAt = now\<rparr>]"
    and "builds db' = update_where (\<lambda>x. build_id x = build_id b)
        (\<lambda>x. x\<lparr>build_status := SUCCESS, build_imageTag := Some ref, finishedAt := Some now\<rparr>) (builds db)"
    and "build_id b \<in> build_id ` set (builds db)"
    and "(build_functionId b, n) \<notin> ver_key ` set (functionVersions db)"
    and "funcs db' = funcs db" and "invocations db' = invocations db" and "users db' = users db"
    and "apiKeys db' = apiKeys db"
  using assms
  by (auto simp: commit_version_def version_create_def build_update_Inr split: sum.splits if_splits)

lemma commit_version_wf:
  assumes "db_wf db" and "commit_version verId now b n ref db = Inr db'"
  shows "db_wf db'"
proof -
  obtain v db1 where "version_create v db = Inr db1"
    and u: "build_update (build_id b)
        (\<lambda>x. x\<lparr>build_status := SUCCESS, build_imageTag := Some ref, finishedAt := Some now\<rparr>) db1 = Inr db'"
    using assms(2) by (auto simp: commit_version_def split: sum.splits)
  then have "db_wf db1" using assms(1) version_create_wf by blast
  then show ?thesis by (rule build_update_wf [OF _ u]) simp_all
qed

lemma mark_failed_cases:
  assumes "mark_failed F now i m db = (r, db')"
  obtains (marked) "r = Inr ()" "i \<in> build_id ` set (builds db)"
      "db' = db\<lparr>builds := update_where (\<lambda>x. build_id x = i)
        (\<lambda>x. x\<lparr>build_status := FAILED, build_errorMessage := Some m, finishedAt := Some now\<rparr>) (builds db)\<rparr>"
  | (refused) e where "r = Inl e" "db' = db"
proof (cases "F RunBuildMarkFailed = None \<and> i \<in> build_id ` set (builds db)")
  case True
  then show thesis using assms marked by (auto simp: mark_failed_def build_update_def)
next
  case False
  then show thesis using assms refused by (auto simp: mark_failed_def build_update_def db_write_def split: option.splits)
qed

lemma mark_failed_wf:
  assumes "db_wf db"
  shows "db_wf (snd (mark_failed F now i m db))"
proof (cases "build_update i
    (\<lambda>x. x\<lparr>build_status := FAILED, build_errorMessage := Some m, finishedAt := Some now\<rparr>) db")
  case (Inr db')
  have "db_wf db'" by (rule build_update_wf [OF assms Inr]) simp_all
  with Inr assms show ?thesis by (simp add: mark_failed_def db_write_def split: option.split)
qed (use assms in \<open>simp add: mark_failed_def db_write_def split: option.split\<close>)

lemma runBuild_cases:
  assumes "runBuild F msg exec meanwhile verId now b db = (r, db')"
  obtains (committed) fn ref where "find (\<lambda>f. fn_id f = build_functionId b) (funcs db) = Some fn"
      "exec \<lparr>bp_sourceObjectKey = sourceObjectKey b, bp_functionName = fn_name fn,
             bp_versionNumber = nextVersionNumber (build_functionId b) db\<rparr> = Inr ref"
      "commit_version verId now b (nextVersionNumber (build_functionId b) db) ref (meanwhile db) = Inr db'"
      "r = Inr ()"
  | (failed) m d where "d \<in> {db, meanwhile db}" "mark_failed F now (build_id b) m d = (r, db')"
proof (cases "db_read F RunBuildFindFunction (find (\<lambda>f. fn_id f = build_functionId b) (funcs db))")
  case (Inl e)
  then show thesis using assms failed [of db "msg e"] by (simp add: runBuild_def)
next
  case (Inr f)
  then have Inr1: "F RunBuildFindFunction = None" and "f = find (\<lambda>f. fn_id f = build_functionId b) (funcs db)"
    by simp_all
  note f_eq = this(2) [symmetric]
  show thesis
  proof (cases f)
    case None
    with Inr1 f_eq show thesis using assms failed [of db "msg P2025"] by (simp add: runBuild_def)
  next
    case (Some fn)
    with f_eq have f: "find (\<lambda>f. fn_id f = build_functionId b) (funcs db) = Some fn" by simp
    let ?n = "nextVersionNumber (build_functionId b) db"
    let ?x = "exec \<lparr>bp_sourceObjectKey = sourceObjectKey b, bp_functionName = fn_name fn, bp_versionNumber = ?n\<rparr>"
    show thesis
    proof (cases "F RunBuildLatestVersion")
      case (Some m)
      with Inr1 f show thesis using assms failed [of db "msg (DbError m)"] by (simp add: runBuild_def db_read_def)
    next
      case v: None
      show thesis
      proof (cases ?x)
        case (Inl m)
        with Inr1 f v show thesis using assms failed [of "meanwhile db" m] by (simp add: runBuild_def)
      next
        case (Inr ref)
        show thesis
        proof (cases "db_write F RunBuildCommit (commit_version verId now b ?n ref (meanwhile db))")
          case (Inl e)
          with Inr1 f v Inr show thesis using assms failed [of "meanwhile db" "msg e"] by (simp add: runBuild_def)
        next
          case db': (Inr d)
          with Inr1 f v Inr show thesis using assms committed [of fn ref] by (simp add: runBuild_def)
        qed
      qed
    qed
  qed
qed

lemma runBuild_wf:
  assumes "db_wf db" and "db_wf (meanwhile db)"
  shows "db_wf (snd (runBuild F msg exec meanwhile verId now b db))"
proof (cases "runBuild F msg exec meanwhile verId now b db")
  case (Pair r db')
  then have "db_wf db'"
  proof (cases rule: runBuild_cases)
    case (failed m d)
    then show ?thesis using mark_failed_wf assms by (metis empty_iff insert_iff snd_conv)
  qed (rule commit_version_wf [OF assms(2)])
  with Pair show ?thesis by simp
qed

text \<open>The version numbers of a function are consecutive, from 1.\<close>

definition numbers :: "string \<Rightarrow> db \<Rightarrow> nat set" where
  "numbers fid db = versionNumber ` set (filter (\<lambda>v. ver_functionId v = fid) (functionVersions db))"

definition contiguous :: "string \<Rightarrow> db \<Rightarrow> bool" where
  "contiguous fid db \<longleftrightarrow> (\<exists>n. numbers fid db = {1..n})"

lemma numbers_finite [simp]: "finite (numbers fid db)"
  by (simp add: numbers_def)

lemma nextVersionNumber_Max: "nextVersionNumber fid db = Suc (if numbers fid db = {} then 0 else Max (numbers fid db))"
proof (cases "latestVersion fid db")
  case None
  then have "numbers fid db = {}" by (auto simp: latestVersion_None numbers_def)
  with None show ?thesis by (simp add: nextVersionNumber_def)
next
  case (Some v)
  from latestVersion_SomeD [OF Some]
  have "versionNumber v \<in> numbers fid db" "\<forall>n \<in> numbers fid db. n \<le> versionNumber v"
    by (auto simp: numbers_def)
  then have "Max (numbers fid db) = versionNumber v" "numbers fid db \<noteq> {}" by (auto intro: Max_eqI)
  with Some show ?thesis by (simp add: nextVersionNumber_def)
qed

lemma nextVersionNumber_fresh: "nextVersionNumber fid db \<notin> numbers fid db"
proof
  assume n: "nextVersionNumber fid db \<in> numbers fid db"
  then have "nextVersionNumber fid db \<le> Max (numbers fid db)" by (intro Max_ge) simp_all
  moreover have "nextVersionNumber fid db = Suc (Max (numbers fid db))"
    using n nextVersionNumber_Max [of fid db] by auto
  ultimately show False by simp
qed

lemma nextVersionNumber_above:
  assumes "w \<in> set (functionVersions db)" and "ver_functionId w = fid"
  shows "versionNumber w < nextVersionNumber fid db"
proof -
  have "versionNumber w \<in> numbers fid db" using assms by (simp add: numbers_def)
  then show ?thesis using nextVersionNumber_Max [of fid db] Max_ge [OF numbers_finite]
    by (auto simp: less_Suc_eq_le)
qed

lemma nextVersionNumber_contiguous:
  assumes "numbers fid db = {1..n}"
  shows "nextVersionNumber fid db = Suc n"
proof (cases "n = 0")
  case False
  then have "Max {1..n} = n" by (intro Max_eqI) auto
  with False assms show ?thesis by (simp add: nextVersionNumber_Max)
qed (use assms in \<open>simp add: nextVersionNumber_Max\<close>)

lemma numbers_key: "n \<in> numbers fid db \<longleftrightarrow> (fid, n) \<in> ver_key ` set (functionVersions db)"
  by (auto simp: numbers_def)

lemma commit_numbers:
  assumes "commit_version verId now b n ref db = Inr db'"
  shows "numbers (build_functionId b) db' = insert n (numbers (build_functionId b) db)"
    and "n \<notin> numbers (build_functionId b) db"
    and "fid \<noteq> build_functionId b \<Longrightarrow> numbers fid db' = numbers fid db"
  using commit_version_Inr(1,4) [OF assms] by (simp_all add: numbers_key) (simp_all add: numbers_def)

lemma mark_failed_versions:
  "mark_failed F now i m db = (r, db') \<Longrightarrow> functionVersions db' = functionVersions db"
  by (auto elim!: mark_failed_cases)

text \<open>A build that says SUCCESS has its version.\<close>

definition success_ok :: "db \<Rightarrow> bool" where
  "success_ok db \<longleftrightarrow>
     (\<forall>b \<in> set (builds db). build_status b = SUCCESS \<longrightarrow>
        (\<exists>v \<in> set (functionVersions db). ver_functionId v = build_functionId b \<and> build_imageTag b = Some (ver_imageTag v)))"

lemma mark_failed_success_ok:
  "mark_failed F now i m db = (r, db') \<Longrightarrow> success_ok db \<Longrightarrow> success_ok db'"
  by (erule mark_failed_cases) (auto simp: success_ok_def elim!: in_update_whereE split: if_splits)

lemma build_by_id:
  assumes "db_wf db" and "b \<in> set (builds db)" and "x \<in> set (builds db)" and "build_id x = build_id b"
  shows "x = b"
  using assms unfolding db_wf_def builds_wf_def by (metis distinct_map_inj)

lemma commit_success_ok:
  assumes "db_wf db" and "b0 \<in> set (builds db)" and "build_id b0 = build_id b"
    and "build_functionId b0 = build_functionId b"
    and "success_ok db" and "commit_version verId now b n ref db = Inr db'"
  shows "success_ok db'"
proof -
  note c = commit_version_Inr(1,2) [OF assms(6)]
  show ?thesis unfolding success_ok_def
  proof (intro ballI impI)
    fix y
    assume y': "y \<in> set (builds db')" and "build_status y = SUCCESS"
    from y' obtain x where x: "x \<in> set (builds db)" and y: "y = (if build_id x = build_id b
        then x\<lparr>build_status := SUCCESS, build_imageTag := Some ref, finishedAt := Some now\<rparr> else x)"
      unfolding c by (rule in_update_whereE)
    show "\<exists>v \<in> set (functionVersions db'). ver_functionId v = build_functionId y \<and> build_imageTag y = Some (ver_imageTag v)"
    proof (cases "build_id x = build_id b")
      case True
      then have "x = b0" using build_by_id [OF assms(1,2) x] assms(3) by simp
      with True y assms(4) show ?thesis unfolding c by simp
    next
      case False
      with x y \<open>build_status y = SUCCESS\<close> assms(5) show ?thesis unfolding c success_ok_def by auto
    qed
  qed
qed

lemma find_function:
  assumes "db_wf db" and "f \<in> set (funcs db)"
  shows "find (\<lambda>g. fn_id g = fn_id f) (funcs db) = Some f"
  using assms find_key_iff [of fn_id "funcs db" "fn_id f" f] by (simp add: db_wf_def funcs_wf_def)

text \<open>The tag of every version is the reference of its function's name and its number.\<close>

definition images_named :: "(string \<Rightarrow> nat \<Rightarrow> string) \<Rightarrow> db \<Rightarrow> bool" where
  "images_named ref db \<longleftrightarrow>
     (\<forall>v \<in> set (functionVersions db). \<forall>f \<in> set (funcs db).
        ver_functionId v = fn_id f \<longrightarrow> ver_imageTag v = ref (fn_name f) (versionNumber v))"

context build_executor
begin

lemma images_iff:
  assumes "images_named image_ref db" and "v \<in> set (functionVersions db)" and "w \<in> set (functionVersions db)"
    and "f \<in> set (funcs db)" and "g \<in> set (funcs db)" and "ver_functionId v = fn_id f" and "ver_functionId w = fn_id g"
  shows "ver_imageTag v = ver_imageTag w \<longleftrightarrow> fn_name f = fn_name g \<and> versionNumber v = versionNumber w"
proof -
  have "ver_imageTag v = image_ref (fn_name f) (versionNumber v)" "ver_imageTag w = image_ref (fn_name g) (versionNumber w)"
    using assms unfolding images_named_def by blast+
  then show ?thesis using image_ref_inj by auto
qed

lemma runBuild_images:
  assumes "db_wf db" and "images_named image_ref db" and "images_named image_ref (meanwhile db)"
    and "\<forall>f \<in> set (funcs (meanwhile db)). fn_id f = build_functionId b \<longrightarrow> f \<in> set (funcs db)"
    and "runBuild F msg exec meanwhile verId now b db = (r, db')"
  shows "images_named image_ref db'"
  using assms(5)
proof (cases rule: runBuild_cases)
  case (failed m d)
  then have d: "images_named image_ref d" using assms(2,3) by auto
  from failed(2) show ?thesis
    by (cases rule: mark_failed_cases) (use d in \<open>simp_all add: images_named_def\<close>)
next
  case (committed fn ref)
  have ref: "ref = image_ref (fn_name fn) (nextVersionNumber (build_functionId b) db)"
    using exec_ref [OF committed(2)] by simp
  have "f = fn" if "f \<in> set (funcs (meanwhile db))" "fn_id f = build_functionId b" for f
  proof -
    have "f \<in> set (funcs db)" using assms(4) that by blast
    then show ?thesis using committed(1) find_function [OF assms(1), of f] that(2) by simp
  qed
  then show ?thesis
    using assms(3) ref commit_version_Inr(1,5) [OF committed(3)] unfolding images_named_def by auto
qed

lemma runBuild_image_identity:
  assumes "db_wf db" and "images_named image_ref db" and "images_named image_ref (meanwhile db)"
    and "\<forall>f \<in> set (funcs (meanwhile db)). fn_id f = build_functionId b \<longrightarrow> f \<in> set (funcs db)"
    and "runBuild F msg exec meanwhile verId now b db = (r, db')"
  shows "images_named image_ref db' \<and>
    (\<forall>v \<in> set (functionVersions db'). \<forall>w \<in> set (functionVersions db').
     \<forall>f \<in> set (funcs db'). \<forall>g \<in> set (funcs db').
       ver_functionId v = fn_id f \<longrightarrow> ver_functionId w = fn_id g \<longrightarrow>
       (ver_imageTag v = ver_imageTag w \<longleftrightarrow> fn_name f = fn_name g \<and> versionNumber v = versionNumber w))"
  using runBuild_images [where meanwhile = meanwhile, OF assms] images_iff by blast

end

lemma runBuild_commits:
  assumes "db_wf db" and "f \<in> set (funcs db)" and "b \<in> set (builds db)" and "build_functionId b = fn_id f"
    and "verId \<notin> ver_id ` set (functionVersions db)" and "n = nextVersionNumber (fn_id f) db"
    and "exec \<lparr>bp_sourceObjectKey = sourceObjectKey b, bp_functionName = fn_name f, bp_versionNumber = n\<rparr> = Inr ref"
  obtains db' where "commit_version verId now b n ref db = Inr db'"
    and "runBuild no_faults msg exec (\<lambda>d. d) verId now b db = (Inr (), db')"
proof -
  have "(fn_id f, n) \<notin> ver_key ` set (functionVersions db)"
    using nextVersionNumber_fresh assms(6) numbers_key by metis
  then obtain db' where "commit_version verId now b n ref db = Inr db'"
    using assms(2-5) by (auto simp: commit_version_def version_create_def build_update_def)
  moreover from this have "runBuild no_faults msg exec (\<lambda>d. d) verId now b db = (Inr (), db')"
    using assms(4,6,7) find_function [OF assms(1,2)] by (simp add: runBuild_def)
  ultimately show thesis by (rule that)
qed

lemma runBuild_fails:
  assumes "db_wf db" and "f \<in> set (funcs db)" and "build_functionId b = fn_id f"
    and "exec \<lparr>bp_sourceObjectKey = sourceObjectKey b, bp_functionName = fn_name f,
               bp_versionNumber = nextVersionNumber (fn_id f) db\<rparr> = Inl m"
  shows "runBuild no_faults msg exec (\<lambda>d. d) verId now b db = mark_failed no_faults now (build_id b) m db"
  using assms find_function [OF assms(1,2)] by (simp add: runBuild_def)

lemma updated_build:
  assumes "db_wf db'" and "b \<in> set (builds db)"
    and "builds db' = update_where (\<lambda>x. build_id x = build_id b) g (builds db)"
    and "build_id (g b) = build_id b"
  shows "build_find (build_id b) db' = Some (g b)"
  using build_find_iff [OF assms(1)] in_update_where_this [OF assms(2), of "\<lambda>x. build_id x = build_id b" g] assms(3,4)
  by simp

lemma other_builds:
  assumes "db_wf db" and "b \<in> set (builds db)" and "x \<in> set (builds db)" and "x \<noteq> b"
    and "builds db' = update_where (\<lambda>x. build_id x = build_id b) g (builds db)"
  shows "x \<in> set (builds db')"
  unfolding assms(5)
  by (rule in_update_where_other [OF assms(3)]) (use build_by_id [OF assms(1-3)] assms(4) in blast)

section \<open>Properties\<close>

text \<open>
  C23. A build run to its end: if the executor succeeds, exactly one version is added, numbered one
  above the highest so far, it is the one invocations run from then on, and the build says SUCCESS
  with its image; if the executor fails, no version is added and the build says FAILED with the
  executor's message. No other build changes.
\<close>

theorem runBuild_spec:
  assumes "db_wf db" and "f \<in> set (funcs db)" and "b \<in> set (builds db)" and "build_functionId b = fn_id f"
    and "verId \<notin> ver_id ` set (functionVersions db)"
    and "p = \<lparr>bp_sourceObjectKey = sourceObjectKey b, bp_functionName = fn_name f,
              bp_versionNumber = nextVersionNumber (fn_id f) db\<rparr>"
    and "runBuild no_faults msg exec (\<lambda>d. d) verId now b db = (r, db')"
  shows "r = Inr () \<and> db_wf db' \<and>
    (\<forall>x. x \<in> set (builds db) \<and> x \<noteq> b \<longrightarrow> x \<in> set (builds db')) \<and>
    (case exec p of
       Inr ref \<Rightarrow>
         (\<exists>v. functionVersions db' = functionVersions db @ [v] \<and> ver_functionId v = fn_id f
            \<and> (\<forall>w \<in> set (functionVersions db). ver_functionId w = fn_id f \<longrightarrow> versionNumber w < versionNumber v)
            \<and> ver_imageTag v = ref \<and> latestVersion (fn_id f) db' = Some v)
         \<and> (\<exists>x. build_find (build_id b) db' = Some x \<and> build_status x = SUCCESS \<and> build_imageTag x = Some ref)
     | Inl m \<Rightarrow>
         functionVersions db' = functionVersions db
         \<and> (\<exists>x. build_find (build_id b) db' = Some x \<and> build_status x = FAILED \<and> build_errorMessage x = Some m))"
proof (cases "exec p")
  case (Inl m)
  then have run: "mark_failed no_faults now (build_id b) m db = (r, db')"
    using runBuild_fails [OF assms(1,2,4), of exec m] assms(6,7) by simp
  then have wf: "db_wf db'" using mark_failed_wf [OF assms(1)] by (metis snd_conv)
  from run show ?thesis
  proof (cases rule: mark_failed_cases)
    case marked
    let ?g = "\<lambda>x. x\<lparr>build_status := FAILED, build_errorMessage := Some m, finishedAt := Some now\<rparr>"
    have bs: "builds db' = update_where (\<lambda>x. build_id x = build_id b) ?g (builds db)" using marked(3) by simp
    show ?thesis
      using marked(1,3) wf Inl updated_build [OF wf assms(3) bs] other_builds [OF assms(1,3) _ _ bs] by simp
  qed (use run assms(3) in \<open>simp add: mark_failed_def build_update_def\<close>)
next
  case (Inr ref)
  let ?n = "nextVersionNumber (fn_id f) db"
  let ?g = "\<lambda>x. x\<lparr>build_status := SUCCESS, build_imageTag := Some ref, finishedAt := Some now\<rparr>"
  have "exec \<lparr>bp_sourceObjectKey = sourceObjectKey b, bp_functionName = fn_name f, bp_versionNumber = ?n\<rparr> = Inr ref"
    using Inr assms(6) by simp
  then obtain d where "commit_version verId now b ?n ref db = Inr d"
      "runBuild no_faults msg exec (\<lambda>d. d) verId now b db = (Inr (), d)"
    using runBuild_commits [OF assms(1-5) refl] by blast
  then have c: "commit_version verId now b ?n ref db = Inr db'" and r: "r = Inr ()" using assms(7) by simp_all
  then have wf: "db_wf db'" using commit_version_wf [OF assms(1)] by blast
  note vs = commit_version_Inr(1) [OF c] and bs = commit_version_Inr(2) [OF c]
  have low: "versionNumber w < ?n" if "w \<in> set (functionVersions db)" "ver_functionId w = fn_id f" for w
    using that nextVersionNumber_above by blast
  then have "latestVersion (fn_id f) db' = Some \<lparr>ver_id = verId, ver_functionId = fn_id f, versionNumber = ?n,
      ver_imageTag = ref, ver_createdAt = now\<rparr>"
    using vs assms(4) by (intro latestVersion_eqI [OF wf]) (auto simp: less_imp_le)
  then show ?thesis
    using r wf Inr vs assms(4) low updated_build [OF wf assms(3) bs] other_builds [OF assms(1,3) _ _ bs] by simp
qed

text \<open>
  Builds running at the same time: whatever happened to the database while the executor ran, as
  long as it kept the invariant and lost no version of the function, the end of a build keeps
  the version numbers of every function consecutive from 1, the constraints of the schema,
  and the rule that a SUCCESS build has a version with its image.
\<close>

theorem runBuild_invariants:
  assumes "db_wf db" and "db_wf (meanwhile db)" and "contiguous fid db" and "contiguous fid (meanwhile db)"
    and "numbers fid db \<subseteq> numbers fid (meanwhile db)"
    and "success_ok db" and "success_ok (meanwhile db)"
    and "\<forall>x \<in> set (builds (meanwhile db)). build_id x = build_id b \<longrightarrow> build_functionId x = build_functionId b"
    and "runBuild F msg exec meanwhile verId now b db = (r, db')"
  shows "contiguous fid db' \<and> db_wf db' \<and> success_ok db'"
  using assms(9)
proof (cases rule: runBuild_cases)
  case (failed m d)
  then have "d = db \<or> d = meanwhile db" by simp
  then have d: "db_wf d" "contiguous fid d" "success_ok d" using assms by auto
  show ?thesis
    using d mark_failed_versions [OF failed(2)] mark_failed_success_ok [OF failed(2)] mark_failed_wf [of d F now "build_id b" m]
      failed(2) by (simp add: contiguous_def numbers_def)
next
  case (committed fn ref)
  let ?n = "nextVersionNumber (build_functionId b) db"
  have "contiguous fid db'"
  proof (cases "fid = build_functionId b")
    case True
    obtain k m where k: "numbers fid db = {1..k}" and m: "numbers fid (meanwhile db) = {1..m}"
      using assms(3,4) by (auto simp: contiguous_def)
    have "?n = Suc k" using nextVersionNumber_contiguous [OF k] True by simp
    moreover have "?n \<notin> {1..m}" using commit_numbers(2) [OF committed(3)] m True by simp
    moreover have "k \<le> m" using assms(5) unfolding k m by (cases "k = 0") auto
    ultimately have "?n = Suc m" by auto
    then have "numbers fid db' = {1..Suc m}" using commit_numbers(1) [OF committed(3)] m True by auto
    then show ?thesis by (auto simp: contiguous_def)
  next
    case False
    then show ?thesis using commit_numbers(3) [OF committed(3)] assms(4) by (simp add: contiguous_def)
  qed
  moreover obtain b0 where "b0 \<in> set (builds (meanwhile db))" "build_id b0 = build_id b"
    using commit_version_Inr(3) [OF committed(3)] by auto
  ultimately show ?thesis
    using commit_version_wf [OF assms(2) committed(3)] commit_success_ok [OF assms(2) _ _ _ assms(7) committed(3)] assms(8)
    by blast
qed

text \<open>
  C24. The race the idempotency check of the queue does not see: if the build is already SUCCESS by
  the time a second run of it commits, the second run is refused by the unique constraint and
  turns the build to FAILED, while its version stays.
\<close>

theorem runBuild_overwrites_success:
  assumes "runBuild no_faults msg exec (\<lambda>_. db1) verId now b db = (r, db2)"
    and "find (\<lambda>f. fn_id f = build_functionId b) (funcs db) = Some fn"
    and "exec \<lparr>bp_sourceObjectKey = sourceObjectKey b, bp_functionName = fn_name fn,
              bp_versionNumber = nextVersionNumber (build_functionId b) db\<rparr> = Inr ref"
    and "db_wf db1" and "x \<in> set (builds db1)" and "build_id x = build_id b" and "build_status x = SUCCESS"
    and "nextVersionNumber (build_functionId b) db \<in> numbers (build_functionId b) db1"
  shows "r = Inr () \<and> functionVersions db2 = functionVersions db1
    \<and> (\<exists>y. build_find (build_id b) db2 = Some y \<and> build_status y = FAILED
         \<and> build_errorMessage y = Some (msg P2002) \<and> build_imageTag y = build_imageTag x)"
proof -
  have "commit_version verId now b (nextVersionNumber (build_functionId b) db) ref db1 = Inl P2002"
    using assms(8) unfolding numbers_key by (simp add: commit_version_def version_create_def)
  then have run: "mark_failed no_faults now (build_id x) (msg P2002) db1 = (r, db2)"
    using assms(1-3,6) by (simp add: runBuild_def)
  then have wf: "db_wf db2" using mark_failed_wf [OF assms(4)] by (metis snd_conv)
  from run show ?thesis
  proof (cases rule: mark_failed_cases)
    case marked
    have "builds db2 = update_where (\<lambda>y. build_id y = build_id x)
        (\<lambda>y. y\<lparr>build_status := FAILED, build_errorMessage := Some (msg P2002), finishedAt := Some now\<rparr>) (builds db1)"
      using marked(3) by simp
    from updated_build [OF wf assms(5) this] marked assms(6) show ?thesis by simp
  qed (use run assms(5) in \<open>simp add: mark_failed_def build_update_def\<close>)
qed

text \<open>
  Builds are private: the route \<open>GET /functions/:name/builds/:buildId\<close> answers only with a build of
  a function of the authenticated account.
\<close>

theorem getBuild_private:
  assumes "AuthGuard C F now header db = (Inr p, db1)"
    and "builds_getBuild C F now header name buildId db = (Inr b, db')"
  shows "b \<in> set (t_builds (tenant_view (principal_userId p) db)) \<and> build_id b = buildId
    \<and> (\<exists>f \<in> set (funcs db). fn_userId f = principal_userId p \<and> fn_name f = name \<and> build_functionId b = fn_id f)"
proof -
  have fr: "funcs db1 = funcs db" "builds db1 = builds db" using ag.guard_frame [OF assms(1)] by simp_all
  obtain fn where fn: "get_function F (principal_userId p) name db1 = Inr fn"
    and "getBuild F (fn_id fn) buildId db1 = Inr b"
    using assms by (auto simp: builds_getBuild_def scoped_def guarded_def split: sum.splits)
  then have b: "b \<in> set (builds db1)" "build_id b = buildId" "build_functionId b = fn_id fn"
    by (auto simp: getBuild_def split: sum.splits option.splits if_splits dest!: build_find_SomeD)
  with get_function_owned [OF fn] fr show ?thesis
    by (auto simp: tenant_view_def owned_def owned_ids_def)
qed

text \<open>
  C25. What is built is what was uploaded: after an accepted upload, whenever the local executor can
  fetch the source (and nobody has replaced that object), \<open>docker build\<close> runs on the uploaded bytes
  as \<open>handler.js\<close> beside the two-line Dockerfile, under the tag of the function and version; and
  whatever the outcome, the scratch directory is gone afterwards and no other file has changed.
\<close>

theorem local_build_uses_upload:
  assumes "s3_service S"
    and "submitBuild S cfg F uuid newId now functionId source (s, db) = (Inr b, s1, db1)"
    and "s3_objects S s2 (bucket cfg) (sourceObjectKey b) = s3_objects S s1 (bucket cfg) (sourceObjectKey b)"
    and "getObject S cfg (sourceObjectKey b) s2 = (Inr got, s3)"
    and "\<forall>path. path = workDir \<or> startsWith (workDir @ ''/'') path \<longrightarrow> fs path = None"
    and "p = \<lparr>bp_sourceObjectKey = sourceObjectKey b, bp_functionName = name, bp_versionNumber = n\<rparr>"
  shows "local_build S cfg D workDir p (fs, s2) =
    (case dockerBuild D workDir (local_image_ref name n)
        (fs(path_join workDir ''handler.js'' \<mapsto> source, path_join workDir ''Dockerfile'' \<mapsto> dockerfile)) of
       Inl m \<Rightarrow> Inl m
     | Inr _ \<Rightarrow> Inr (local_image_ref name n), fs, s3)"
proof -
  obtain u where "putObject S cfg (sourceObjectKey b) source s = (Inr u, s1)"
    using assms(2) by (auto simp: submitBuild_def Let_def new_build_def split: prod.splits sum.splits)
  from s3_service.download_upload [OF assms(1) this assms(3,4)] have got: "got = source" .
  have rm: "rm_recursive workDir (fs(path_join workDir h \<mapsto> x, path_join workDir g \<mapsto> y)) = fs" for h g x y
    using assms(5) by (auto simp: rm_recursive_def path_join_def startsWith_iff)
  show ?thesis using got assms(4,6)
    by (auto simp: local_build_def Let_def rm split: sum.split)
qed

text \<open>
  C26. What an image tag says: with either executor, the tag of every version stays the reference made
  of its function's name and its number, also when builds overlap. So two versions carry the same
  tag exactly if they have the same number and belong to functions of the same name -- which
  within one account is one version, and across accounts is not: functions of the same name in
  two accounts share their images.
\<close>

theorem version_image_identity:
  assumes "exec = choose_executor env_executor (\<lambda>p. fst (local_build S cfg D workDir p st)) (codebuild_build env B)"
    and "ref = choose_executor env_executor local_image_ref (codebuild_image_ref (the (FUNCTIONS_ECR_REPO_URI env)))"
    and "db_wf db" and "images_named ref db" and "images_named ref (meanwhile db)"
    and "\<forall>f \<in> set (funcs (meanwhile db)). fn_id f = build_functionId b \<longrightarrow> f \<in> set (funcs db)"
    and "runBuild F msg exec meanwhile verId now b db = (r, db')"
  shows "images_named ref db' \<and>
    (\<forall>v \<in> set (functionVersions db'). \<forall>w \<in> set (functionVersions db').
     \<forall>f \<in> set (funcs db'). \<forall>g \<in> set (funcs db').
       ver_functionId v = fn_id f \<longrightarrow> ver_functionId w = fn_id g \<longrightarrow>
       (ver_imageTag v = ver_imageTag w \<longleftrightarrow> fn_name f = fn_name g \<and> versionNumber v = versionNumber w))"
proof (cases "env_executor = Some ''codebuild''")
  case True
  then have "exec = codebuild_build env B" and ref: "ref = codebuild_image_ref (the (FUNCTIONS_ECR_REPO_URI env))"
    using assms(1,2) by (simp_all add: choose_executor_def)
  then show ?thesis
    using codebuild_exec.runBuild_image_identity [where meanwhile = meanwhile, OF assms(3) _ _ assms(6)] assms(4,5,7)
    unfolding ref by blast
next
  case False
  then have "exec = (\<lambda>p. fst (local_build S cfg D workDir p st))" and ref: "ref = local_image_ref"
    using assms(1,2) by (simp_all add: choose_executor_def)
  then show ?thesis
    using local_exec.runBuild_image_identity [where meanwhile = meanwhile, OF assms(3) _ _ assms(6)] assms(4,5,7)
    unfolding ref by blast
qed

text \<open>An answer that does not end the polling, and a complete configuration.\<close>

definition still_running :: "string + string option option \<Rightarrow> bool" where
  "still_running answer \<longleftrightarrow>
     (case answer of
        Inl _ \<Rightarrow> False
      | Inr None \<Rightarrow> True
      | Inr (Some status) \<Rightarrow> status = None \<or> status = Some [] \<or> status = Some ''IN_PROGRESS'')"

definition configured :: "codebuild_env \<Rightarrow> bool" where
  "configured env \<longleftrightarrow> present (CODEBUILD_PROJECT_NAME env) \<and> present (S3_BUCKET env)
     \<and> present (FUNCTIONS_ECR_REPO_URI env) \<and> present (RUNTIME_IMAGE_URI env)"

lemma poll_build_skip:
  "(\<And>i. a \<le> i \<Longrightarrow> i < a + k \<Longrightarrow> still_running (cb_batchGetBuilds B bid i)) \<Longrightarrow> k \<le> left \<Longrightarrow>
   poll_build B bid ref a left = poll_build B bid ref (a + k) (left - k)"
proof (induction k arbitrary: a left)
  case (Suc k)
  then obtain l where l: "left = Suc l" by (cases left) auto
  have "still_running (cb_batchGetBuilds B bid a)" using Suc.prems(1) [of a] by simp
  then have "poll_build B bid ref a (Suc l) = poll_build B bid ref (Suc a) l"
    by (auto simp: still_running_def present_def split: sum.splits option.splits)
  also have "\<dots> = poll_build B bid ref (Suc a + k) (l - k)" using Suc l by simp
  finally show ?case using l by simp
qed simp

text \<open>
  CodeBuild is polled a bounded number of times: the answer is that of the first attempt below 100
  that finds the build finished or fails, and if there is none it is the timeout; later answers
  do not matter. A configured executor whose build succeeds at such an attempt returns its image.
\<close>

theorem codebuild_polls:
  assumes "configured env" and "\<forall>project vars. cb_startBuild B project vars = Inr (Some bid)" and "bid \<noteq> []"
    and "\<forall>i < k. still_running (cb_batchGetBuilds B bid i)"
  shows "(100 \<le> k \<longrightarrow>
        codebuild_build env B p = Inl (''CodeBuild '' @ bid @ '' did not finish within the poll window''))
    \<and> (k < 100 \<longrightarrow> cb_batchGetBuilds B bid k = Inr (Some (Some ''SUCCEEDED'')) \<longrightarrow>
        codebuild_build env B p =
          Inr (the (FUNCTIONS_ECR_REPO_URI env) @ '':'' @ bp_functionName p @ ''-v'' @ string_of_nat (bp_versionNumber p)))
    \<and> (k < 100 \<longrightarrow> (\<forall>m. cb_batchGetBuilds B bid k = Inl m \<longrightarrow> codebuild_build env B p = Inl m))
    \<and> (k < 100 \<longrightarrow> cb_batchGetBuilds B bid k = Inr (Some (Some ''FAILED'')) \<longrightarrow>
        codebuild_build env B p = Inl (''CodeBuild '' @ bid @ '' ended with status FAILED''))"
proof -
  let ?ref = "the (FUNCTIONS_ECR_REPO_URI env) @ '':'' @ codebuild_image_tag (bp_functionName p) (bp_versionNumber p)"
  have "codebuild_build env B p = poll_build B bid ?ref 0 MAX_POLL_ATTEMPTS"
    using assms(1-3) by (simp add: codebuild_build_def configured_def Let_def present_def)
  also have "\<dots> = poll_build B bid ?ref (min k 100) (100 - min k 100)"
    using poll_build_skip [of 0 "min k 100" B bid 100 ?ref] assms(4) by (simp add: MAX_POLL_ATTEMPTS_def)
  finally have c: "codebuild_build env B p = poll_build B bid ?ref (min k 100) (100 - min k 100)" .
  have "codebuild_build env B p = Inl (''CodeBuild '' @ bid @ '' did not finish within the poll window'')" if "100 \<le> k"
    using c that by (simp add: min_def)
  moreover have "codebuild_build env B p = poll_build B bid ?ref k (Suc (99 - k))" if "k < 100"
    using c that by (simp add: min_def Suc_diff_le [symmetric])
  ultimately show ?thesis by (auto simp: present_def codebuild_image_tag_def)
qed

section \<open>Witnesses\<close>

text \<open>Both accounts have a function \<open>f\<close> without a version and a pending build of it.\<close>

definition demo_builds :: db where
  "demo_builds = demo_db\<lparr>apiKeys := [demo_key], functionVersions := [], invocations := [],
     builds := [new_build ''b1'' 3 ''f1'' ''k1'', new_build ''b2'' 4 ''f2'' ''k2'']\<rparr>"

lemmas demo_builds_defs = demo_builds_def demo_db_defs new_build_def demo_key_def

lemma demo_builds_wf: "db_wf demo_builds"
  by (simp add: demo_builds_defs db_wf_def wf_defs)

lemma demo_next: "nextVersionNumber ''f1'' demo_builds = 1"
  by (simp add: demo_builds_defs nextVersionNumber_def latestVersion_def)

definition demo_exec :: "build_params \<Rightarrow> string + string" where
  "demo_exec p = Inr (local_image_ref (bp_functionName p) (bp_versionNumber p))"

definition demo_b1 :: build where
  "demo_b1 = new_build ''b1'' 3 ''f1'' ''k1''"

lemma demo_b1_in: "demo_b1 \<in> set (builds demo_builds)" "build_functionId demo_b1 = fn_id (demo_fn ''f1'' ''u1'')"
  "demo_fn ''f1'' ''u1'' \<in> set (funcs demo_builds)" "fn_id (demo_fn ''f1'' ''u1'') = ''f1''"
  by (simp_all add: demo_builds_defs demo_b1_def)

lemma demo_numbers: "numbers ''f1'' demo_builds = {1..0}"
  by (simp add: numbers_def demo_builds_defs)

text \<open>Witness of C23: the first build of the first account succeeds.\<close>

theorem runBuild_spec_witness:
  "\<exists>db' v. runBuild no_faults (\<lambda>_. []) demo_exec (\<lambda>d. d) ''v1'' 9 demo_b1 demo_builds = (Inr (), db')
     \<and> latestVersion ''f1'' db' = Some v \<and> ver_imageTag v = local_image_ref ''f'' 1"
proof -
  obtain r db' where r: "runBuild no_faults (\<lambda>_. []) demo_exec (\<lambda>d. d) ''v1'' 9 demo_b1 demo_builds = (r, db')" by fastforce
  have "''v1'' \<notin> ver_id ` set (functionVersions demo_builds)" by (simp add: demo_builds_defs)
  from runBuild_spec [OF demo_builds_wf demo_b1_in(3,1,2) this refl r]
  show ?thesis using r by (auto simp: demo_exec_def demo_b1_in demo_next demo_fn_def)
qed

text \<open>Witness of \<open>runBuild_invariants\<close>: the same build.\<close>

theorem runBuild_invariants_witness:
  "\<exists>r db'. runBuild no_faults (\<lambda>_. []) demo_exec (\<lambda>d. d) ''v1'' 9 demo_b1 demo_builds = (r, db')
     \<and> contiguous ''f1'' db' \<and> db_wf db' \<and> success_ok db'"
proof -
  obtain r db' where r: "runBuild no_faults (\<lambda>_. []) demo_exec (\<lambda>d. d) ''v1'' 9 demo_b1 demo_builds = (r, db')" by fastforce
  have "contiguous ''f1'' demo_builds" using demo_numbers by (auto simp: contiguous_def)
  moreover have "success_ok demo_builds" by (simp add: success_ok_def demo_builds_defs)
  moreover have "\<forall>x \<in> set (builds demo_builds). build_id x = build_id demo_b1 \<longrightarrow> build_functionId x = build_functionId demo_b1"
    by (simp add: demo_builds_defs demo_b1_def)
  ultimately show ?thesis
    using runBuild_invariants [where meanwhile = "\<lambda>d. d", OF demo_builds_wf demo_builds_wf _ _ _ _ _ _ r] r by blast
qed

text \<open>Witness of C24: two runs of one build; the second commits after the first.\<close>

theorem runBuild_overwrites_success_witness:
  "\<exists>db1 db2 x y. runBuild no_faults (\<lambda>_. ''P2002'') demo_exec (\<lambda>d. d) ''v1'' 9 demo_b1 demo_builds = (Inr (), db1)
     \<and> build_find ''b1'' db1 = Some x \<and> build_status x = SUCCESS
     \<and> runBuild no_faults (\<lambda>_. ''P2002'') demo_exec (\<lambda>_. db1) ''v2'' 9 demo_b1 demo_builds = (Inr (), db2)
     \<and> build_find ''b1'' db2 = Some y \<and> build_status y = FAILED"
proof -
  define x where "x = demo_b1\<lparr>build_status := SUCCESS, build_imageTag := Some (local_image_ref ''f'' 1), finishedAt := Some 9\<rparr>"
  define db1 where "db1 = demo_builds\<lparr>functionVersions := [\<lparr>ver_id = ''v1'', ver_functionId = ''f1'', versionNumber = 1,
      ver_imageTag = local_image_ref ''f'' 1, ver_createdAt = 9\<rparr>], builds := [x, new_build ''b2'' 4 ''f2'' ''k2'']\<rparr>"
  have find: "find (\<lambda>f. fn_id f = build_functionId demo_b1) (funcs demo_builds) = Some (demo_fn ''f1'' ''u1'')"
    by (simp add: demo_builds_defs demo_b1_def)
  have fid: "build_functionId demo_b1 = ''f1''" "build_id demo_b1 = ''b1''" by (simp_all add: demo_b1_def new_build_def)
  have 1: "runBuild no_faults (\<lambda>_. ''P2002'') demo_exec (\<lambda>d. d) ''v1'' 9 demo_b1 demo_builds = (Inr (), db1)"
    using find demo_next
    by (simp add: runBuild_def demo_exec_def fid commit_version_def version_create_def build_update_def update_where_def)
       (simp add: demo_builds_defs demo_b1_def x_def db1_def)
  have wf: "db_wf db1" using runBuild_wf [of demo_builds "\<lambda>d. d"] demo_builds_wf 1 by (metis snd_conv)
  have x: "x \<in> set (builds db1)" "build_id x = build_id demo_b1" "build_status x = SUCCESS"
    by (simp_all add: db1_def x_def)
  obtain r db2 where 2: "runBuild no_faults (\<lambda>_. ''P2002'') demo_exec (\<lambda>_. db1) ''v2'' 9 demo_b1 demo_builds = (r, db2)"
    by fastforce
  have "nextVersionNumber (build_functionId demo_b1) demo_builds \<in> numbers (build_functionId demo_b1) db1"
    using demo_next by (simp add: fid numbers_def db1_def)
  from runBuild_overwrites_success [OF 2 find _ wf x this] 1 2 x wf show ?thesis
    by (simp add: demo_exec_def fid build_find_iff) blast
qed

text \<open>Witness of \<open>getBuild_private\<close>: the first account reads its build with an API key.\<close>

theorem getBuild_private_witness:
  "\<exists>b db'. builds_getBuild demo_crypto no_faults 7 (Some ''Bearer mc_00'') ''f'' ''b1'' demo_builds = (Inr b, db')
     \<and> b \<in> set (t_builds (tenant_view ''u1'' demo_builds))"
proof -
  let ?p = "\<lparr>principal_userId = ''u1'', principal_scopes = [''functions:read'']\<rparr>"
  obtain db1 where a: "AuthGuard demo_crypto no_faults 7 (Some ''Bearer mc_00'') demo_builds = (Inr ?p, db1)"
    by (simp add: AuthGuard_def startsWith_def Let_def validateApiKey_def hashApiKey_def demo_crypto_def demo_builds_defs)
  then have fr: "funcs db1 = funcs demo_builds" "builds db1 = builds demo_builds" using ag.guard_frame by metis+
  have "get_function no_faults ''u1'' ''f'' db1 = Inr (demo_fn ''f1'' ''u1'')"
    by (simp add: get_function_def function_findUnique_def fr demo_builds_defs)
  moreover have "getBuild no_faults (fn_id (demo_fn ''f1'' ''u1'')) ''b1'' db1 = Inr demo_b1"
    by (simp add: getBuild_def build_find_def fr demo_b1_def demo_builds_defs)
  ultimately have "builds_getBuild demo_crypto no_faults 7 (Some ''Bearer mc_00'') ''f'' ''b1'' demo_builds = (Inr demo_b1, db1)"
    using a by (simp add: builds_getBuild_def scoped_def guarded_def ScopesGuard_def)
  with getBuild_private [OF a this] show ?thesis by auto
qed

text \<open>Witness of C25: upload to a store in memory, build with a Docker that answers 0.\<close>

theorem local_build_uses_upload_witness:
  "\<exists>b s1 db1. submitBuild mem_s3 \<lparr>bucket = ''src'', isMinio = True\<rparr> no_faults ''uu'' ''b9'' 5 ''f1'' ''code'' (\<lambda>_. Map.empty, demo_builds)
       = (Inr b, s1, db1)
     \<and> local_build mem_s3 \<lparr>bucket = ''src'', isMinio = True\<rparr>
         (\<lambda>args fs. (if fs ''/w/handler.js'' = Some ''code'' then Some 0 else Some 1, [])) ''/w''
         \<lparr>bp_sourceObjectKey = sourceObjectKey b, bp_functionName = ''f'', bp_versionNumber = 1\<rparr> (Map.empty, s1)
       = (Inr (local_image_ref ''f'' 1), Map.empty, s1)"
proof -
  let ?cfg = "\<lparr>bucket = ''src'', isMinio = True\<rparr>"
  let ?D = "\<lambda>args (fs :: files). (if fs ''/w/handler.js'' = Some ''code'' then Some 0 else Some 1, [])"
  define b where "b = new_build ''b9'' 5 ''f1'' (source_object_key ''f1'' ''uu'')"
  obtain s1 db1 where s: "submitBuild mem_s3 ?cfg no_faults ''uu'' ''b9'' 5 ''f1'' ''code'' (\<lambda>_. Map.empty, demo_builds) = (Inr b, s1, db1)"
      and s1: "s1 = store_object ''src'' (sourceObjectKey b) ''code'' (\<lambda>_. Map.empty)"
    by (simp add: submitBuild_def Let_def putObject_def mem_s3_def b_def build_create_def new_build_def demo_builds_def demo_db_def demo_fn_def)
  have g: "getObject mem_s3 ?cfg (sourceObjectKey b) s1 = (Inr ''code'', s1)"
    by (simp add: getObject_def mem_s3_def s1 store_object_def)
  have "local_build mem_s3 ?cfg ?D ''/w'' \<lparr>bp_sourceObjectKey = sourceObjectKey b, bp_functionName = ''f'', bp_versionNumber = 1\<rparr>
      (Map.empty, s1) = (Inr (local_image_ref ''f'' 1), Map.empty, s1)"
    using local_build_uses_upload [OF mems3.s3_service_axioms s refl g, of "''/w''" Map.empty _ "''f''" 1 ?D]
    by (simp add: dockerBuild_def path_join_def)
  with s show ?thesis by blast
qed

definition demo_env :: codebuild_env where
  "demo_env = \<lparr>CODEBUILD_PROJECT_NAME = Some ''p'', S3_BUCKET = Some ''b'', FUNCTIONS_ECR_REPO_URI = Some ''r'',
     RUNTIME_IMAGE_URI = Some ''i''\<rparr>"

definition demo_codebuild :: codebuild where
  "demo_codebuild = \<lparr>cb_startBuild = (\<lambda>_ _. Inr (Some ''x1'')),
     cb_batchGetBuilds = (\<lambda>_ a. Inr (Some (Some (if a < 2 then ''IN_PROGRESS'' else ''SUCCEEDED''))))\<rparr>"

text \<open>Witness of C26: one build with the local executor.\<close>

theorem version_image_identity_witness:
  "\<exists>db'. images_named local_image_ref db' \<and> functionVersions db' \<noteq> [] \<and>
     snd (runBuild no_faults (\<lambda>_. []) (\<lambda>p. fst (local_build mem_s3 \<lparr>bucket = ''src'', isMinio = True\<rparr> (\<lambda>_ _. (Some 0, []))
       ''/w'' p (Map.empty, store_object ''src'' ''k1'' ''code'' (\<lambda>_. Map.empty)))) (\<lambda>d. d) ''v1'' 9 demo_b1 demo_builds) = db'"
proof -
  let ?st = "(Map.empty, store_object ''src'' ''k1'' ''code'' (\<lambda>_. Map.empty))"
  let ?exec = "\<lambda>p. fst (local_build mem_s3 \<lparr>bucket = ''src'', isMinio = True\<rparr> (\<lambda>_ _. (Some 0, [])) ''/w'' p ?st)"
  obtain r db' where r: "runBuild no_faults (\<lambda>_. []) ?exec (\<lambda>d. d) ''v1'' 9 demo_b1 demo_builds = (r, db')" by fastforce
  have im: "images_named local_image_ref demo_builds" by (simp add: images_named_def demo_builds_defs)
  have e: "?exec = choose_executor None ?exec (codebuild_build demo_env demo_codebuild)"
    and rf: "local_image_ref = choose_executor None local_image_ref (codebuild_image_ref (the (FUNCTIONS_ECR_REPO_URI demo_env)))"
    by (simp_all add: choose_executor_def)
  have "images_named local_image_ref db'"
    using version_image_identity [where meanwhile = "\<lambda>d. d", OF e rf demo_builds_wf im im _ r] by blast
  moreover have x: "?exec \<lparr>bp_sourceObjectKey = sourceObjectKey demo_b1, bp_functionName = fn_name (demo_fn ''f1'' ''u1''),
      bp_versionNumber = nextVersionNumber (fn_id (demo_fn ''f1'' ''u1'')) demo_builds\<rparr> = Inr (local_image_ref ''f'' 1)"
    by (simp add: demo_b1_in demo_next local_build_def getObject_def mem_s3_def store_object_def dockerBuild_def
        demo_b1_def new_build_def demo_fn_def)
  have "''v1'' \<notin> ver_id ` set (functionVersions demo_builds)" by (simp add: demo_builds_def)
  from runBuild_commits [where exec = ?exec, OF demo_builds_wf demo_b1_in(3,1,2) this refl x]
  obtain n d where "commit_version ''v1'' 9 demo_b1 n (local_image_ref ''f'' 1) demo_builds = Inr d"
      "runBuild no_faults (\<lambda>_. []) ?exec (\<lambda>d. d) ''v1'' 9 demo_b1 demo_builds = (Inr (), d)"
    by metis
  then have "functionVersions db' \<noteq> []" using commit_version_Inr(1) r by fastforce
  ultimately show ?thesis using r by auto
qed

text \<open>Witness of \<open>codebuild_polls\<close>: finished at the third attempt.\<close>

theorem codebuild_polls_witness:
  "codebuild_build demo_env demo_codebuild \<lparr>bp_sourceObjectKey = ''k'', bp_functionName = ''f'', bp_versionNumber = 1\<rparr> =
     Inr (''r:f-v'' @ string_of_nat 1)"
  using codebuild_polls [of demo_env demo_codebuild "''x1''" 2 "\<lparr>bp_sourceObjectKey = ''k'', bp_functionName = ''f'', bp_versionNumber = 1\<rparr>"]
  by (simp add: configured_def present_def demo_env_def demo_codebuild_def still_running_def)

end
