(* ===== verification/Build_Queue.thy ===== *)
theory Build_Queue
  imports Build "HOL-Library.Multiset" "HOL-Library.Sublist"
begin

text \<open>
  The queue between \<open>submitBuild\<close> and \<open>runBuild\<close>: the transactional outbox relay and the stream
  consumer, \<open>src/build/build-outbox-relay.service.ts\<close> and \<open>src/build/build-stream-consumer.service.ts\<close>.
  Every process runs both, and a tick of the relay starts every second whether or not the one
  before has ended; so the relay is also given as a machine in which any number of ticks, of any
  number of processes, interleave.
\<close>

section \<open>Constants (build-stream.constants.ts)\<close>

definition BUILD_STREAM_KEY :: string where
  "BUILD_STREAM_KEY = ''builds:pending''"

definition BUILD_CONSUMER_GROUP :: string where
  "BUILD_CONSUMER_GROUP = ''build-workers''"

definition BUILD_CONSUMER_NAME :: "string \<Rightarrow> string \<Rightarrow> string" where
  "BUILD_CONSUMER_NAME pid uuid = ''build-worker-'' @ pid @ ''-'' @ take 8 uuid"

definition DEFAULT_CLAIM_IDLE_MS :: nat where
  "DEFAULT_CLAIM_IDLE_MS = 30000"

section \<open>BuildOutboxRelayService\<close>

definition unpublished :: "build \<Rightarrow> bool" where
  "unpublished b \<longleftrightarrow> build_status b = PENDING \<and> publishedToStreamAt b = None"

text \<open>
  The query of the transaction: \<open>locked\<close> are the rows that other open transactions hold, which
  \<open>SKIP LOCKED\<close> passes over.
\<close>

definition select_unpublished :: "string set \<Rightarrow> db \<Rightarrow> string list" where
  "select_unpublished locked db =
     map build_id (take 20 (sort_key build_createdAt
       (filter (\<lambda>b. unpublished b \<and> build_id b \<notin> locked) (builds db))))"

definition mark_published :: "nat \<Rightarrow> string list \<Rightarrow> db \<Rightarrow> db" where
  "mark_published now ids db =
     db\<lparr>builds := update_where (\<lambda>b. build_id b \<in> set ids) (\<lambda>b. b\<lparr>publishedToStreamAt := Some now\<rparr>) (builds db)\<rparr>"

text \<open>The loop of \<open>XADD\<close>s; a failure is logged and the loop goes on.\<close>

fun publish_all :: "'r redis \<Rightarrow> string list \<Rightarrow> 'r \<Rightarrow> 'r" where
  "publish_all R [] s = s"
| "publish_all R (i # ids) s = publish_all R ids (snd (xadd R BUILD_STREAM_KEY [''buildId'', i] s))"

definition relayOnce :: "'r redis \<Rightarrow> faults \<Rightarrow> string set \<Rightarrow> nat \<Rightarrow> db \<times> 'r \<Rightarrow> (string + unit) \<times> db \<times> 'r" where
  "relayOnce R F locked now st =
     (let (db, s) = st in
      case F RelayClaim of
        Some m \<Rightarrow> (Inl m, db, s)
      | None \<Rightarrow>
          (let claimedIds = select_unpublished locked db;
               db' = (if claimedIds = [] then db else mark_published now claimedIds db)
           in (Inr (), db', publish_all R claimedIds s)))"

section \<open>BuildStreamConsumerService\<close>

text \<open>
  What one run of \<open>handleMessage\<close> meets: refused calls, the other requests while the build runs,
  the generated id and the clock.
\<close>

record run_ctx =
  rc_faults :: faults
  rc_meanwhile :: "db \<Rightarrow> db"
  rc_verId :: string
  rc_now :: nat

definition handleMessage ::
  "'r redis \<Rightarrow> (db_error \<Rightarrow> string) \<Rightarrow> (build_params \<Rightarrow> string + string) \<Rightarrow> run_ctx \<Rightarrow> string \<Rightarrow> string list \<Rightarrow>
   db \<times> 'r \<Rightarrow> db \<times> 'r" where
  "handleMessage R dbMessage exec cx messageId flds st =
     (let (db, s) = st;
          ack = (\<lambda>s. snd (xack R BUILD_STREAM_KEY BUILD_CONSUMER_GROUP messageId s))
      in case field_after ''buildId'' flds of
           None \<Rightarrow> (db, s)
         | Some buildId \<Rightarrow>
             (case db_read (rc_faults cx) ConsumerFindBuild (build_find buildId db) of
                Inl _ \<Rightarrow> (db, s)
              | Inr None \<Rightarrow> (db, s)
              | Inr (Some b) \<Rightarrow>
                  if build_status b = SUCCESS \<or> build_status b = FAILED then (db, ack s)
                  else (case runBuild (rc_faults cx) dbMessage exec (rc_meanwhile cx) (rc_verId cx) (rc_now cx) b db of
                          (Inl _, db') \<Rightarrow> (db', s)
                        | (Inr _, db') \<Rightarrow> (db', ack s))))"

fun handle_all where
  "handle_all R dbMessage exec cx [] st = st"
| "handle_all R dbMessage exec cx ((messageId, flds) # ms) st =
     handle_all R dbMessage exec cx ms (handleMessage R dbMessage exec (cx messageId) messageId flds st)"

definition readAndProcessOnce where
  "readAndProcessOnce R dbMessage exec cx now consumer st =
     (let (db, s) = st in
      case xreadgroup R now BUILD_STREAM_KEY BUILD_CONSUMER_GROUP consumer s of
        (Inl m, s') \<Rightarrow> (Inl m, db, s')
      | (Inr messages, s') \<Rightarrow> (Inr (), handle_all R dbMessage exec cx messages (db, s')))"

definition reclaimAbandonedMessages where
  "reclaimAbandonedMessages R dbMessage exec cx now claimIdleMs consumer st =
     (let (db, s) = st in
      case xautoclaim R now BUILD_STREAM_KEY BUILD_CONSUMER_GROUP consumer claimIdleMs s of
        (Inl m, s') \<Rightarrow> (Inl m, db, s')
      | (Inr claimed, s') \<Rightarrow> (Inr (), handle_all R dbMessage exec cx claimed (db, s')))"

text \<open>One iteration of \<open>loop\<close>: an exception of the first call skips the second.\<close>

definition consumer_iteration where
  "consumer_iteration R dbMessage exec cx now now' claimIdleMs consumer st =
     (case reclaimAbandonedMessages R dbMessage exec cx now claimIdleMs consumer st of
        (Inl m, st') \<Rightarrow> st'
      | (Inr _, st') \<Rightarrow> snd (readAndProcessOnce R dbMessage exec cx now' consumer st'))"

section \<open>Consumer: lemmas\<close>

definition is_settled :: "build \<Rightarrow> bool" where
  "is_settled b \<longleftrightarrow> build_status b = SUCCESS \<or> build_status b = FAILED"

lemma update_settles:
  assumes "builds db' = update_where (\<lambda>x. build_id x = i) g (builds db)" and "i \<in> build_id ` set (builds db)"
    and "db_wf db'" and "\<And>x. build_id (g x) = build_id x" and "\<And>x. is_settled (g x)"
  shows "\<exists>y. build_find i db' = Some y \<and> is_settled y"
proof -
  obtain x where "x \<in> set (builds db)" "build_id x = i" using assms(2) by auto
  then have "g x \<in> set (builds db')" "build_id (g x) = i"
    using assms(1,4) in_update_where_this [of x "builds db" "\<lambda>x. build_id x = i" g] by auto
  then show ?thesis using build_find_iff [OF assms(3)] assms(5) by blast
qed

lemma runBuild_settles:
  assumes "db_wf db" and "db_wf (meanwhile db)" and "runBuild F msg exec meanwhile verId now b db = (Inr u, db')"
  shows "\<exists>y. build_find (build_id b) db' = Some y \<and> is_settled y"
proof -
  have wf: "db_wf db'" using runBuild_wf [of db meanwhile F msg exec verId now b] assms by simp
  from assms(3) show ?thesis
  proof (cases rule: runBuild_cases)
    case (committed fn ref)
    show ?thesis
      by (rule update_settles [OF commit_version_Inr(2,3) [OF committed(3)] wf]) (simp_all add: is_settled_def)
  next
    case (failed m d)
    from failed(2) show ?thesis
    proof (cases rule: mark_failed_cases)
      case marked
      show ?thesis
        by (rule update_settles [OF _ marked(2) wf, of "\<lambda>x. x\<lparr>build_status := FAILED, build_errorMessage := Some m,
              finishedAt := Some now\<rparr>"]) (use marked(3) in \<open>simp_all add: is_settled_def\<close>)
    qed simp
  qed
qed

lemma runBuild_no_faults:
  assumes "db_wf db" and "b \<in> set (builds db)"
    and "runBuild no_faults msg exec (\<lambda>d. d) verId now b db = (r, db')"
  shows "\<exists>u. r = Inr u" and "length (functionVersions db') \<le> Suc (length (functionVersions db))"
proof -
  have "(\<exists>u. r = Inr u) \<and> length (functionVersions db') \<le> Suc (length (functionVersions db))"
    using assms(3)
  proof (cases rule: runBuild_cases)
    case (committed fn ref)
    then show ?thesis using commit_version_Inr(1) [OF committed(3)] by simp
  next
    case (failed m d)
    then have "d = db" by simp
    with failed(2) assms(2) show ?thesis by (auto simp: mark_failed_def build_update_def)
  qed
  then show "\<exists>u. r = Inr u" and "length (functionVersions db') \<le> Suc (length (functionVersions db))" by auto
qed

lemma handleMessage_settled:
  assumes "field_after ''buildId'' flds = Some i" and "rc_faults cx ConsumerFindBuild = None"
    and "build_find i db = Some b" and "is_settled b"
  shows "handleMessage R msg exec cx m flds (db, s) = (db, snd (xack R BUILD_STREAM_KEY BUILD_CONSUMER_GROUP m s))"
  using assms by (auto simp: handleMessage_def is_settled_def)

lemma handleMessage_runs:
  assumes "field_after ''buildId'' flds = Some i" and "rc_faults cx ConsumerFindBuild = None"
    and "build_find i db = Some b" and "\<not> is_settled b"
    and "runBuild (rc_faults cx) msg exec (rc_meanwhile cx) (rc_verId cx) (rc_now cx) b db = (r, db')"
  shows "handleMessage R msg exec cx m flds (db, s) =
    (db', case r of Inl _ \<Rightarrow> s | Inr _ \<Rightarrow> snd (xack R BUILD_STREAM_KEY BUILD_CONSUMER_GROUP m s))"
  using assms by (auto simp: handleMessage_def is_settled_def split: sum.split)

lemma handleMessage_drops:
  assumes "\<And>i b. field_after ''buildId'' flds = Some i \<Longrightarrow> db_read (rc_faults cx) ConsumerFindBuild (build_find i db) \<noteq> Inr (Some b)"
  shows "handleMessage R msg exec cx m flds (db, s) = (db, s)"
proof (cases "field_after ''buildId'' flds")
  case (Some i)
  have "db_read (rc_faults cx) ConsumerFindBuild (build_find i db) \<noteq> Inr (Some b)" for b by (rule assms [OF Some])
  then show ?thesis
    by (cases "db_read (rc_faults cx) ConsumerFindBuild (build_find i db)")
       (auto simp: handleMessage_def Some split: option.split)
qed (simp add: handleMessage_def)

lemma handleMessage_cases:
  obtains (dropped) "handleMessage R msg exec cx m flds (db, s) = (db, s)"
      "\<And>i b. field_after ''buildId'' flds = Some i \<Longrightarrow> db_read (rc_faults cx) ConsumerFindBuild (build_find i db) \<noteq> Inr (Some b)"
  | (skipped) i b where "field_after ''buildId'' flds = Some i" "build_find i db = Some b" "is_settled b"
      "handleMessage R msg exec cx m flds (db, s) = (db, snd (xack R BUILD_STREAM_KEY BUILD_CONSUMER_GROUP m s))"
  | (ran) i b r db' where "field_after ''buildId'' flds = Some i" "build_find i db = Some b" "\<not> is_settled b"
      "runBuild (rc_faults cx) msg exec (rc_meanwhile cx) (rc_verId cx) (rc_now cx) b db = (r, db')"
      "handleMessage R msg exec cx m flds (db, s) =
        (db', case r of Inl _ \<Rightarrow> s | Inr _ \<Rightarrow> snd (xack R BUILD_STREAM_KEY BUILD_CONSUMER_GROUP m s))"
proof (cases "\<exists>i b. field_after ''buildId'' flds = Some i \<and> db_read (rc_faults cx) ConsumerFindBuild (build_find i db) = Inr (Some b)")
  case False
  then show thesis using dropped handleMessage_drops by metis
next
  case True
  then obtain i b where i: "field_after ''buildId'' flds = Some i" "rc_faults cx ConsumerFindBuild = None" "build_find i db = Some b"
    by (metis db_read_Inr)
  show thesis
  proof (cases "is_settled b")
    case True
    with i show thesis using skipped handleMessage_settled by metis
  next
    case False
    obtain r db' where "runBuild (rc_faults cx) msg exec (rc_meanwhile cx) (rc_verId cx) (rc_now cx) b db = (r, db')" by fastforce
    with False i show thesis using ran handleMessage_runs by metis
  qed
qed

section \<open>Many relays at once\<close>

text \<open>
  A call of \<open>relayOnce\<close> is named by a tick. Its transaction first selects and locks rows, then marks
  them and commits (or rolls back); then it publishes the claimed ids one by one. \<open>ob_used\<close> are the
  ids ever given to a build, \<open>ob_lost\<close> the claimed ids whose \<open>XADD\<close> did not take effect.
\<close>

record outbox =
  ob_db :: db
  ob_locks :: "(string \<times> string) list"
  ob_claims :: "(string \<times> string) list"
  ob_log :: "string list"
  ob_lost :: "string list"
  ob_used :: "string set"

definition init_outbox :: "db \<Rightarrow> outbox" where
  "init_outbox db = \<lparr>ob_db = db, ob_locks = [], ob_claims = [], ob_log = [], ob_lost = [], ob_used = build_id ` set (builds db)\<rparr>"

datatype relay_event =
    Select string
  | Commit string nat
  | Rollback string
  | Xadd string bool
  | Dies string
  | Submitted build
  | Finished string build_status
  | Deleted string

definition of_tick :: "string \<Rightarrow> (string \<times> string) list \<Rightarrow> string list" where
  "of_tick t ls = map fst (filter (\<lambda>l. snd l = t) ls)"

definition without_tick :: "string \<Rightarrow> (string \<times> string) list \<Rightarrow> (string \<times> string) list" where
  "without_tick t ls = filter (\<lambda>l. snd l \<noteq> t) ls"

text \<open>
  \<open>Xadd t ok\<close> is the next \<open>XADD\<close> of tick \<open>t\<close>, with or without effect; a process that dies leaves its
  remaining claims unpublished. Other parts of the program submit builds under fresh ids, finish
  builds and delete functions; a row that is locked cannot be changed or deleted.
\<close>

fun relay_step :: "relay_event \<Rightarrow> outbox \<Rightarrow> outbox option" where
  "relay_step (Select t) ob =
     (if of_tick t (ob_locks ob) \<noteq> [] \<or> of_tick t (ob_claims ob) \<noteq> [] then None
      else Some (ob\<lparr>ob_locks := ob_locks ob @
             map (\<lambda>i. (i, t)) (select_unpublished (fst ` set (ob_locks ob)) (ob_db ob))\<rparr>))"
| "relay_step (Commit t now) ob =
     (let ids = of_tick t (ob_locks ob) in
      if ids = [] then None
      else Some (ob\<lparr>ob_db := mark_published now ids (ob_db ob), ob_locks := without_tick t (ob_locks ob),
                    ob_claims := ob_claims ob @ map (\<lambda>i. (i, t)) ids\<rparr>))"
| "relay_step (Rollback t) ob = Some (ob\<lparr>ob_locks := without_tick t (ob_locks ob)\<rparr>)"
| "relay_step (Xadd t ok) ob =
     (case of_tick t (ob_claims ob) of
        [] \<Rightarrow> None
      | i # _ \<Rightarrow>
          (let ob' = ob\<lparr>ob_claims := remove1 (i, t) (ob_claims ob)\<rparr>
           in Some (if ok then ob'\<lparr>ob_log := ob_log ob @ [i]\<rparr> else ob'\<lparr>ob_lost := ob_lost ob @ [i]\<rparr>)))"
| "relay_step (Dies t) ob =
     Some (ob\<lparr>ob_locks := without_tick t (ob_locks ob), ob_claims := without_tick t (ob_claims ob),
              ob_lost := ob_lost ob @ of_tick t (ob_claims ob)\<rparr>)"
| "relay_step (Submitted b) ob =
     (if build_id b \<in> ob_used ob \<or> \<not> unpublished b then None
      else Some (ob\<lparr>ob_db := (ob_db ob)\<lparr>builds := builds (ob_db ob) @ [b]\<rparr>, ob_used := insert (build_id b) (ob_used ob)\<rparr>))"
| "relay_step (Finished i st) ob =
     (if i \<in> fst ` set (ob_locks ob) \<or> st \<notin> {SUCCESS, FAILED} then None
      else Some (ob\<lparr>ob_db := (ob_db ob)\<lparr>builds :=
             update_where (\<lambda>b. build_id b = i) (\<lambda>b. b\<lparr>build_status := st\<rparr>) (builds (ob_db ob))\<rparr>\<rparr>))"
| "relay_step (Deleted fid) ob =
     (if \<exists>b \<in> set (builds (ob_db ob)). build_functionId b = fid \<and> build_id b \<in> fst ` set (ob_locks ob) then None
      else Some (ob\<lparr>ob_db := delete_function_row fid (ob_db ob)\<rparr>))"

inductive relays_reach :: "outbox \<Rightarrow> outbox \<Rightarrow> bool" where
  refl: "relays_reach ob ob"
| step: "relays_reach ob ob1 \<Longrightarrow> relay_step e ob1 = Some ob2 \<Longrightarrow> relays_reach ob ob2"

text \<open>
  Rows have distinct ids; a locked row is unpublished; a row that is claimed, published or lost is
  not unpublished any more, and is in exactly one of these lists, once.
\<close>

definition handed_out :: "outbox \<Rightarrow> string list" where
  "handed_out ob = ob_log ob @ map fst (ob_claims ob) @ ob_lost ob"

definition outbox_ok :: "outbox \<Rightarrow> bool" where
  "outbox_ok ob \<longleftrightarrow>
     distinct (map build_id (builds (ob_db ob))) \<and>
     build_id ` set (builds (ob_db ob)) \<subseteq> ob_used ob \<and>
     distinct (map fst (ob_locks ob)) \<and>
     (\<forall>l \<in> set (ob_locks ob). \<exists>b \<in> set (builds (ob_db ob)). build_id b = fst l \<and> unpublished b) \<and>
     distinct (handed_out ob) \<and> set (handed_out ob) \<subseteq> ob_used ob \<and>
     (\<forall>b \<in> set (builds (ob_db ob)). unpublished b \<longrightarrow> build_id b \<notin> set (handed_out ob))"

lemma distinct_map_sort_key: "distinct (map f xs) \<Longrightarrow> distinct (map f (sort_key k xs))"
  by (simp add: distinct_map)

lemma distinct_map_take: "distinct (map f xs) \<Longrightarrow> distinct (map f (take n xs))"
  using distinct_take [of "map f xs" n] by (simp add: take_map)

lemma select_distinct:
  "distinct (map build_id (builds db)) \<Longrightarrow> distinct (select_unpublished L db)"
  unfolding select_unpublished_def
  by (intro distinct_map_take distinct_map_sort_key distinct_map_filter)

lemma in_select:
  "i \<in> set (select_unpublished L db) \<Longrightarrow> i \<notin> L \<and> (\<exists>b \<in> set (builds db). build_id b = i \<and> unpublished b)"
  unfolding select_unpublished_def by (auto dest!: in_set_takeD)

lemma select_subset:
  "set (select_unpublished L db) \<subseteq> build_id ` set (filter (\<lambda>b. unpublished b \<and> build_id b \<notin> L) (builds db))"
  by (rule subsetI) (drule in_select, auto)

lemma mset_of_tick: "mset (of_tick t ls) + mset (map fst (without_tick t ls)) = mset (map fst ls)"
  by (induction ls) (auto simp: of_tick_def without_tick_def)

lemma mset_remove_claim: "(i, t) \<in> set ls \<Longrightarrow> mset (map fst ls) = add_mset i (mset (map fst (remove1 (i, t) ls)))"
  by (induction ls) auto

lemma of_tick_head: "of_tick t ls = i # is \<Longrightarrow> (i, t) \<in> set ls"
  by (induction ls) (auto simp: of_tick_def split: if_splits)

lemma outbox_ok_handed:
  assumes "outbox_ok ob" and "mset (handed_out ob') = mset (handed_out ob)"
    and "ob_db ob' = ob_db ob" and "ob_used ob' = ob_used ob" and "ob_locks ob' = without_tick t (ob_locks ob) \<or> ob_locks ob' = ob_locks ob"
  shows "outbox_ok ob'"
proof -
  have "distinct (handed_out ob') \<longleftrightarrow> distinct (handed_out ob)" "set (handed_out ob') = set (handed_out ob)"
    using assms(2) by (auto dest: mset_eq_imp_distinct_iff mset_eq_setD)
  moreover have "distinct (map fst (ob_locks ob'))" "set (ob_locks ob') \<subseteq> set (ob_locks ob)"
    using assms(1,5) by (auto simp: outbox_ok_def without_tick_def distinct_map_filter)
  ultimately show ?thesis using assms(1,3,4) unfolding outbox_ok_def by auto
qed

lemma select_ok:
  assumes "outbox_ok ob" and "relay_step (Select t) ob = Some ob'"
  shows "outbox_ok ob'"
proof -
  let ?new = "select_unpublished (fst ` set (ob_locks ob)) (ob_db ob)"
  have ob': "ob' = ob\<lparr>ob_locks := ob_locks ob @ map (\<lambda>i. (i, t)) ?new\<rparr>" using assms(2) by (auto split: if_splits)
  have "distinct ?new" using assms(1) select_distinct by (simp add: outbox_ok_def)
  moreover have "\<forall>i \<in> set ?new. i \<notin> fst ` set (ob_locks ob) \<and> (\<exists>b \<in> set (builds (ob_db ob)). build_id b = i \<and> unpublished b)"
    using in_select by blast
  ultimately show ?thesis using assms(1) unfolding ob' by (auto simp: outbox_ok_def handed_out_def comp_def)
qed

lemma mark_published_columns:
  "map build_id (builds (mark_published now ids db)) = map build_id (builds db)"
  by (simp add: mark_published_def row_simps)

lemma mark_published_unpublished:
  "b \<in> set (builds (mark_published now ids db)) \<Longrightarrow> unpublished b \<Longrightarrow> b \<in> set (builds db) \<and> build_id b \<notin> set ids"
  by (auto simp: mark_published_def unpublished_def elim!: in_update_whereE split: if_splits)

lemma mark_published_kept:
  "b \<in> set (builds db) \<Longrightarrow> build_id b \<notin> set ids \<Longrightarrow> b \<in> set (builds (mark_published now ids db))"
  by (simp add: mark_published_def in_update_where_other)

lemma mark_published_rows:
  "{b \<in> set (builds (mark_published now ids db)). unpublished b} = {b \<in> set (builds db). unpublished b \<and> build_id b \<notin> set ids}"
proof (intro set_eqI iffI)
  fix b
  assume "b \<in> {b \<in> set (builds (mark_published now ids db)). unpublished b}"
  then show "b \<in> {b \<in> set (builds db). unpublished b \<and> build_id b \<notin> set ids}"
    using mark_published_unpublished [of b now ids db] by simp
next
  fix b
  assume "b \<in> {b \<in> set (builds db). unpublished b \<and> build_id b \<notin> set ids}"
  then show "b \<in> {b \<in> set (builds (mark_published now ids db)). unpublished b}"
    using mark_published_kept [of b db ids now] by simp
qed

lemma lock_of_tick: "i \<in> set (of_tick t ls) \<longleftrightarrow> (i, t) \<in> set ls"
  by (force simp: of_tick_def)

lemma lock_other:
  assumes "distinct (map fst ls)" and "l \<in> set (without_tick t ls)"
  shows "fst l \<notin> set (of_tick t ls)"
proof
  assume "fst l \<in> set (of_tick t ls)"
  then have "(fst l, t) \<in> set ls" by (simp add: lock_of_tick)
  moreover have "l \<in> set ls" "snd l \<noteq> t" using assms(2) by (auto simp: without_tick_def)
  ultimately have "l = (fst l, t)" using distinct_map_inj [OF assms(1), of l "(fst l, t)"] by simp
  with \<open>snd l \<noteq> t\<close> show False by (metis snd_conv)
qed

lemma commit_ok:
  assumes ok: "outbox_ok ob" and "relay_step (Commit t now) ob = Some ob'"
  shows "outbox_ok ob'"
proof -
  let ?ids = "of_tick t (ob_locks ob)"
  have ob': "ob' = ob\<lparr>ob_db := mark_published now ?ids (ob_db ob), ob_locks := without_tick t (ob_locks ob),
      ob_claims := ob_claims ob @ map (\<lambda>i. (i, t)) ?ids\<rparr>"
    using assms(2) by (auto simp: Let_def split: if_splits)
  have ids: "distinct ?ids" using ok unfolding of_tick_def by (auto simp: outbox_ok_def intro: distinct_map_filter)
  have unp: "\<exists>b \<in> set (builds (ob_db ob)). build_id b = i \<and> unpublished b" if "i \<in> set ?ids" for i
    using that ok unfolding lock_of_tick outbox_ok_def by fastforce
  then have fresh: "set ?ids \<inter> set (handed_out ob) = {}" "set ?ids \<subseteq> ob_used ob"
    using ok unfolding outbox_ok_def by (fastforce, fastforce)
  have m: "mset (handed_out ob') = mset ?ids + mset (handed_out ob)" by (simp add: ob' handed_out_def comp_def)
  then have hd: "set (handed_out ob') = set ?ids \<union> set (handed_out ob)"
    by (metis mset_append mset_eq_setD set_append)
  have dist: "distinct (handed_out ob')"
    using m ids fresh(1) ok mset_eq_imp_distinct_iff [of "handed_out ob'" "?ids @ handed_out ob"] by (simp add: outbox_ok_def)
  have other: "fst l \<notin> set ?ids" if "l \<in> set (without_tick t (ob_locks ob))" for l
    using that ok lock_other by (simp add: outbox_ok_def)
  have locks: "\<exists>b \<in> set (builds (ob_db ob')). build_id b = fst l \<and> unpublished b" if "l \<in> set (ob_locks ob')" for l
  proof -
    have "l \<in> set (ob_locks ob)" "fst l \<notin> set ?ids" using that other by (auto simp: ob' without_tick_def)
    then obtain b where "b \<in> set (builds (ob_db ob))" "build_id b = fst l" "unpublished b"
      using ok unfolding outbox_ok_def by blast
    with \<open>fst l \<notin> set ?ids\<close> show ?thesis using mark_published_kept by (fastforce simp: ob')
  qed
  have "distinct (map build_id (builds (ob_db ob')))" "build_id ` set (builds (ob_db ob')) \<subseteq> ob_used ob'"
    using ok mark_published_columns [of now ?ids "ob_db ob"] unfolding outbox_ok_def ob'
    by (simp_all, metis image_set)
  moreover have "distinct (map fst (ob_locks ob'))" using ok by (simp add: outbox_ok_def ob' without_tick_def distinct_map_filter)
  moreover have "build_id b \<notin> set (handed_out ob')" if "b \<in> set (builds (ob_db ob'))" "unpublished b" for b
    using that mark_published_unpublished [of b now ?ids "ob_db ob"] ok hd by (auto simp: outbox_ok_def ob')
  ultimately show ?thesis using dist hd fresh(2) locks ok unfolding outbox_ok_def by (simp add: ob')
qed

lemma xadd_ok:
  assumes "outbox_ok ob" and "relay_step (Xadd t ok) ob = Some ob'"
  shows "outbox_ok ob'"
proof -
  obtain i "is" where i: "of_tick t (ob_claims ob) = i # is" using assms(2) by (auto split: list.splits)
  have "mset (map fst (ob_claims ob)) = add_mset i (mset (map fst (remove1 (i, t) (ob_claims ob))))"
    by (rule mset_remove_claim [OF of_tick_head [OF i]])
  then have "mset (handed_out ob') = mset (handed_out ob)"
    using assms(2) i by (auto simp: handed_out_def Let_def)
  then show ?thesis using outbox_ok_handed [OF assms(1)] assms(2) i by (auto simp: Let_def)
qed

lemma dies_ok:
  assumes "outbox_ok ob" and "relay_step (Dies t) ob = Some ob'"
  shows "outbox_ok ob'"
proof -
  have "mset (handed_out ob') = mset (handed_out ob)"
    using assms(2) mset_of_tick [of t "ob_claims ob"] by (auto simp: handed_out_def ac_simps)
  then show ?thesis by (rule outbox_ok_handed [OF assms(1), of _ t]) (use assms(2) in auto)
qed

lemma submitted_ok:
  assumes "outbox_ok ob" and "relay_step (Submitted b) ob = Some ob'"
  shows "outbox_ok ob'"
proof -
  have b: "build_id b \<notin> ob_used ob"
    and ob': "ob' = ob\<lparr>ob_db := (ob_db ob)\<lparr>builds := builds (ob_db ob) @ [b]\<rparr>, ob_used := insert (build_id b) (ob_used ob)\<rparr>"
    using assms(2) by (auto split: if_splits)
  have "build_id b \<notin> build_id ` set (builds (ob_db ob))" "build_id b \<notin> set (handed_out ob)" "handed_out ob' = handed_out ob"
    using b assms(1) by (auto simp: outbox_ok_def handed_out_def ob')
  then show ?thesis using assms(1) unfolding outbox_ok_def by (auto simp: ob')
qed

lemma finished_ok:
  assumes ok: "outbox_ok ob" and "relay_step (Finished i st) ob = Some ob'"
  shows "outbox_ok ob'"
proof -
  let ?bs = "update_where (\<lambda>b. build_id b = i) (\<lambda>b. b\<lparr>build_status := st\<rparr>) (builds (ob_db ob))"
  have st: "i \<notin> fst ` set (ob_locks ob)" "st \<noteq> PENDING"
    and ob': "ob' = ob\<lparr>ob_db := (ob_db ob)\<lparr>builds := ?bs\<rparr>\<rparr>"
    using assms(2) by (auto split: if_splits)
  have "map build_id ?bs = map build_id (builds (ob_db ob))" "build_id ` set ?bs = build_id ` set (builds (ob_db ob))"
    by (simp_all add: row_simps)
  moreover have "b \<in> set (builds (ob_db ob))" if "b \<in> set ?bs" "unpublished b" for b
    using that st(2) by (auto simp: unpublished_def elim!: in_update_whereE split: if_splits)
  moreover have "\<exists>b \<in> set ?bs. build_id b = fst l \<and> unpublished b" if "l \<in> set (ob_locks ob)" for l
  proof -
    obtain b where "b \<in> set (builds (ob_db ob))" "build_id b = fst l" "unpublished b"
      using ok \<open>l \<in> set (ob_locks ob)\<close> unfolding outbox_ok_def by blast
    moreover have "fst l \<noteq> i" using st(1) that by auto
    ultimately show ?thesis
      using in_update_where_other [of b "builds (ob_db ob)" "\<lambda>b. build_id b = i" "\<lambda>b. b\<lparr>build_status := st\<rparr>"] by auto
  qed
  ultimately show ?thesis using ok unfolding outbox_ok_def ob' by (simp add: handed_out_def)
qed

lemma deleted_ok:
  assumes ok: "outbox_ok ob" and "relay_step (Deleted fid) ob = Some ob'"
  shows "outbox_ok ob'"
proof -
  have free: "\<forall>b \<in> set (builds (ob_db ob)). build_functionId b = fid \<longrightarrow> build_id b \<notin> fst ` set (ob_locks ob)"
    and ob': "ob' = ob\<lparr>ob_db := delete_function_row fid (ob_db ob)\<rparr>"
    using assms(2) by (auto split: if_splits)
  have bs: "builds (ob_db ob') = filter (\<lambda>b. build_functionId b \<noteq> fid) (builds (ob_db ob))"
    by (simp add: ob' delete_function_row_def Let_def)
  have "\<exists>b \<in> set (builds (ob_db ob')). build_id b = fst l \<and> unpublished b" if "l \<in> set (ob_locks ob)" for l
    using ok that free unfolding bs outbox_ok_def by fastforce
  then show ?thesis using ok unfolding outbox_ok_def bs by (auto simp: ob' handed_out_def distinct_map_filter)
qed

lemma rollback_ok:
  assumes "outbox_ok ob" and "relay_step (Rollback t) ob = Some ob'"
  shows "outbox_ok ob'"
  by (rule outbox_ok_handed [OF assms(1), of _ t]) (use assms(2) in \<open>auto simp: handed_out_def\<close>)

lemmas relay_steps_ok = select_ok commit_ok rollback_ok xadd_ok dies_ok submitted_ok finished_ok deleted_ok

lemma relay_step_ok: "outbox_ok ob \<Longrightarrow> relay_step e ob = Some ob' \<Longrightarrow> outbox_ok ob'"
  by (cases e; hypsubst; erule (1) relay_steps_ok)

lemma relays_reach_ok: "relays_reach ob ob' \<Longrightarrow> outbox_ok ob \<Longrightarrow> outbox_ok ob'"
  by (induction rule: relays_reach.induct) (auto intro: relay_step_ok)

lemma init_outbox_ok:
  "distinct (map build_id (builds db)) \<Longrightarrow> outbox_ok (init_outbox db)"
  by (simp add: outbox_ok_def init_outbox_def handed_out_def)

lemma ob_lost_grows: "relay_step e ob = Some ob' \<Longrightarrow> set (ob_lost ob) \<subseteq> set (ob_lost ob')"
  by (cases e) (auto simp: Let_def split: if_splits list.splits)

lemma relays_reach_lost: "relays_reach ob ob' \<Longrightarrow> set (ob_lost ob) \<subseteq> set (ob_lost ob')"
  by (induction rule: relays_reach.induct) (auto dest: ob_lost_grows)

section \<open>What one tick claims and publishes\<close>

lemma length_select:
  "length (select_unpublished L db) = min 20 (length (filter (\<lambda>b. unpublished b \<and> build_id b \<notin> L) (builds db)))"
  by (simp add: select_unpublished_def min.commute)

lemma take_sorted_le:
  assumes "sorted (map f xs)" and "x \<in> set (take n xs)" and "y \<in> set (drop n xs)"
  shows "f x \<le> f y"
proof -
  have "sorted (map f (take n xs) @ map f (drop n xs))" using assms(1) by (metis append_take_drop_id map_append)
  then show ?thesis using assms(2,3) by (auto simp: sorted_append)
qed

lemma select_oldest:
  assumes "b \<in> set (builds db)" and "unpublished b" and "build_id b \<notin> L" and "build_id b \<in> set (select_unpublished L db)"
    and "c \<in> set (builds db)" and "unpublished c" and "build_id c \<notin> L" and "build_id c \<notin> set (select_unpublished L db)"
    and "distinct (map build_id (builds db))"
  shows "build_createdAt b \<le> build_createdAt c"
proof -
  let ?l = "sort_key build_createdAt (filter (\<lambda>b. unpublished b \<and> build_id b \<notin> L) (builds db))"
  have "c \<in> set ?l" using assms by simp
  moreover have "c \<notin> set (take 20 ?l)" using assms(8) unfolding select_unpublished_def by auto
  ultimately have c: "c \<in> set (drop 20 ?l)" by (metis Un_iff append_take_drop_id set_append)
  obtain x where x: "x \<in> set (take 20 ?l)" "build_id x = build_id b" using assms(4) unfolding select_unpublished_def by auto
  then have "x \<in> set (builds db)" by (auto dest!: in_set_takeD)
  then have "x = b" using distinct_map_inj [OF assms(9)] assms(1) x(2) by blast
  then show ?thesis using take_sorted_le [where f = build_createdAt and xs = ?l, OF sorted_sort_key x(1) c] by simp
qed

context redis_stream
begin

text \<open>The entries a loop of \<open>XADD\<close>s leaves are those of a subsequence of the ids, in their order.\<close>

lemma publish_all_entries:
  "\<exists>js new. subseq js ids \<and> map snd new = map (\<lambda>i. [''buildId'', i]) js
     \<and> entries (streams (view R (publish_all R ids s)) BUILD_STREAM_KEY) = entries (streams (view R s) BUILD_STREAM_KEY) @ new"
proof (induction ids arbitrary: s)
  case Nil
  show ?case by (intro exI [of _ "[]"]) simp
next
  case (Cons i ids)
  let ?s = "snd (xadd R BUILD_STREAM_KEY [''buildId'', i] s)"
  obtain js new where IH: "subseq js ids" "map snd new = map (\<lambda>i. [''buildId'', i]) js"
      "entries (streams (view R (publish_all R ids ?s)) BUILD_STREAM_KEY) = entries (streams (view R ?s) BUILD_STREAM_KEY) @ new"
    using Cons.IH [of ?s] by blast
  have "view R ?s = view R s \<or> (\<exists>k. view R ?s = upd_stream BUILD_STREAM_KEY (append_entry k [''buildId'', i]) (view R s))"
    using xadd_Inl [of BUILD_STREAM_KEY "[''buildId'', i]" s] xadd_Inr [of BUILD_STREAM_KEY "[''buildId'', i]" s]
    by (cases "xadd R BUILD_STREAM_KEY [''buildId'', i] s"; cases "fst (xadd R BUILD_STREAM_KEY [''buildId'', i] s)") auto
  then show ?case
  proof
    assume "view R ?s = view R s"
    then show ?thesis using IH by (intro exI [of _ js] exI [of _ new]) auto
  next
    assume "\<exists>k. view R ?s = upd_stream BUILD_STREAM_KEY (append_entry k [''buildId'', i]) (view R s)"
    then obtain k where "view R ?s = upd_stream BUILD_STREAM_KEY (append_entry k [''buildId'', i]) (view R s)" by blast
    then show ?thesis using IH
      by (intro exI [of _ "i # js"] exI [of _ "(k, [''buildId'', i]) # new"]) (simp add: upd_stream_def append_entry_def)
  qed
qed

lemma ack_view:
  "view R (snd (xack R k g m s)) \<in> {view R s, upd_stream k (acknowledge g m) (view R s)}"
  using xack_Inl [of k g m s] xack_Inr [of k g m s]
  by (cases "xack R k g m s"; cases "fst (xack R k g m s)") auto

end

section \<open>Properties\<close>

text \<open>
  C27. Every build is published at most once, however many relays run at the same time: in every
  state that any interleaving of ticks (with rollbacks, failing \<open>XADD\<close>s and dying processes),
  submissions, finished builds and deletions can reach, the published ids are distinct, no
  published or claimed build can be selected again, and no two open transactions hold the same
  row.
\<close>

theorem relays_publish_once:
  assumes "db_wf db" and "relays_reach (init_outbox db) ob"
  shows "distinct (ob_log ob) \<and> set (ob_log ob) \<inter> fst ` set (ob_claims ob) = {} \<and> distinct (map fst (ob_locks ob))
    \<and> (\<forall>L. set (select_unpublished L (ob_db ob)) \<inter> (set (ob_log ob) \<union> fst ` set (ob_claims ob)) = {})"
proof -
  have ok: "outbox_ok ob"
    using relays_reach_ok [OF assms(2) init_outbox_ok] assms(1) by (simp add: db_wf_def builds_wf_def)
  then have "i \<notin> set (handed_out ob)" if "i \<in> set (select_unpublished L (ob_db ob))" for i L
    using in_select [OF that] unfolding outbox_ok_def by blast
  with ok show ?thesis unfolding outbox_ok_def handed_out_def by auto
qed

text \<open>
  C28. The price of claiming before publishing: a claimed build whose \<open>XADD\<close> fails, or whose process
  dies first, is never published by any relay in any continuation, although it is still PENDING.
\<close>

theorem failed_publication_is_final:
  assumes "db_wf db" and "relays_reach (init_outbox db) ob"
    and "relay_step (Xadd t False) ob = Some ob1" and "of_tick t (ob_claims ob) = i # rest"
    and "relays_reach ob1 ob2"
  shows "i \<notin> set (ob_log ob2) \<and> (\<forall>L. i \<notin> set (select_unpublished L (ob_db ob2)))"
proof -
  have ok1: "outbox_ok ob1"
    using relays_reach_ok [OF relays_reach.step [OF assms(2,3)] init_outbox_ok] assms(1)
    by (simp add: db_wf_def builds_wf_def)
  then have ok2: "outbox_ok ob2" using relays_reach_ok [OF assms(5)] by blast
  have "i \<in> set (ob_lost ob1)" using assms(3,4) by (auto simp: Let_def)
  then have lost: "i \<in> set (ob_lost ob2)" using relays_reach_lost [OF assms(5)] by blast
  moreover have "i \<notin> set (select_unpublished L (ob_db ob2))" for L
  proof
    assume "i \<in> set (select_unpublished L (ob_db ob2))"
    from in_select [OF this] lost ok2 show False unfolding outbox_ok_def handed_out_def by auto
  qed
  ultimately show ?thesis using ok2 unfolding outbox_ok_def handed_out_def by auto
qed

text \<open>
  One tick takes the oldest: it claims as many as there are unlocked unpublished builds, at most
  20, never one that is younger than one it leaves, marks exactly these as published, and its
  \<open>XADD\<close>s add entries for them in the order of their creation -- all of them, except where Redis
  refuses.
\<close>

theorem relayOnce_takes_oldest:
  assumes "redis_stream R" and "db_wf db" and "relayOnce R F locked now (db, s) = (Inr (), db', s')"
    and "candidates = filter (\<lambda>b. unpublished b \<and> build_id b \<notin> locked) (builds db)"
  shows "\<exists>ids js new. length ids = min 20 (length candidates) \<and> distinct ids \<and> set ids \<subseteq> build_id ` set candidates
    \<and> (\<forall>b \<in> set candidates. \<forall>c \<in> set candidates. build_id b \<in> set ids \<and> build_id c \<notin> set ids \<longrightarrow>
         build_createdAt b \<le> build_createdAt c)
    \<and> {b \<in> set (builds db'). unpublished b} = {b \<in> set (builds db). unpublished b \<and> build_id b \<notin> set ids}
    \<and> subseq js ids \<and> map snd new = map (\<lambda>i. [''buildId'', i]) js
    \<and> entries (streams (view R s') BUILD_STREAM_KEY) = entries (streams (view R s) BUILD_STREAM_KEY) @ new"
proof -
  let ?ids = "select_unpublished locked db"
  have db': "db' = (if ?ids = [] then db else mark_published now ?ids db)" and s': "s' = publish_all R ?ids s"
    using assms(3) by (auto simp: relayOnce_def Let_def split: option.splits)
  have d: "distinct (map build_id (builds db))" using assms(2) by (simp add: db_wf_def builds_wf_def)
  obtain js new where new: "subseq js ?ids" "map snd new = map (\<lambda>i. [''buildId'', i]) js"
      "entries (streams (view R s') BUILD_STREAM_KEY) = entries (streams (view R s) BUILD_STREAM_KEY) @ new"
    unfolding s' using redis_stream.publish_all_entries [OF assms(1), of ?ids s] by blast
  have "{b \<in> set (builds db'). unpublished b} = {b \<in> set (builds db). unpublished b \<and> build_id b \<notin> set ?ids}"
  proof (cases "?ids = []")
    case False
    then show ?thesis using mark_published_rows by (simp add: db')
  qed (simp add: db')
  moreover have "set ?ids \<subseteq> build_id ` set candidates"
    unfolding assms(4) by (rule select_subset)
  moreover have "\<forall>b \<in> set candidates. \<forall>c \<in> set candidates. build_id b \<in> set ?ids \<and> build_id c \<notin> set ?ids \<longrightarrow>
      build_createdAt b \<le> build_createdAt c"
  proof (intro ballI impI, elim conjE)
    fix b c
    assume "b \<in> set candidates" "c \<in> set candidates" "build_id b \<in> set ?ids" "build_id c \<notin> set ?ids"
    then show "build_createdAt b \<le> build_createdAt c"
      unfolding assms(4) by (intro select_oldest [OF _ _ _ _ _ _ _ _ d, of b locked c]) simp_all
  qed
  ultimately show ?thesis
    using new select_distinct [OF d] length_select [of locked db] assms(4)
    by (intro exI [of _ ?ids] exI [of _ js] exI [of _ new]) simp
qed


text \<open>
  Redelivery is harmless: after a message of a build has been handled, handling the same message
  again, or another message of the same build, changes nothing in the database: the build runs once and
  makes at most one version.
\<close>

theorem handleMessage_idempotent:
  assumes "db_wf db" and "rc_faults cx = no_faults" and "rc_meanwhile cx = (\<lambda>d. d)" and "rc_faults cx2 ConsumerFindBuild = None"
    and "field_after ''buildId'' flds = Some i" and "field_after ''buildId'' flds2 = Some i"
    and "build_find i db = Some b"
    and "handleMessage R msg exec cx m flds (db, s) = (db1, s1)"
    and "handleMessage R msg exec cx2 m2 flds2 (db1, s1) = (db2, s2)"
  shows "db2 = db1 \<and> length (functionVersions db1) \<le> Suc (length (functionVersions db))
    \<and> (\<exists>y. build_find i db1 = Some y \<and> is_settled y)"
proof -
  have i: "build_id b = i" using build_find_SomeD [OF assms(7)] by simp
  have "length (functionVersions db1) \<le> Suc (length (functionVersions db)) \<and> (\<exists>y. build_find i db1 = Some y \<and> is_settled y)"
  proof (cases rule: handleMessage_cases [of R msg exec cx m flds db s])
    case dropped
    then show ?thesis using assms(2,5,7) by simp
  next
    case (skipped j x)
    then show ?thesis using assms(5,7,8) by auto
  next
    case (ran j x r d)
    then have x: "x = b" and d: "d = db1" using assms(5,7,8) by simp_all
    have run: "runBuild no_faults msg exec (\<lambda>d. d) (rc_verId cx) (rc_now cx) b db = (r, db1)"
      using ran(4) assms(2,3) by (simp add: x d)
    have "\<exists>u. r = Inr u" "length (functionVersions db1) \<le> Suc (length (functionVersions db))"
      using runBuild_no_faults [OF assms(1) _ run] assms(7) build_find_SomeD by blast+
    then show ?thesis using runBuild_settles [of db "\<lambda>d. d"] run assms(1) i by blast
  qed
  then obtain y where "build_find i db1 = Some y" "is_settled y"
    and "length (functionVersions db1) \<le> Suc (length (functionVersions db))" by blast
  moreover from this(1,2) have "db2 = db1"
    using handleMessage_settled [OF assms(6,4), of db1 y R msg exec m2 s1] assms(9) by simp
  ultimately show ?thesis by blast
qed

section \<open>Witnesses\<close>

lemma demo_select: "select_unpublished {} demo_builds = [''b1'', ''b2'']"
  "select_unpublished {''b1'', ''b2''} demo_builds = []"
  by (simp_all add: select_unpublished_def demo_builds_defs unpublished_def)

definition demo_claimed :: outbox where
  "demo_claimed = (init_outbox demo_builds)\<lparr>ob_db := mark_published 9 [''b1'', ''b2''] demo_builds,
     ob_claims := [(''b1'', ''t1''), (''b2'', ''t1'')]\<rparr>"

text \<open>Two ticks: the second selects while the first holds its locks, and finds nothing.\<close>

lemma demo_claimed_reach: "relays_reach (init_outbox demo_builds) demo_claimed"
proof -
  define ob1 where "ob1 = (init_outbox demo_builds)\<lparr>ob_locks := [(''b1'', ''t1''), (''b2'', ''t1'')]\<rparr>"
  have 1: "relay_step (Select ''t1'') (init_outbox demo_builds) = Some ob1"
    by (simp add: init_outbox_def of_tick_def demo_select ob1_def)
  have 2: "relay_step (Select ''t2'') ob1 = Some ob1"
    by (simp add: ob1_def init_outbox_def of_tick_def demo_select)
  have 3: "relay_step (Commit ''t1'' 9) ob1 = Some demo_claimed"
    by (simp add: ob1_def init_outbox_def of_tick_def without_tick_def demo_claimed_def)
  show ?thesis
    by (rule relays_reach.step [OF relays_reach.step [OF relays_reach.step [OF relays_reach.refl 1] 2] 3])
qed

text \<open>Witness of C27: two overlapping ticks.\<close>

theorem relays_publish_once_witness:
  "distinct (ob_log demo_claimed) \<and> set (ob_log demo_claimed) \<inter> fst ` set (ob_claims demo_claimed) = {}"
  using relays_publish_once [OF demo_builds_wf demo_claimed_reach] by blast

text \<open>Witness of C28: the \<open>XADD\<close> of the first claimed build fails.\<close>

theorem failed_publication_is_final_witness:
  "\<exists>ob1. relay_step (Xadd ''t1'' False) demo_claimed = Some ob1 \<and> ''b1'' \<notin> set (ob_log ob1)
     \<and> ''b1'' \<notin> set (select_unpublished {} (ob_db ob1))"
proof -
  have t: "of_tick ''t1'' (ob_claims demo_claimed) = ''b1'' # [''b2'']" by (simp add: of_tick_def demo_claimed_def)
  then obtain ob1 where ob1: "relay_step (Xadd ''t1'' False) demo_claimed = Some ob1" by simp
  from failed_publication_is_final [OF demo_builds_wf demo_claimed_reach ob1 t relays_reach.refl] ob1
  show ?thesis by blast
qed

text \<open>Witness of \<open>relayOnce_takes_oldest\<close>: one tick on the two pending builds.\<close>

theorem relayOnce_takes_oldest_witness:
  "\<exists>db' s'. relayOnce mem_redis no_faults {} 9 (demo_builds, empty_mem) = (Inr (), db', s')
     \<and> {b \<in> set (builds db'). unpublished b} = {}"
proof -
  obtain db' s' where r: "relayOnce mem_redis no_faults {} 9 (demo_builds, empty_mem) = (Inr (), db', s')"
    by (simp add: relayOnce_def Let_def)
  define cs where "cs = filter (\<lambda>b. unpublished b \<and> build_id b \<notin> {}) (builds demo_builds)"
  have cs: "cs = builds demo_builds" "length cs = 2" "build_id ` set cs = {''b1'', ''b2''}" "distinct (map build_id cs)"
    by (simp_all add: cs_def demo_builds_defs unpublished_def)
  obtain ids where ids: "length ids = min 20 (length cs)" "distinct ids" "set ids \<subseteq> build_id ` set cs"
      "{b \<in> set (builds db'). unpublished b} = {b \<in> set (builds demo_builds). unpublished b \<and> build_id b \<notin> set ids}"
    using relayOnce_takes_oldest [OF memr.redis_stream_axioms demo_builds_wf r cs_def] by blast
  then have "card (set ids) = 2" using cs(2) distinct_card by fastforce
  then have "set ids = build_id ` set cs" using ids(3) cs(3) by (intro card_subset_eq) simp_all
  then show ?thesis using r ids(4) cs(1) by auto
qed

definition demo_cx2 :: run_ctx where
  "demo_cx2 = \<lparr>rc_faults = no_faults, rc_meanwhile = (\<lambda>d. d), rc_verId = ''v1'', rc_now = 9\<rparr>"

lemma demo_build_found: "build_find ''b1'' demo_builds = Some demo_b1"
  by (simp add: build_find_def demo_builds_defs demo_b1_def)


text \<open>Witness of \<open>handleMessage_idempotent\<close>: the message of the first build, twice.\<close>

theorem handleMessage_idempotent_witness:
  "\<exists>db1 s1 s2. handleMessage mem_redis (\<lambda>_. []) demo_exec demo_cx2 ''1-1'' [''buildId'', ''b1''] (demo_builds, empty_mem) = (db1, s1)
     \<and> handleMessage mem_redis (\<lambda>_. []) demo_exec demo_cx2 ''1-1'' [''buildId'', ''b1''] (db1, s1) = (db1, s2)"
proof -
  obtain db1 s1 where h1: "handleMessage mem_redis (\<lambda>_. []) demo_exec demo_cx2 ''1-1'' [''buildId'', ''b1''] (demo_builds, empty_mem) = (db1, s1)"
    by fastforce
  obtain db2 s2 where h2: "handleMessage mem_redis (\<lambda>_. []) demo_exec demo_cx2 ''1-1'' [''buildId'', ''b1''] (db1, s1) = (db2, s2)"
    by fastforce
  have f: "field_after ''buildId'' [''buildId'', ''b1''] = Some ''b1''" by simp
  have "db2 = db1"
    using handleMessage_idempotent [OF demo_builds_wf _ _ _ f f demo_build_found h1 h2] by (simp add: demo_cx2_def)
  with h1 h2 show ?thesis by blast
qed

end
