(* ===== verification/Worker.thy ===== *)
theory Worker
  imports Worker_Registry Container_Executor Dispatch
begin

text \<open>
  The worker process: \<open>src/worker/worker.service.ts\<close>. It reads jobs from the stream in a consumer
  group, runs each in a container, publishes the outcome on the job's reply channel and
  acknowledges the message; it takes over messages of workers the registry no longer considers
  healthy. Redis, the container runtime and the text of a \<open>SyntaxError\<close> are parameters.
\<close>

section \<open>Constants and state\<close>

definition HEARTBEAT_INTERVAL_MS :: nat where
  "HEARTBEAT_INTERVAL_MS = 3000"

definition INVOCATION_DEFAULT_CLAIM_IDLE_MS :: nat where
  "INVOCATION_DEFAULT_CLAIM_IDLE_MS = 8000"

definition CAPACITY :: int where
  "CAPACITY = 1"

definition worker_id :: "string \<Rightarrow> string \<Rightarrow> string" where
  "worker_id pid uuid = ''worker-'' @ pid @ ''-'' @ take 8 uuid"

text \<open>
  \<open>m_total\<close> counts by the label \<open>status\<close>, \<open>m_durations\<close> are the values observed by the histogram
  (metrics/metrics.service.ts).
\<close>

record worker =
  w_id :: string
  w_inFlight :: int
  m_inFlight :: int
  m_total :: "json option \<Rightarrow> nat"
  m_durations :: "json option list"

text \<open>How a call ends: normally, with an exception, or with the death of the process.\<close>

datatype ending = Done | Threw js_error | Dead

text \<open>
  \<open>executeVersionedFunction\<close> as the worker calls it: image tag, event, timeout and memory, where
  \<^term>\<open>None\<close> is a missing tag or a number that is NaN. \<^term>\<open>Inl m\<close> is a rejected promise.
\<close>

type_synonym runner = "string option \<Rightarrow> json \<Rightarrow> int option \<Rightarrow> int option \<Rightarrow> files \<Rightarrow> (string + settled) \<times> files"

definition container_runner :: "runner \<Rightarrow> docker \<Rightarrow> string \<Rightarrow> string \<Rightarrow> int \<Rightarrow> runner" where
  "container_runner malformed docker workDir uuid start imageTag event timeoutMs memoryMb fs =
     (case (imageTag, timeoutMs, memoryMb) of
        (Some img, Some t, Some m) \<Rightarrow>
          (let (r, fs') = executeVersionedFunction docker workDir uuid start img (Some event)
                            \<lparr>opt_timeoutMs = Some t, opt_memoryMb = Some m, opt_cpus = None\<rparr> fs
           in (Inr r, fs'))
      | _ \<Rightarrow> malformed imageTag event timeoutMs memoryMb fs)"

section \<open>Operations\<close>

definition sendHeartbeat :: "'r redis \<Rightarrow> int \<Rightarrow> worker \<Rightarrow> 'r \<Rightarrow> (string + unit) \<times> 'r" where
  "sendHeartbeat R now w s =
     heartbeat R \<lparr>hb_workerId = w_id w, hb_capacity = CAPACITY, hb_inFlight = w_inFlight w, hb_lastHeartbeatAt = now\<rparr> s"

definition number_field :: "string \<Rightarrow> string list \<Rightarrow> int option" where
  "number_field key flds = Option.bind (field_after key flds) number_of_string"

definition run_job :: "(string option \<Rightarrow> string) \<Rightarrow> runner \<Rightarrow> string list \<Rightarrow> files \<Rightarrow> (string + settled) \<times> files" where
  "run_job syntaxMessage runner flds fs =
     (case field_after ''event'' flds of
        None \<Rightarrow> (Inl (syntaxMessage None), fs)
      | Some t \<Rightarrow>
          (case parse t of
             None \<Rightarrow> (Inl (syntaxMessage (Some t)), fs)
           | Some event \<Rightarrow>
               runner (field_after ''imageTag'' flds) event (number_field ''timeoutMs'' flds) (number_field ''memoryMb'' flds) fs))"

definition undefined_text :: "string option \<Rightarrow> string" where
  "undefined_text s = (case s of Some t \<Rightarrow> t | None \<Rightarrow> ''undefined'')"

definition count_outcome :: "outcome \<Rightarrow> worker \<Rightarrow> worker" where
  "count_outcome out w =
     w\<lparr>m_total := (m_total w)(member ''status'' out := Suc (m_total w (member ''status'' out))),
       m_durations := m_durations w @ [member ''durationMs'' out]\<rparr>"

text \<open>The end of \<open>handleMessage\<close>, once there is an outcome: metrics, the reply, the acknowledgement.\<close>

definition reply_and_ack ::
  "'r redis \<Rightarrow> string \<Rightarrow> string \<Rightarrow> outcome \<Rightarrow> worker \<Rightarrow> files \<Rightarrow> 'r \<Rightarrow> ending \<times> worker \<times> files \<times> 'r" where
  "reply_and_ack R messageId channel outcome w fs s =
     (let w' = count_outcome outcome w in
      case publish R channel (stringify (JObj outcome)) s of
        (Inl m, s1) \<Rightarrow> (Threw (RedisError m), w', fs, s1)
      | (Inr _, s1) \<Rightarrow>
          (case xack R INVOCATION_STREAM_KEY INVOCATION_CONSUMER_GROUP messageId s1 of
             (Inl m, s2) \<Rightarrow> (Threw (RedisError m), w', fs, s2)
           | (Inr _, s2) \<Rightarrow> (Done, w', fs, s2)))"

definition in_flight :: "int \<Rightarrow> worker \<Rightarrow> worker" where
  "in_flight n w = w\<lparr>w_inFlight := n, m_inFlight := n\<rparr>"

definition worker_handleMessage ::
  "'r redis \<Rightarrow> (string option \<Rightarrow> string) \<Rightarrow> runner \<Rightarrow> string \<Rightarrow> string list \<Rightarrow> worker \<times> files \<times> 'r \<Rightarrow>
   ending \<times> worker \<times> files \<times> 'r" where
  "worker_handleMessage R syntaxMessage runner messageId flds st =
     (let (w, fs, s) = st;
          correlationId = undefined_text (field_after ''correlationId'' flds);
          w1 = in_flight (w_inFlight w + 1) w;
          (res, fs') = run_job syntaxMessage runner flds fs;
          w2 = in_flight (w_inFlight w1 - 1) w1;
          finish = (\<lambda>outcome. reply_and_ack R messageId (invocationResultChannel correlationId) outcome w2 fs' s)
      in case res of
           Inr Crashed \<Rightarrow> (Dead, w1, fs', s)
         | Inr (Resolved outcome) \<Rightarrow> finish outcome
         | Inl m \<Rightarrow> finish (outcome_error m 0))"

text \<open>The loops over messages; an exception or a crash ends them.\<close>

fun worker_handle_all where
  "worker_handle_all R sm runner [] st = (Done, st)"
| "worker_handle_all R sm runner ((messageId, flds) # ms) st =
     (case worker_handleMessage R sm (runner messageId) messageId flds st of
        (Done, st') \<Rightarrow> worker_handle_all R sm runner ms st'
      | (e, st') \<Rightarrow> (e, st'))"

definition worker_readAndProcessOnce where
  "worker_readAndProcessOnce R sm runner now st =
     (let (w, fs, s) = st in
      case xreadgroup R now INVOCATION_STREAM_KEY INVOCATION_CONSUMER_GROUP (w_id w) s of
        (Inl m, s') \<Rightarrow> (Threw (RedisError m), w, fs, s')
      | (Inr messages, s') \<Rightarrow> worker_handle_all R sm runner messages (w, fs, s'))"

text \<open>
  The loop over the idle entries: \<open>clock\<close> is the time of the server when the entry with the given
  id is claimed.
\<close>

fun reclaim_all where
  "reclaim_all R sm runner clock claimIdleMs healthy [] st = (Done, st)"
| "reclaim_all R sm runner clock claimIdleMs healthy ((messageId, owner) # es) st =
     (let (w, fs, s) = st in
      if owner = w_id w \<or> Some owner \<in> healthy then reclaim_all R sm runner clock claimIdleMs healthy es st
      else
        (case xclaim R (clock messageId) INVOCATION_STREAM_KEY INVOCATION_CONSUMER_GROUP (w_id w) claimIdleMs messageId s of
           (Inl m, s') \<Rightarrow> (Threw (RedisError m), w, fs, s')
         | (Inr claimed, s') \<Rightarrow>
             (case worker_handle_all R sm runner claimed (w, fs, s') of
                (Done, st') \<Rightarrow> reclaim_all R sm runner clock claimIdleMs healthy es st'
              | (e, st') \<Rightarrow> (e, st'))))"

definition reclaimFromDeadWorkers where
  "reclaimFromDeadWorkers R sm runner clock now nowDate claimIdleMs st =
     (let (w, fs, s) = st in
      case xpending R now INVOCATION_STREAM_KEY INVOCATION_CONSUMER_GROUP claimIdleMs 10 s of
        (Inl m, s1) \<Rightarrow> (Threw (RedisError m), w, fs, s1)
      | (Inr es, s1) \<Rightarrow>
          if es = [] then (Done, w, fs, s1)
          else
            (case listWorkers R nowDate s1 of
               (Inl e, s2) \<Rightarrow> (Threw e, w, fs, s2)
             | (Inr workers, s2) \<Rightarrow>
                 (let healthyWorkerIds = ws_workerId ` set (filter ws_healthy workers)
                  in reclaim_all R sm runner clock claimIdleMs healthyWorkerIds es (w, fs, s2))))"

text \<open>One iteration of \<open>loop\<close>: an exception is logged, a dead process does nothing more.\<close>

definition worker_iteration where
  "worker_iteration R sm runner clock now nowDate now' claimIdleMs st =
     (case reclaimFromDeadWorkers R sm runner clock now nowDate claimIdleMs st of
        (Done, st') \<Rightarrow> worker_readAndProcessOnce R sm runner now' st'
      | (e, st') \<Rightarrow> (e, st'))"

section \<open>Decoding a job\<close>

definition field_names :: "string list" where
  "field_names = [''correlationId'', ''imageTag'', ''event'', ''timeoutMs'', ''memoryMb'']"

lemma parse_words: "parse ''timeoutMs'' = None" "parse ''memoryMb'' = None"
  by code_simp+

lemma stringify_not_word:
  assumes "json_ok v"
  shows "stringify v \<noteq> ''timeoutMs''" and "stringify v \<noteq> ''memoryMb''"
  using parse_stringify [OF assms] parse_words by (metis option.distinct(1))+

lemma string_of_int_not_word: "string_of_int i \<noteq> ''memoryMb''"
proof
  assume "string_of_int i = ''memoryMb''"
  then have "number_of_string ''memoryMb'' = Some i" using number_of_string_of_int [of i] by simp
  then show False by (simp add: number_of_string_def is_digit_def)
qed

lemma event_or_empty_ok: "(case e of None \<Rightarrow> True | Some v \<Rightarrow> json_ok v) \<Longrightarrow> json_ok (event_or_empty e)"
proof (cases e)
  case (Some v)
  assume "case e of None \<Rightarrow> True | Some v \<Rightarrow> json_ok v"
  then show ?thesis using Some by (cases v) (simp_all add: event_or_empty_def)
qed (simp add: event_or_empty_def)

lemma job_fields_decode:
  assumes "correlationId \<notin> set field_names" and "job_imageTag j \<notin> set field_names"
    and "json_ok (event_or_empty (job_event j))"
  shows "field_after ''correlationId'' (job_fields correlationId j) = Some correlationId"
    and "field_after ''imageTag'' (job_fields correlationId j) = Some (job_imageTag j)"
    and "field_after ''event'' (job_fields correlationId j) = Some (stringify (event_or_empty (job_event j)))"
    and "number_field ''timeoutMs'' (job_fields correlationId j) = Some (job_timeoutMs j)"
    and "number_field ''memoryMb'' (job_fields correlationId j) = Some (job_memoryMb j)"
proof -
  let ?e = "stringify (event_or_empty (job_event j))"
  have e: "''timeoutMs'' \<noteq> ?e" "''memoryMb'' \<noteq> ?e" using stringify_not_word [OF assms(3)] by metis+
  have m: "''memoryMb'' \<noteq> string_of_int (job_timeoutMs j)" using string_of_int_not_word by metis
  have n: "''imageTag'' \<noteq> correlationId" "''event'' \<noteq> correlationId" "''timeoutMs'' \<noteq> correlationId"
    "''memoryMb'' \<noteq> correlationId" "''event'' \<noteq> job_imageTag j" "''timeoutMs'' \<noteq> job_imageTag j" "''memoryMb'' \<noteq> job_imageTag j"
    using assms(1,2) by (auto simp: field_names_def)
  show "field_after ''correlationId'' (job_fields correlationId j) = Some correlationId"
    and "field_after ''imageTag'' (job_fields correlationId j) = Some (job_imageTag j)"
    and "field_after ''event'' (job_fields correlationId j) = Some ?e"
    and "number_field ''timeoutMs'' (job_fields correlationId j) = Some (job_timeoutMs j)"
    and "number_field ''memoryMb'' (job_fields correlationId j) = Some (job_memoryMb j)"
    using n e m by (simp_all add: job_fields_def number_field_def field_after_Cons2 del: stringify.simps)
qed

lemma run_job_decode:
  assumes "correlationId \<notin> set field_names" and "job_imageTag j \<notin> set field_names"
    and "json_ok (event_or_empty (job_event j))"
  shows "run_job sm runner (job_fields correlationId j) fs =
    runner (Some (job_imageTag j)) (event_or_empty (job_event j)) (Some (job_timeoutMs j)) (Some (job_memoryMb j)) fs"
  using job_fields_decode [OF assms] parse_stringify [OF assms(3)] by (simp add: run_job_def)

section \<open>What handling a message does\<close>

lemma count_outcome_simps [simp]:
  "w_id (count_outcome out w) = w_id w" "w_inFlight (count_outcome out w) = w_inFlight w"
  by (simp_all add: count_outcome_def)

definition reply_channel :: "string list \<Rightarrow> string" where
  "reply_channel flds = invocationResultChannel (undefined_text (field_after ''correlationId'' flds))"

text \<open>The outcome that is published, unless the process dies.\<close>

definition job_outcome :: "(string + settled) \<Rightarrow> outcome option" where
  "job_outcome res = (case res of Inr Crashed \<Rightarrow> None | Inr (Resolved out) \<Rightarrow> Some out | Inl m \<Rightarrow> Some (outcome_error m 0))"

lemma in_flight_simps [simp]:
  "w_inFlight (in_flight n w) = n" "w_id (in_flight n w) = w_id w" "in_flight k (in_flight n w) = in_flight k w"
  by (simp_all add: in_flight_def)

lemma handle_crash:
  assumes "job_outcome (fst (run_job sm runner flds fs)) = None"
  shows "worker_handleMessage R sm runner m flds (w, fs, s) =
    (Dead, in_flight (w_inFlight w + 1) w, snd (run_job sm runner flds fs), s)"
  using assms
  by (cases "run_job sm runner flds fs")
     (auto simp: worker_handleMessage_def job_outcome_def Let_def split: sum.splits settled.splits)

lemma handle_outcome:
  assumes "job_outcome (fst (run_job sm runner flds fs)) = Some out"
  shows "worker_handleMessage R sm runner m flds (w, fs, s) =
    reply_and_ack R m (reply_channel flds) out (in_flight (w_inFlight w) w) (snd (run_job sm runner flds fs)) s"
  using assms
  by (cases "run_job sm runner flds fs")
     (auto simp: worker_handleMessage_def job_outcome_def Let_def reply_channel_def split: sum.splits settled.splits)

lemma reply_worker:
  assumes "reply_and_ack R m ch out w fs s = (e, w', fs', s')"
  shows "w_id w' = w_id w" and "w_inFlight w' = w_inFlight w" and "fs' = fs" and "e \<noteq> Dead"
  using assms by (auto simp: reply_and_ack_def Let_def split: prod.splits sum.splits)

text \<open>Only the pending entry of the message itself can change, and only after the reply is out.\<close>

definition acked :: "string \<Rightarrow> redis_view \<Rightarrow> redis_view" where
  "acked m V = upd_stream INVOCATION_STREAM_KEY (acknowledge INVOCATION_CONSUMER_GROUP m) V"

context redis_stream
begin

lemma publish_view:
  "publish R ch t s = (r, s') \<Longrightarrow> view R s' \<in> {view R s, say ch t (view R s)} \<and> (\<forall>u. r = Inr u \<longrightarrow> view R s' = say ch t (view R s))"
  using publish_Inl [of ch t s] publish_Inr [of ch t s] by (cases r) auto

lemma xack_view:
  "xack R k g m s = (r, s') \<Longrightarrow> view R s' \<in> {view R s, upd_stream k (acknowledge g m) (view R s)}
     \<and> (\<forall>u. r = Inr u \<longrightarrow> view R s' = upd_stream k (acknowledge g m) (view R s))"
  using xack_Inl [of k g m s] xack_Inr [of k g m s] by (cases r) auto

lemma reply_view:
  assumes "reply_and_ack R m ch out w fs s = (e, w', fs', s')"
  shows "view R s' \<in> {view R s, say ch (stringify (JObj out)) (view R s), acked m (say ch (stringify (JObj out)) (view R s))}"
    and "e = Done \<Longrightarrow> view R s' = acked m (say ch (stringify (JObj out)) (view R s))"
proof -
  obtain r1 s1 where p: "publish R ch (stringify (JObj out)) s = (r1, s1)" by fastforce
  obtain r2 s2 where a: "xack R INVOCATION_STREAM_KEY INVOCATION_CONSUMER_GROUP m s1 = (r2, s2)" by fastforce
  note views = publish_view [OF p] xack_view [OF a]
  show "view R s' \<in> {view R s, say ch (stringify (JObj out)) (view R s), acked m (say ch (stringify (JObj out)) (view R s))}"
    and "e = Done \<Longrightarrow> view R s' = acked m (say ch (stringify (JObj out)) (view R s))"
    using assms p a views
    by (auto simp: reply_and_ack_def Let_def acked_def simp del: stringify.simps split: sum.splits)
qed

end

section \<open>The pending list\<close>

definition pending_of :: "redis_view \<Rightarrow> string \<Rightarrow> (string \<times> nat) option" where
  "pending_of V i = pel (streams V INVOCATION_STREAM_KEY) INVOCATION_CONSUMER_GROUP i"

lemma pending_of_simps [simp]:
  "pending_of (say ch t V) i = pending_of V i"
  "pending_of (acked m V) i = (if i = m then None else pending_of V i)"
  "pending_of (upd_stream INVOCATION_STREAM_KEY (own INVOCATION_CONSUMER_GROUP c now j) V) i =
     (if i = j then Some (c, now) else pending_of V i)"
  "pending_of (upd_stream INVOCATION_STREAM_KEY (deliver INVOCATION_CONSUMER_GROUP c now j) V) i =
     (if i = j then Some (c, now) else pending_of V i)"
  by (simp_all add: pending_of_def say_def acked_def upd_stream_def acknowledge_def own_def deliver_def)

context redis_stream
begin

lemma handle_pending:
  assumes "worker_handleMessage R sm runner m flds (w, fs, s) = (e, w', fs', s')"
  shows "w_id w' = w_id w" and "i \<noteq> m \<Longrightarrow> pending_of (view R s') i = pending_of (view R s) i"
    and "e = Dead \<Longrightarrow> s' = s" and "e \<noteq> Dead \<Longrightarrow> w_inFlight w' = w_inFlight w"
proof -
  have "w_id w' = w_id w \<and> (i \<noteq> m \<longrightarrow> pending_of (view R s') i = pending_of (view R s) i)
      \<and> (e = Dead \<longrightarrow> s' = s) \<and> (e \<noteq> Dead \<longrightarrow> w_inFlight w' = w_inFlight w)"
  proof (cases "job_outcome (fst (run_job sm runner flds fs))")
    case None
    with assms show ?thesis by (auto simp: handle_crash)
  next
    case (Some out)
    from assms have r: "reply_and_ack R m (reply_channel flds) out (in_flight (w_inFlight w) w)
        (snd (run_job sm runner flds fs)) s = (e, w', fs', s')" by (simp add: handle_outcome [OF Some])
    show ?thesis using reply_worker [OF r] reply_view(1) [OF r] by auto
  qed
  then show "w_id w' = w_id w" and "i \<noteq> m \<Longrightarrow> pending_of (view R s') i = pending_of (view R s) i"
    and "e = Dead \<Longrightarrow> s' = s" and "e \<noteq> Dead \<Longrightarrow> w_inFlight w' = w_inFlight w" by auto
qed

lemma handle_all_pending:
  assumes "worker_handle_all R sm runner ms (w, fs, s) = (e, w', fs', s')"
  shows "w_id w' = w_id w \<and> (i \<notin> fst ` set ms \<longrightarrow> pending_of (view R s') i = pending_of (view R s) i)"
  using assms
proof (induction ms arbitrary: w fs s)
  case (Cons mf ms)
  obtain m flds where mf: "mf = (m, flds)" by fastforce
  obtain e1 w1 fs1 s1 where h: "worker_handleMessage R sm (runner m) m flds (w, fs, s) = (e1, w1, fs1, s1)"
    by (metis prod_cases4)
  note one = handle_pending(1,2) [OF h]
  show ?case
  proof (cases "e1 = Done")
    case True
    then have "worker_handle_all R sm runner ms (w1, fs1, s1) = (e, w', fs', s')"
      using Cons.prems h by (simp add: mf)
    from Cons.IH [OF this] one show ?thesis by (auto simp: mf)
  next
    case False
    then have "w' = w1" "s' = s1" using Cons.prems h by (cases e1; simp add: mf)+
    with one show ?thesis by (auto simp: mf)
  qed
qed simp

lemma xclaim_pending:
  assumes "xclaim R now INVOCATION_STREAM_KEY INVOCATION_CONSUMER_GROUP c idle j s = (r, s')"
  shows "i \<noteq> j \<Longrightarrow> pending_of (view R s') i = pending_of (view R s) i"
    and "r = Inr ms \<Longrightarrow> fst ` set ms \<subseteq> {j}"
proof -
  show "pending_of (view R s') i = pending_of (view R s) i" if "i \<noteq> j"
  proof (cases r)
    case (Inl m)
    then show ?thesis using xclaim_Inl [of now INVOCATION_STREAM_KEY INVOCATION_CONSUMER_GROUP c idle j s m s'] assms that by auto
  next
    case (Inr ms)
    then show ?thesis using xclaim_Inr [of now INVOCATION_STREAM_KEY INVOCATION_CONSUMER_GROUP c idle j s ms s'] assms that
      by (auto split: if_splits)
  qed
  show "fst ` set ms \<subseteq> {j}" if "r = Inr ms"
    using xclaim_Inr [of now INVOCATION_STREAM_KEY INVOCATION_CONSUMER_GROUP c idle j s ms s'] assms that
    by (auto split: if_splits option.splits)
qed

lemma reclaim_all_pending:
  assumes "reclaim_all R sm runner clock idle healthy es (w, fs, s) = (e, w', fs', s')"
    and "\<And>c. (i, c) \<in> set es \<Longrightarrow> c = w_id w \<or> Some c \<in> healthy"
  shows "pending_of (view R s') i = pending_of (view R s) i"
  using assms
proof (induction es arbitrary: w fs s)
  case (Cons jc es)
  obtain j c where jc: "jc = (j, c)" by fastforce
  show ?case
  proof (cases "c = w_id w \<or> Some c \<in> healthy")
    case True
    then show ?thesis using Cons.IH [of w fs s] Cons.prems by (simp add: jc)
  next
    case False
    then have ij: "i \<noteq> j" using Cons.prems(2) [of c] by (auto simp: jc)
    obtain r s1 where x: "xclaim R (clock j) INVOCATION_STREAM_KEY INVOCATION_CONSUMER_GROUP (w_id w) idle j s = (r, s1)" by fastforce
    note p1 = xclaim_pending(1) [OF x ij]
    show ?thesis
    proof (cases r)
      case (Inl m)
      then show ?thesis using Cons.prems(1) False x p1 by (simp add: jc)
    next
      case (Inr ms)
      obtain e1 w1 fs1 s2 where h: "worker_handle_all R sm runner ms (w, fs, s1) = (e1, w1, fs1, s2)" by (metis prod_cases4)
      have "i \<notin> fst ` set ms" using xclaim_pending(2) [OF x Inr] ij by auto
      then have p2: "w_id w1 = w_id w" "pending_of (view R s2) i = pending_of (view R s1) i"
        using handle_all_pending [OF h, of i] by auto
      show ?thesis
      proof (cases "e1 = Done")
        case True
        then have "reclaim_all R sm runner clock idle healthy es (w1, fs1, s2) = (e, w', fs', s')"
          using Cons.prems(1) False x Inr h by (simp add: jc)
        then show ?thesis using Cons.IH [of w1 fs1 s2] Cons.prems(2) p1 p2 by (simp add: jc)
      next
        case e1: False
        then have "s' = s2" using Cons.prems(1) False x Inr h by (cases e1; simp add: jc)
        with p1 p2 show ?thesis by simp
      qed
    qed
  qed
qed simp

end

context redis_hash
begin

lemma healthy_listed:
  assumes "registry_ok R s" and "listWorkers R now s = (Inr ws, s')"
    and "registry R s owner = Some hb" and "now - hb_lastHeartbeatAt hb \<le> 10000"
  shows "Some owner \<in> ws_workerId ` set (filter ws_healthy ws)"
proof -
  have "hb \<in> ran (registry R s)" "hb_workerId hb = owner"
    using assms(3) registry_ok_id [OF assms(1,3)] by (auto intro: ranI)
  then obtain x where "x \<in> set ws" "ws_workerId x = Some owner" "ws_healthy x"
    using wr.healthy_iff [OF assms(1,2), of owner] assms(4) by blast
  then show ?thesis by (intro image_eqI [of _ _ x]) auto
qed

end

text \<open>
  A slow worker keeps its job: taking over messages leaves every pending message of the worker
  itself, and every pending message of a worker whose last heartbeat is at most ten seconds old, with
  its owner and its delivery time, however long it has been idle.
\<close>

lemma reclaim_spares_healthy:
  assumes "redis_service R" and "registry_ok R s"
    and "reclaimFromDeadWorkers R sm runner clock now nowDate claimIdleMs (w, fs, s) = (e, w', fs', s')"
    and "pending_of (view R s) i = Some (owner, t)"
    and "owner = w_id w \<or> (\<exists>hb. registry R s owner = Some hb \<and> nowDate - hb_lastHeartbeatAt hb \<le> 10000)"
  shows "pending_of (view R s') i = Some (owner, t)"
proof -
  have rh: "redis_hash R" and rs: "redis_stream R" using assms(1) by (simp_all add: redis_service_def)
  obtain r1 s1 where x: "xpending R now INVOCATION_STREAM_KEY INVOCATION_CONSUMER_GROUP claimIdleMs 10 s = (r1, s1)" by fastforce
  have v1: "view R s1 = view R s" using redis_stream.xpending_view [OF rs x] .
  show ?thesis
  proof (cases "\<exists>es ws s2. r1 = Inr es \<and> es \<noteq> [] \<and> listWorkers R nowDate s1 = (Inr ws, s2)")
    case False
    then have "view R s' = view R s"
      using assms(3) x v1 redis_hash.listWorkers_view [OF rh]
      by (auto simp: reclaimFromDeadWorkers_def split: sum.splits if_splits prod.splits)
    with assms(4) show ?thesis by simp
  next
    case True
    then obtain es ws s2 where es: "r1 = Inr es" "es \<noteq> []" and ls: "listWorkers R nowDate s1 = (Inr ws, s2)" by blast
    let ?healthy = "ws_workerId ` set (filter ws_healthy ws)"
    have rec: "reclaim_all R sm runner clock claimIdleMs ?healthy es (w, fs, s2) = (e, w', fs', s')"
      using assms(3) x es ls by (simp add: reclaimFromDeadWorkers_def)
    have v2: "view R s2 = view R s" using redis_hash.listWorkers_view [OF rh ls] v1 by simp
    have reg: "registry_ok R s1" "registry R s1 = registry R s"
      using assms(2) v1 by (simp_all add: registry_ok_def registry_def fun_eq_iff)
    have "c = owner" if "(i, c) \<in> set es" for c
      using redis_stream.xpending_Inr [OF rs] x es(1) that assms(4) by (fastforce simp: pending_of_def)
    then have "c = w_id w \<or> Some c \<in> ?healthy" if "(i, c) \<in> set es" for c
      using that assms(5) redis_hash.healthy_listed [OF rh reg(1) ls] reg(2) by auto
    then show ?thesis using redis_stream.reclaim_all_pending [OF rs rec] v2 assms(4) by simp
  qed
qed

section \<open>Properties\<close>

text \<open>
  A worker does the job it was sent: for a message written by \<open>dispatch\<close>, it runs exactly the
  image, event, timeout and memory of the job; unless the process dies, it ends with the same
  number of jobs in flight as before, and if it ends without an exception, the outcome has
  been published on the reply channel of the job's own correlation id and the message is acknowledged.
\<close>

theorem worker_serves_job:
  assumes "redis_stream R"
    and "correlationId \<notin> set field_names" and "job_imageTag j \<notin> set field_names"
    and "json_ok (event_or_empty (job_event j))"
    and "runner (Some (job_imageTag j)) (event_or_empty (job_event j)) (Some (job_timeoutMs j)) (Some (job_memoryMb j)) fs = (res, fs1)"
    and "worker_handleMessage R sm runner m (job_fields correlationId j) (w, fs, s) = (e, w', fs', s')"
  shows "fs' = fs1 \<and>
    (case res of
       Inr Crashed \<Rightarrow> e = Dead \<and> s' = s
     | Inr (Resolved out) \<Rightarrow> e \<noteq> Dead \<and> w_inFlight w' = w_inFlight w \<and> (e = Done \<longrightarrow>
         view R s' = acked m (say (invocationResultChannel correlationId) (stringify (JObj out)) (view R s)))
     | Inl x \<Rightarrow> e \<noteq> Dead \<and> w_inFlight w' = w_inFlight w \<and> (e = Done \<longrightarrow>
         view R s' = acked m (say (invocationResultChannel correlationId) (stringify (JObj (outcome_error x 0))) (view R s))))"
proof -
  let ?flds = "job_fields correlationId j"
  have run: "run_job sm runner ?flds fs = (res, fs1)" using run_job_decode [OF assms(2-4), of sm runner fs] assms(5) by simp
  have ch: "reply_channel ?flds = invocationResultChannel correlationId"
    using job_fields_decode(1) [OF assms(2-4)] by (simp add: reply_channel_def undefined_text_def)
  show ?thesis
  proof (cases "job_outcome res")
    case None
    with run have "worker_handleMessage R sm runner m ?flds (w, fs, s) = (Dead, in_flight (w_inFlight w + 1) w, fs1, s)"
      by (simp add: handle_crash)
    with None assms(6) show ?thesis by (auto simp: job_outcome_def split: sum.splits settled.splits)
  next
    case (Some out)
    with run have "reply_and_ack R m (invocationResultChannel correlationId) out (in_flight (w_inFlight w) w) fs1 s = (e, w', fs', s')"
      using assms(6) by (simp add: handle_outcome ch)
    from reply_worker [OF this] redis_stream.reply_view(2) [OF assms(1) this] Some show ?thesis
      by (auto simp: job_outcome_def simp del: stringify.simps split: sum.splits settled.splits)
  qed
qed


text \<open>
  No double takeover: when a worker has claimed an idle message, another worker that still has it
  in its list of idle entries and tries within the idle time -- while the first is at work or after
  it has acknowledged -- gets nothing: it runs no job, publishes nothing and does not become the owner
  (if Redis answers its claim).
\<close>

theorem reclaim_no_double_run:
  assumes "redis_stream R" and "pending_of (view R s) i \<in> {Some (other, t), None}" and "clock i < t + claimIdleMs"
    and "reclaim_all R sm runner clock claimIdleMs healthy [(i, owner)] (w, fs, s) = (e, w', fs', s')"
  shows "w' = w \<and> fs' = fs \<and> published (view R s') = published (view R s)
    \<and> (e = Done \<longrightarrow> view R s' = view R s)"
proof (cases "owner = w_id w \<or> Some owner \<in> healthy")
  case False
  obtain r s1 where x: "xclaim R (clock i) INVOCATION_STREAM_KEY INVOCATION_CONSUMER_GROUP (w_id w) claimIdleMs i s = (r, s1)" by fastforce
  show ?thesis
  proof (cases r)
    case (Inl m)
    then have "view R s1 \<in> {view R s, upd_stream INVOCATION_STREAM_KEY (own INVOCATION_CONSUMER_GROUP (w_id w) (clock i) i) (view R s)}"
      using redis_stream.xclaim_Inl [OF assms(1)] x by blast
    then have "published (view R s1) = published (view R s)" by (auto simp: upd_stream_def)
    then show ?thesis using assms(4) False x Inl by auto
  next
    case (Inr ms)
    have "\<not> idle_for (clock i) INVOCATION_CONSUMER_GROUP claimIdleMs i (streams (view R s) INVOCATION_STREAM_KEY)"
      using assms(2,3) by (auto simp: idle_for_def pending_of_def)
    then have "view R s1 = view R s" "ms = []"
      using redis_stream.xclaim_Inr [OF assms(1)] x Inr by fastforce+
    then show ?thesis using assms(4) False x Inr by auto
  qed
qed (use assms(4) in auto)

section \<open>Witnesses\<close>

definition demo_worker :: worker where
  "demo_worker = \<lparr>w_id = ''w2'', w_inFlight = 0, m_inFlight = 0, m_total = (\<lambda>_. 0), m_durations = []\<rparr>"

definition demo_runner :: runner where
  "demo_runner tag event t m fs = (Inr (Resolved (outcome_success event 5)), fs)"

text \<open>Message \<open>1\<close> carries the job of call \<open>c1\<close>; worker \<open>w1\<close> received it at time 0.\<close>

definition demo_queue :: mem where
  "demo_queue = mem_stream INVOCATION_STREAM_KEY (deliver INVOCATION_CONSUMER_GROUP ''w1'' 0 ''1'')
     (mem_stream INVOCATION_STREAM_KEY (append_entry ''1'' (job_fields ''c1'' demo_job)) empty_mem)"

lemma demo_queue_pending: "pending_of (view mem_redis demo_queue) ''1'' = Some (''w1'', 0)"
  by (simp add: pending_of_def mem_redis_def demo_queue_def mem_stream_def deliver_def own_def)

lemma demo_job_ok: "''c1'' \<notin> set field_names" "job_imageTag demo_job \<notin> set field_names"
  "json_ok (event_or_empty (job_event demo_job))"
  by (simp_all add: field_names_def demo_job_def event_or_empty_def)

lemma demo_run_job:
  "demo_runner (Some (job_imageTag demo_job)) (event_or_empty (job_event demo_job)) (Some (job_timeoutMs demo_job))
     (Some (job_memoryMb demo_job)) Map.empty = (Inr (Resolved (outcome_success (JObj []) 5)), Map.empty)"
  by (simp add: demo_runner_def demo_job_def event_or_empty_def)

lemma demo_handles:
  "\<exists>w' s'. worker_handleMessage mem_redis sm demo_runner ''1'' (job_fields ''c1'' demo_job) (demo_worker, Map.empty, demo_queue)
     = (Done, w', Map.empty, s')"
  using run_job_decode [OF demo_job_ok, of sm demo_runner Map.empty] demo_run_job
  by (simp add: handle_outcome job_outcome_def reply_and_ack_def mem_redis_def)

text \<open>Witness of \<open>worker_serves_job\<close>: the job of call \<open>c1\<close>.\<close>

theorem worker_serves_job_witness:
  "\<exists>w' s'. worker_handleMessage mem_redis undefined_text demo_runner ''1'' (job_fields ''c1'' demo_job)
       (demo_worker, Map.empty, demo_queue) = (Done, w', Map.empty, s')
     \<and> w_inFlight w' = 0
     \<and> view mem_redis s' = acked ''1'' (say (invocationResultChannel ''c1'')
         (stringify (JObj (outcome_success (JObj []) 5))) (view mem_redis demo_queue))"
proof -
  obtain w' s' where h: "worker_handleMessage mem_redis undefined_text demo_runner ''1'' (job_fields ''c1'' demo_job)
      (demo_worker, Map.empty, demo_queue) = (Done, w', Map.empty, s')" using demo_handles by blast
  from worker_serves_job [OF memr.redis_stream_axioms demo_job_ok demo_run_job h] h show ?thesis
    by (simp add: demo_worker_def del: stringify.simps)
qed


text \<open>Witness of \<open>reclaim_no_double_run\<close>: worker \<open>w1\<close> took message \<open>1\<close> over at time 0; \<open>w2\<close> tries at time 100.\<close>

theorem reclaim_no_double_run_witness:
  "\<exists>e w' fs' s'. reclaim_all mem_redis undefined_text (\<lambda>_. demo_runner) (\<lambda>_. 100) 8000 {} [(''1'', ''w0'')] (demo_worker, Map.empty, demo_queue)
       = (e, w', fs', s') \<and> w' = demo_worker \<and> published (view mem_redis s') = published (view mem_redis demo_queue)"
proof -
  obtain e w' fs' s' where r: "reclaim_all mem_redis undefined_text (\<lambda>_. demo_runner) (\<lambda>_. 100) 8000 {} [(''1'', ''w0'')]
      (demo_worker, Map.empty, demo_queue) = (e, w', fs', s')" by (metis prod_cases4)
  from reclaim_no_double_run [OF memr.redis_stream_axioms _ _ r, of "''w1''" 0] demo_queue_pending r show ?thesis by auto
qed

end
