(* ===== verification/Platform.thy ===== *)
theory Platform
  imports Build_Queue Worker
begin

text \<open>
  The platform as a whole: every write any component makes to the database, as one step relation
  in which requests, builds and relays interleave freely. A handler that looks something up, waits
  and then writes is two steps, with what it looked up kept in between. The identifiers Prisma
  generates (\<open>@default(uuid())\<close>) are never generated twice: \<open>p_ids\<close> are those used so far.
\<close>

section \<open>States and steps\<close>

record platform =
  p_db :: db
  p_ids :: "string set"
  p_found :: "func set"
  p_latest :: "(func \<times> function_version) set"
  p_runs :: "(build \<times> nat) set"

definition init_platform :: platform where
  "init_platform = \<lparr>p_db = empty_db, p_ids = {}, p_found = {}, p_latest = {}, p_runs = {}\<rparr>"

definition with_db :: "db \<Rightarrow> platform \<Rightarrow> platform" where
  "with_db db s = s\<lparr>p_db := db\<rparr>"

definition generated :: "string \<Rightarrow> db \<Rightarrow> platform \<Rightarrow> platform" where
  "generated i db s = s\<lparr>p_db := db, p_ids := insert i (p_ids s)\<rparr>"

text \<open>On whose behalf the functions, versions, builds and invocations are written.\<close>

datatype actor = Nobody | For string

inductive platform_step ::
  "crypto \<Rightarrow> 's s3 \<Rightarrow> 'r redis \<Rightarrow> actor \<Rightarrow> platform \<Rightarrow> platform \<Rightarrow> bool" for C S R where
  Authenticate: "platform_step C S R Nobody s (with_db (snd (AuthGuard C F now header (p_db s))) s)"
| Register_user: "newId \<notin> p_ids s \<Longrightarrow>
    platform_step C S R Nobody s (generated newId (snd (register_user C F salt newId now dto (p_db s))) s)"
| Create_key: "newId \<notin> p_ids s \<Longrightarrow>
    platform_step C S R Nobody s (generated newId (snd (createApiKey C F rnd newId now u kdto (p_db s))) s)"
| Revoke_key: "platform_step C S R Nobody s (with_db (snd (revokeApiKey F now u keyId (p_db s))) s)"
| Register_function: "newId \<notin> p_ids s \<Longrightarrow> RegisterFunctionDto fracInt body = Inr fdto \<Longrightarrow>
    platform_step C S R (For u) s (generated newId (snd (register_function F newId now u fdto (p_db s))) s)"
| Remove_function: "platform_step C S R (For u) s (with_db (snd (remove_function F u name (p_db s))) s)"
| Find_function: "get_function F u name (p_db s) = Inr f \<Longrightarrow>
    platform_step C S R Nobody s (s\<lparr>p_found := insert f (p_found s)\<rparr>)"
| Find_version: "f \<in> p_found s \<Longrightarrow> latestVersion (fn_id f) (p_db s) = Some v \<Longrightarrow>
    platform_step C S R Nobody s (s\<lparr>p_latest := insert (f, v) (p_latest s)\<rparr>)"
| Record_invocation: "(f, v) \<in> p_latest s \<Longrightarrow>
    platform_step C S R (For (fn_userId f)) s
      (with_db (recordInvocation F cx (fn_id f) (ver_id v) st d err (p_db s)) s)"
| Submit_build: "f \<in> p_found s \<Longrightarrow> newId \<notin> p_ids s \<Longrightarrow>
    platform_step C S R (For (fn_userId f)) s
      (generated newId (snd (snd (submitBuild S cfg F uuid newId now (fn_id f) source (objs, p_db s)))) s)"
| Relay: "platform_step C S R Nobody s (with_db (fst (snd (relayOnce R F locked now (p_db s, queue)))) s)"
| Start_build: "b \<in> set (builds (p_db s)) \<Longrightarrow>
    platform_step C S R Nobody s
      (s\<lparr>p_runs := insert (b, nextVersionNumber (build_functionId b) (p_db s)) (p_runs s)\<rparr>)"
| Commit_build: "(b, n) \<in> p_runs s \<Longrightarrow> verId \<notin> p_ids s \<Longrightarrow> f \<in> set (funcs (p_db s)) \<Longrightarrow>
    fn_id f = build_functionId b \<Longrightarrow> commit_version verId now b n ref (p_db s) = Inr db' \<Longrightarrow>
    platform_step C S R (For (fn_userId f)) s (generated verId db' s)"
| Fail_build: "b \<in> set (builds (p_db s)) \<Longrightarrow> f \<in> set (funcs (p_db s)) \<Longrightarrow> fn_id f = build_functionId b \<Longrightarrow>
    platform_step C S R (For (fn_userId f)) s (with_db (snd (mark_failed F now (build_id b) m (p_db s))) s)"

text \<open>Runs, with the actors of their steps.\<close>

inductive platform_run ::
  "crypto \<Rightarrow> 's s3 \<Rightarrow> 'r redis \<Rightarrow> actor list \<Rightarrow> platform \<Rightarrow> platform \<Rightarrow> bool" for C S R where
  none: "platform_run C S R [] s s"
| more: "platform_run C S R as s t \<Longrightarrow> platform_step C S R a t u \<Longrightarrow> platform_run C S R (as @ [a]) s u"

lemma platform_run_trans:
  "platform_run C S R bs t u \<Longrightarrow> platform_run C S R as s t \<Longrightarrow> platform_run C S R (as @ bs) s u"
  by (induction rule: platform_run.induct) (auto intro: platform_run.intros simp flip: append_assoc)

lemma platform_run_one: "platform_step C S R a s t \<Longrightarrow> platform_run C S R [a] s t"
  using platform_run.more [OF platform_run.none] by fastforce

section \<open>The invariant\<close>

text \<open>What every table promises, beyond the constraints of the schema.\<close>

definition tables_ok :: "db \<Rightarrow> bool" where
  "tables_ok db \<longleftrightarrow>
     db_wf db \<and> limits_ok db \<and> refs_ok db \<and> success_ok db \<and> (\<forall>fid. contiguous fid db)"

definition live_ids :: "db \<Rightarrow> string set" where
  "live_ids db = fn_id ` set (funcs db) \<union> ver_id ` set (functionVersions db) \<union> build_id ` set (builds db)"

text \<open>What a handler has looked up is still what it was, or it is gone.\<close>

definition found_ok :: "string set \<Rightarrow> db \<Rightarrow> func \<Rightarrow> bool" where
  "found_ok ids db f \<longleftrightarrow> fn_id f \<in> ids \<and> (\<forall>g \<in> set (funcs db). fn_id g = fn_id f \<longrightarrow> g = f)"

definition latest_ok :: "string set \<Rightarrow> db \<Rightarrow> func \<times> function_version \<Rightarrow> bool" where
  "latest_ok ids db = (\<lambda>(f, v). found_ok ids db f \<and> ver_id v \<in> ids \<and>
     (\<forall>w \<in> set (functionVersions db). ver_id w = ver_id v \<longrightarrow> ver_functionId w = fn_id f))"

definition run_ok :: "string set \<Rightarrow> db \<Rightarrow> build \<times> nat \<Rightarrow> bool" where
  "run_ok ids db = (\<lambda>(b, n). build_id b \<in> ids \<and> build_functionId b \<in> ids \<and>
     (\<forall>x \<in> set (builds db). build_id x = build_id b \<longrightarrow> build_functionId x = build_functionId b) \<and>
     (build_functionId b \<in> fn_id ` set (funcs db) \<longrightarrow> 1 \<le> n \<and> n \<le> nextVersionNumber (build_functionId b) db))"

definition platform_ok :: "platform \<Rightarrow> bool" where
  "platform_ok s \<longleftrightarrow>
     tables_ok (p_db s) \<and> live_ids (p_db s) \<subseteq> p_ids s \<and>
     (\<forall>f \<in> p_found s. found_ok (p_ids s) (p_db s) f) \<and>
     (\<forall>x \<in> p_latest s. latest_ok (p_ids s) (p_db s) x) \<and>
     (\<forall>x \<in> p_runs s. run_ok (p_ids s) (p_db s) x)"

text \<open>How the tables may change under a handler that has looked something up.\<close>

definition evolves :: "string set \<Rightarrow> db \<Rightarrow> db \<Rightarrow> bool" where
  "evolves ids db db' \<longleftrightarrow>
     (\<forall>g \<in> set (funcs db'). g \<in> set (funcs db) \<or> fn_id g \<notin> ids) \<and>
     (\<forall>w \<in> set (functionVersions db'). w \<in> set (functionVersions db) \<or> ver_id w \<notin> ids) \<and>
     (\<forall>x \<in> set (builds db'). build_id x \<notin> ids \<or>
        (\<exists>y \<in> set (builds db). build_id y = build_id x \<and> build_functionId y = build_functionId x)) \<and>
     (\<forall>fid \<in> ids. fid \<in> fn_id ` set (funcs db') \<longrightarrow> numbers fid db \<subseteq> numbers fid db')"

lemma nextVersionNumber_mono:
  assumes "numbers fid db \<subseteq> numbers fid db'"
  shows "nextVersionNumber fid db \<le> nextVersionNumber fid db'"
  unfolding nextVersionNumber_Max using assms Max_mono [OF assms] by auto

lemma evolves_found: "evolves ids db db' \<Longrightarrow> found_ok ids db f \<Longrightarrow> found_ok (insert i ids) db' f"
  unfolding evolves_def found_ok_def by fastforce

lemma evolves_latest: "evolves ids db db' \<Longrightarrow> latest_ok ids db x \<Longrightarrow> latest_ok (insert i ids) db' x"
  using evolves_found [of ids db db'] by (cases x) (fastforce simp: latest_ok_def evolves_def)

lemma evolves_run:
  assumes "evolves ids db db'" and "run_ok ids db x"
  shows "run_ok (insert i ids) db' x"
proof -
  obtain b n where x: "x = (b, n)" by fastforce
  have b: "build_id b \<in> ids" "build_functionId b \<in> ids"
    and same: "\<forall>y \<in> set (builds db). build_id y = build_id b \<longrightarrow> build_functionId y = build_functionId b"
    and num: "build_functionId b \<in> fn_id ` set (funcs db) \<longrightarrow> 1 \<le> n \<and> n \<le> nextVersionNumber (build_functionId b) db"
    using assms(2) by (auto simp: x run_ok_def)
  have "\<forall>y \<in> set (builds db'). build_id y = build_id b \<longrightarrow> build_functionId y = build_functionId b"
    using assms(1) b(1) same unfolding evolves_def by metis
  moreover have "1 \<le> n \<and> n \<le> nextVersionNumber (build_functionId b) db'"
    if "build_functionId b \<in> fn_id ` set (funcs db')"
  proof -
    have "build_functionId b \<in> fn_id ` set (funcs db)" using that assms(1) b(2) unfolding evolves_def by fastforce
    moreover have "numbers (build_functionId b) db \<subseteq> numbers (build_functionId b) db'"
      using that assms(1) b(2) unfolding evolves_def by blast
    ultimately show ?thesis using num nextVersionNumber_mono order_trans by blast
  qed
  ultimately show ?thesis using b by (simp add: x run_ok_def)
qed

lemma platform_ok_generated:
  assumes "platform_ok s" and "evolves (p_ids s) (p_db s) db'" and "tables_ok db'"
    and "live_ids db' \<subseteq> insert i (live_ids (p_db s))"
  shows "platform_ok (generated i db' s)"
  using assms evolves_found evolves_latest evolves_run unfolding platform_ok_def generated_def by auto

lemma platform_ok_with_db:
  assumes "platform_ok s" and "evolves (p_ids s) (p_db s) db'" and "tables_ok db'"
    and "live_ids db' \<subseteq> live_ids (p_db s)"
  shows "platform_ok (with_db db' s)"
proof -
  have "found_ok (p_ids s) db' f" if "found_ok (p_ids s) (p_db s) f" for f
    using evolves_found [OF assms(2) that, of "fn_id f"] that by (simp add: found_ok_def insert_absorb)
  moreover have "latest_ok (p_ids s) db' (f, v)" if "latest_ok (p_ids s) (p_db s) (f, v)" for f v
    using evolves_latest [OF assms(2) that, of "ver_id v"] that by (simp add: latest_ok_def insert_absorb)
  moreover have "run_ok (p_ids s) db' (b, n)" if "run_ok (p_ids s) (p_db s) (b, n)" for b n
    using evolves_run [OF assms(2) that, of "build_id b"] that by (simp add: run_ok_def insert_absorb)
  ultimately show ?thesis using assms(1,3,4) unfolding platform_ok_def with_db_def by fastforce
qed

section \<open>Every write keeps the tables\<close>

definition keeps :: "string set \<Rightarrow> string set \<Rightarrow> db \<Rightarrow> db \<Rightarrow> bool" where
  "keeps ids new db db' \<longleftrightarrow> tables_ok db' \<and> evolves ids db db' \<and> live_ids db' \<subseteq> new \<union> live_ids db"

definition same_tables :: "db \<Rightarrow> db \<Rightarrow> bool" where
  "same_tables db db' \<longleftrightarrow> funcs db' = funcs db \<and> functionVersions db' = functionVersions db
     \<and> builds db' = builds db \<and> invocations db' = invocations db"

lemma numbers_cong: "functionVersions db' = functionVersions db \<Longrightarrow> numbers fid db' = numbers fid db"
  by (simp add: numbers_def)

lemma contiguous_cong: "functionVersions db' = functionVersions db \<Longrightarrow> contiguous fid db' = contiguous fid db"
  unfolding contiguous_def numbers_cong [of db' db] ..

lemma numbers_update [simp]:
  "numbers fid (db\<lparr>funcs := fs\<rparr>) = numbers fid db" "numbers fid (db\<lparr>builds := bs\<rparr>) = numbers fid db"
  "numbers fid (db\<lparr>invocations := is\<rparr>) = numbers fid db"
  by (simp_all add: numbers_def)

lemma contiguous_update [simp]:
  "contiguous fid (db\<lparr>funcs := fs\<rparr>) = contiguous fid db" "contiguous fid (db\<lparr>builds := bs\<rparr>) = contiguous fid db"
  "contiguous fid (db\<lparr>invocations := is\<rparr>) = contiguous fid db"
  by (simp_all add: contiguous_def)

lemmas table_defs = tables_ok_def limits_ok_def refs_ok_def success_ok_def

lemma keeps_refl: "tables_ok db \<Longrightarrow> keeps ids new db db"
  by (auto simp: keeps_def evolves_def)

lemma same_keeps: "tables_ok db \<Longrightarrow> db_wf db' \<Longrightarrow> same_tables db db' \<Longrightarrow> keeps ids new db db'"
  using numbers_cong [of db' db] contiguous_cong [of db' db]
  by (simp add: keeps_def evolves_def same_tables_def table_defs live_ids_def) blast

lemma function_create_keeps:
  assumes "tables_ok db" and "function_create f db = Inr db'" and "fn_id f \<notin> ids"
    and "memoryMb f \<in> {64..3008}" and "timeoutMs f \<in> {100..60000}" and "name_pattern (fn_name f)"
  shows "keeps ids {fn_id f} db db'"
proof -
  have db': "db' = db\<lparr>funcs := funcs db @ [f]\<rparr>" using assms(2) by (auto simp: function_create_def split: if_splits)
  have "db_wf db'" using assms(1,2) function_create_wf by (auto simp: tables_ok_def)
  then have "tables_ok db'" using assms(1,4-6) by (simp add: db' table_defs)
  then show ?thesis using assms(3) by (auto simp: keeps_def evolves_def db' live_ids_def)
qed

lemma delete_numbers:
  "numbers fid (delete_function_row g db) = (if fid = g then {} else numbers fid db)"
  by (auto simp: numbers_def delete_function_row_def Let_def)

lemma delete_keeps:
  assumes "tables_ok db"
  shows "keeps ids {} db (delete_function_row g db)"
proof -
  let ?db' = "delete_function_row g db"
  have "db_wf ?db'" using assms delete_function_row_wf by (simp add: tables_ok_def)
  moreover have "contiguous fid ?db'" for fid
  proof (cases "fid = g")
    case True
    then have "numbers fid ?db' = {1..0}" by (simp add: delete_numbers)
    then show ?thesis unfolding contiguous_def by blast
  qed (use assms in \<open>simp add: contiguous_def delete_numbers tables_ok_def\<close>)
  moreover have "refs_ok ?db'"
    using assms by (auto simp: tables_ok_def refs_ok_def delete_function_row_def Let_def dest!: clear_version_ref)
  moreover have "limits_ok ?db'" using assms by (simp add: table_defs delete_function_row_def Let_def)
  moreover have "success_ok ?db'"
    using assms by (fastforce simp: tables_ok_def success_ok_def delete_function_row_def Let_def)
  ultimately have "tables_ok ?db'" by (simp add: tables_ok_def)
  moreover have "evolves ids db ?db'"
    using delete_numbers by (auto simp: evolves_def) (auto simp: delete_function_row_def Let_def)
  ultimately show ?thesis by (auto simp: keeps_def live_ids_def delete_function_row_def Let_def)
qed

lemma invocation_create_keeps:
  assumes "tables_ok db" and "invocation_create i db = Inr db'" and "latest_ok ids db (f, v)"
    and "inv_functionId i = fn_id f" and "inv_versionId i = Some (ver_id v)"
  shows "keeps ids new db db'"
proof -
  have db': "db' = db\<lparr>invocations := invocations db @ [i]\<rparr>"
    using assms(2) by (auto simp: invocation_create_def split: if_splits)
  have "db_wf db'" using assms(1,2) invocation_create_wf by (auto simp: tables_ok_def)
  then have "tables_ok db'" using assms(1,3-5) by (auto simp: db' table_defs latest_ok_def)
  then show ?thesis by (auto simp: keeps_def evolves_def db' live_ids_def)
qed

lemma build_create_keeps:
  assumes "tables_ok db" and "build_create b db = Inr db'" and "build_id b \<notin> ids" and "build_status b = PENDING"
  shows "keeps ids {build_id b} db db'"
proof -
  have db': "db' = db\<lparr>builds := builds db @ [b]\<rparr>" using assms(2) by (auto simp: build_create_def split: if_splits)
  have "db_wf db'" using assms(1,2) build_create_wf by (auto simp: tables_ok_def)
  then have "tables_ok db'" using assms(1,4) by (auto simp: db' table_defs)
  then show ?thesis using assms(3) by (auto simp: keeps_def evolves_def db' live_ids_def)
qed

lemma build_columns:
  assumes "\<And>b. build_id (g b) = build_id b" and "\<And>b. build_functionId (g b) = build_functionId b"
    and "x \<in> set (update_where p g bs)"
  shows "\<exists>y \<in> set bs. build_id y = build_id x \<and> build_functionId y = build_functionId x"
  using assms(3) by (rule in_update_whereE) (use assms(1,2) in auto)

lemma update_builds_keeps:
  assumes "tables_ok db" and "db' = db\<lparr>builds := update_where p g (builds db)\<rparr>"
    and cols: "\<And>b. build_id (g b) = build_id b" "\<And>b. build_functionId (g b) = build_functionId b"
    and "\<And>b. build_status (g b) = SUCCESS \<Longrightarrow> build_status b = SUCCESS \<and> build_imageTag (g b) = build_imageTag b"
  shows "keeps ids new db db'"
proof -
  have ids: "map build_id (builds db') = map build_id (builds db)" unfolding assms(2) by (simp add: map_update_where cols)
  have "\<forall>x \<in> set (builds db'). build_functionId x \<in> fn_id ` set (funcs db)"
  proof
    fix x
    assume "x \<in> set (builds db')"
    then obtain y where "y \<in> set (builds db)" "build_functionId y = build_functionId x"
      using build_columns [OF cols] assms(2) by fastforce
    then show "build_functionId x \<in> fn_id ` set (funcs db)"
      using assms(1) by (metis tables_ok_def db_wf_def builds_wf_def)
  qed
  then have "db_wf db'" using assms(1) ids by (simp add: tables_ok_def db_wf_def wf_defs assms(2))
  moreover have "success_ok db'"
    using assms(1,4,5) by (fastforce simp: assms(2) tables_ok_def success_ok_def elim!: in_update_whereE split: if_splits)
  ultimately have "tables_ok db'" using assms(1) by (simp add: assms(2) tables_ok_def limits_ok_def refs_ok_def)
  moreover have "evolves ids db db'"
    using build_columns [OF cols] by (auto simp: evolves_def assms(2))
  moreover have "live_ids db' = live_ids db" using ids by (metis (no_types, lifting) assms(2) live_ids_def set_map
        db.select_convs db.update_convs(5) db.surjective)
  ultimately show ?thesis by (simp add: keeps_def)
qed

lemma commit_keeps:
  assumes ok: "tables_ok db" and c: "commit_version verId now b n ref db = Inr db'" and "verId \<notin> ids"
    and "live_ids db \<subseteq> ids" and run: "run_ok ids db (b, n)" and f: "build_functionId b \<in> fn_id ` set (funcs db)"
  shows "keeps ids {verId} db db'"
proof -
  note rows = commit_version_Inr [OF c]
  have wf: "db_wf db" and "db_wf db'" using ok commit_version_wf [OF _ c] by (auto simp: tables_ok_def)
  moreover have "contiguous fid db'" for fid
  proof (cases "fid = build_functionId b")
    case True
    obtain k where k: "numbers fid db = {1..k}" using ok by (auto simp: tables_ok_def contiguous_def)
    then have "n = Suc k"
      using nextVersionNumber_contiguous [OF k] run f commit_numbers(2) [OF c] True by (auto simp: run_ok_def)
    then have "numbers fid db' = {1..Suc k}" using commit_numbers(1) [OF c] k True by auto
    then show ?thesis unfolding contiguous_def by blast
  qed (use ok commit_numbers(3) [OF c] in \<open>simp add: contiguous_def tables_ok_def\<close>)
  moreover have "success_ok db'"
  proof -
    obtain b0 where "b0 \<in> set (builds db)" "build_id b0 = build_id b" using rows(3) by auto
    moreover from this have "build_functionId b0 = build_functionId b" using run by (simp add: run_ok_def)
    ultimately show ?thesis using commit_success_ok [OF wf _ _ _ _ c] ok by (auto simp: tables_ok_def)
  qed
  moreover have "refs_ok db'"
  proof -
    have "verId \<notin> ver_id ` set (functionVersions db)" using assms(3,4) by (auto simp: live_ids_def)
    then have "inv_versionId i \<noteq> Some verId" if "i \<in> set (invocations db)" for i
      using that wf unfolding db_wf_def invocations_wf_def by blast
    then show ?thesis using ok by (auto simp: tables_ok_def refs_ok_def rows)
  qed
  moreover have "limits_ok db'" using ok by (simp add: table_defs rows)
  ultimately have "tables_ok db'" by (simp add: tables_ok_def)
  moreover have "evolves ids db db'"
  proof -
    have "numbers fid db \<subseteq> numbers fid db'" for fid
      using commit_numbers(1,3) [OF c] by (cases "fid = build_functionId b") auto
    moreover have "\<exists>y \<in> set (builds db). build_id y = build_id x \<and> build_functionId y = build_functionId x"
      if "x \<in> set (builds db')" for x by (rule build_columns) (use that rows(2) in simp_all)
    ultimately show ?thesis using assms(3) by (auto simp: evolves_def rows(1,5))
  qed
  moreover have "build_id ` set (builds db') = build_id ` set (builds db)"
    unfolding rows(2) by (rule image_update_where) simp
  ultimately show ?thesis by (auto simp: keeps_def live_ids_def rows(1,5))
qed

section \<open>Every step keeps the invariant\<close>

lemma guard_same: "same_tables db (snd (AuthGuard C F now header db))"
  using ag.guard_frame [of C F now header db "fst (AuthGuard C F now header db)" "snd (AuthGuard C F now header db)"]
  by (simp add: same_tables_def)

lemma guard_snd_wf: "db_wf db \<Longrightarrow> db_wf (snd (AuthGuard C F now header db))"
  by (rule ag.guard_wf [of C F now header db "fst (AuthGuard C F now header db)"]) simp_all

lemma register_user_same: "same_tables db (snd (register_user C F salt newId now dto db))"
  by (auto simp: same_tables_def register_user_def user_create_def Let_def split: sum.splits db_error.splits if_splits)

lemma createApiKey_same: "same_tables db (snd (createApiKey C F rnd newId now u dto db))"
  by (auto simp: same_tables_def createApiKey_def apiKey_create_def Let_def split: sum.splits if_splits)

lemma revokeApiKey_same: "same_tables db (snd (revokeApiKey F now u keyId db))"
  by (auto simp: same_tables_def revokeApiKey_def apiKey_update_def split: sum.splits if_splits)

lemma register_function_keeps:
  assumes "tables_ok db" and "newId \<notin> ids" and "RegisterFunctionDto fracInt body = Inr dto"
  shows "keeps ids {newId} db (snd (register_function F newId now u dto db))"
proof (cases "register_function F newId now u dto db")
  case (Pair r db')
  then have "keeps ids {newId} db db'"
  proof (cases rule: register_function_cases)
    case (created f)
    then show ?thesis using function_create_keeps [OF assms(1) created(2)] assms(2) RegisterFunctionDto_bounds [OF assms(3)]
      by auto
  qed (use keeps_refl [OF assms(1)] in simp)
  with Pair show ?thesis by simp
qed

lemma remove_function_effect:
  "snd (remove_function F u name db) \<in> insert db ((\<lambda>f. delete_function_row (fn_id f) db) ` {f. function_findUnique u name db = Some f})"
  by (auto simp: remove_function_def function_delete_def db_write_def split: sum.split option.split db_error.split)

lemma remove_function_keeps: "tables_ok db \<Longrightarrow> keeps ids {} db (snd (remove_function F u name db))"
  using remove_function_effect [of F u name db] keeps_refl delete_keeps by fastforce

lemma recordInvocation_keeps:
  assumes "tables_ok db" and "latest_ok ids db (f, v)"
  shows "keeps ids {} db (recordInvocation F cx (fn_id f) (ver_id v) st d err db)"
proof (cases "recordInvocation F cx (fn_id f) (ver_id v) st d err db = db")
  case False
  then show ?thesis
  proof (rule recordInvocation_cases)
    fix i
    assume i: "invocation_data cx (fn_id f) (ver_id v) st d err = Some i"
      and c: "invocation_create i db = Inr (recordInvocation F cx (fn_id f) (ver_id v) st d err db)"
    from invocation_data_columns [OF i] show ?thesis by (intro invocation_create_keeps [OF assms(1) c assms(2)]) simp_all
  qed
qed (use keeps_refl [OF assms(1)] in simp)

lemma submitBuild_effect:
  "snd (snd (submitBuild S cfg F uuid newId now fid source (objs, db))) = db \<or>
   (\<exists>key. build_create (new_build newId now fid key) db = Inr (snd (snd (submitBuild S cfg F uuid newId now fid source (objs, db)))))"
  by (auto simp: submitBuild_def Let_def split: prod.splits sum.splits)

lemma submitBuild_keeps:
  assumes "tables_ok db" and "newId \<notin> ids"
  shows "keeps ids {newId} db (snd (snd (submitBuild S cfg F uuid newId now fid source (objs, db))))"
proof -
  have "build_id (new_build newId now fid key) = newId" "build_status (new_build newId now fid key) = PENDING" for key
    by (simp_all add: new_build_def)
  then show ?thesis
    using submitBuild_effect [of S cfg F uuid newId now fid source objs db] keeps_refl [OF assms(1)]
      build_create_keeps [OF assms(1)] assms(2) by metis
qed

lemma relayOnce_effect:
  "fst (snd (relayOnce R F locked now (db, q))) \<in> {db, mark_published now (select_unpublished locked db) db}"
  by (auto simp: relayOnce_def Let_def split: option.splits)

lemma mark_published_keeps: "tables_ok db \<Longrightarrow> keeps ids new db (mark_published now is db)"
  by (erule update_builds_keeps [where g = "\<lambda>b. b\<lparr>publishedToStreamAt := Some now\<rparr>"])
     (simp_all add: mark_published_def)

lemma mark_failed_keeps:
  assumes "tables_ok db"
  shows "keeps ids new db (snd (mark_failed F now i m db))"
proof (cases "mark_failed F now i m db")
  case (Pair r db')
  then show ?thesis
  proof (cases rule: mark_failed_cases)
    case marked
    have "keeps ids new db db'" by (rule update_builds_keeps [OF assms marked(3)]) simp_all
    with Pair show ?thesis by simp
  qed (use keeps_refl [OF assms] Pair in simp)
qed

lemma keeps_with_db: "platform_ok s \<Longrightarrow> keeps (p_ids s) {} (p_db s) db' \<Longrightarrow> platform_ok (with_db db' s)"
  by (rule platform_ok_with_db) (auto simp: keeps_def)

lemma keeps_generated: "platform_ok s \<Longrightarrow> keeps (p_ids s) {i} (p_db s) db' \<Longrightarrow> platform_ok (generated i db' s)"
  by (rule platform_ok_generated) (auto simp: keeps_def)

lemma find_function_ok:
  assumes "platform_ok s" and "get_function F u name (p_db s) = Inr f"
  shows "found_ok (p_ids s) (p_db s) f"
proof -
  have "f \<in> set (funcs (p_db s))" using get_function_owned [OF assms(2)] by (simp add: owned_def)
  then show ?thesis using assms(1)
    by (auto simp: platform_ok_def tables_ok_def db_wf_def funcs_wf_def found_ok_def live_ids_def dest: distinct_map_inj)
qed

lemma find_version_ok:
  assumes "platform_ok s" and "f \<in> p_found s" and "latestVersion (fn_id f) (p_db s) = Some v"
  shows "latest_ok (p_ids s) (p_db s) (f, v)"
proof -
  have v: "v \<in> set (functionVersions (p_db s))" "ver_functionId v = fn_id f"
    using latestVersion_SomeD [OF assms(3)] by auto
  then have "ver_id v \<in> p_ids s" using assms(1) by (auto simp: platform_ok_def live_ids_def)
  moreover have "ver_functionId w = fn_id f" if "w \<in> set (functionVersions (p_db s))" "ver_id w = ver_id v" for w
  proof -
    have "distinct (map ver_id (functionVersions (p_db s)))"
      using assms(1) by (simp add: platform_ok_def tables_ok_def db_wf_def versions_wf_def)
    from distinct_map_inj [OF this that(1) v(1) that(2)] v(2) show ?thesis by simp
  qed
  ultimately show ?thesis using assms(1,2) by (simp add: platform_ok_def latest_ok_def)
qed

lemma start_build_ok:
  assumes "platform_ok s" and "b \<in> set (builds (p_db s))"
  shows "run_ok (p_ids s) (p_db s) (b, nextVersionNumber (build_functionId b) (p_db s))"
proof -
  have wf: "db_wf (p_db s)" using assms(1) by (simp add: platform_ok_def tables_ok_def)
  then have "build_functionId b \<in> fn_id ` set (funcs (p_db s))" using assms(2) by (simp add: db_wf_def builds_wf_def)
  then have "build_id b \<in> p_ids s" "build_functionId b \<in> p_ids s"
    using assms by (auto simp: platform_ok_def live_ids_def)
  moreover have "\<forall>x \<in> set (builds (p_db s)). build_id x = build_id b \<longrightarrow> build_functionId x = build_functionId b"
    using build_by_id [OF wf assms(2)] by blast
  ultimately show ?thesis by (simp add: run_ok_def nextVersionNumber_def)
qed

lemma platform_step_ok:
  assumes "platform_step C S R a s t" and ok: "platform_ok s"
  shows "platform_ok t"
proof -
  have tab: "tables_ok (p_db s)" and wf: "db_wf (p_db s)" using ok by (auto simp: platform_ok_def tables_ok_def)
  from assms(1) show ?thesis
  proof cases
    case (Authenticate F now header)
    with ok guard_snd_wf [OF wf] guard_same show ?thesis by (auto intro!: keeps_with_db same_keeps [OF tab])
  next
    case (Register_user newId F salt now dto)
    with ok register_user_wf [OF wf] register_user_same show ?thesis by (auto intro!: keeps_generated same_keeps [OF tab])
  next
    case (Create_key newId F rnd now u kdto)
    with ok createApiKey_wf [OF wf] createApiKey_same show ?thesis by (auto intro!: keeps_generated same_keeps [OF tab])
  next
    case (Revoke_key F now u keyId)
    with ok revokeApiKey_wf [OF wf] revokeApiKey_same show ?thesis by (auto intro!: keeps_with_db same_keeps [OF tab])
  next
    case (Register_function newId fracInt body fdto u F now)
    with ok register_function_keeps [OF tab] show ?thesis by (auto intro!: keeps_generated)
  next
    case (Remove_function u F name)
    with ok remove_function_keeps [OF tab] show ?thesis by (auto intro!: keeps_with_db)
  next
    case (Find_function F u name f)
    with ok find_function_ok [OF ok] show ?thesis by (auto simp: platform_ok_def)
  next
    case (Find_version f v)
    with ok find_version_ok [OF ok] show ?thesis by (auto simp: platform_ok_def)
  next
    case (Record_invocation f v F cx st d err)
    then have "latest_ok (p_ids s) (p_db s) (f, v)" using ok by (auto simp: platform_ok_def)
    from recordInvocation_keeps [OF tab this] Record_invocation ok show ?thesis by (auto intro!: keeps_with_db)
  next
    case (Submit_build f newId cfg F uuid now source objs)
    with ok submitBuild_keeps [OF tab] show ?thesis by (auto intro!: keeps_generated)
  next
    case (Relay F locked now queue)
    have "keeps (p_ids s) {} (p_db s) (fst (snd (relayOnce R F locked now (p_db s, queue))))"
      using relayOnce_effect [of R F locked now "p_db s" queue] keeps_refl [OF tab] mark_published_keeps [OF tab] by auto
    with Relay ok show ?thesis by (auto intro!: keeps_with_db)
  next
    case (Start_build b)
    with ok start_build_ok [OF ok] show ?thesis by (auto simp: platform_ok_def)
  next
    case (Commit_build b n verId f now ref db')
    then have "run_ok (p_ids s) (p_db s) (b, n)" "live_ids (p_db s) \<subseteq> p_ids s" using ok by (auto simp: platform_ok_def)
    moreover have "build_functionId b \<in> fn_id ` set (funcs (p_db s))" using Commit_build by (metis imageI)
    ultimately show ?thesis using Commit_build commit_keeps [OF tab Commit_build(7)] ok by (auto intro!: keeps_generated)
  next
    case (Fail_build b f F now m)
    with ok mark_failed_keeps [OF tab] show ?thesis by (auto intro!: keeps_with_db)
  qed
qed

lemma platform_run_ok: "platform_run C S R as s t \<Longrightarrow> platform_ok s \<Longrightarrow> platform_ok t"
  by (induction rule: platform_run.induct) (auto dest: platform_step_ok)

lemma init_platform_ok: "platform_ok init_platform"
proof -
  have "numbers fid empty_db = {1..0}" for fid by (simp add: numbers_def empty_db_def)
  then have "contiguous fid empty_db" for fid unfolding contiguous_def by blast
  then show ?thesis using db_wf_empty
    by (simp add: platform_ok_def init_platform_def table_defs live_ids_def) (simp add: empty_db_def)
qed

section \<open>Isolation of accounts\<close>

text \<open>
  What an account sees of its own rows. The column \<open>publishedToStreamAt\<close> is bookkeeping of the relay,
  which serves all accounts.
\<close>

definition unstamped :: "build \<Rightarrow> build" where
  "unstamped b = b\<lparr>publishedToStreamAt := None\<rparr>"

definition private_view :: "string \<Rightarrow> db \<Rightarrow> tenant" where
  "private_view u db = (tenant_view u db)\<lparr>t_builds := map unstamped (t_builds (tenant_view u db))\<rparr>"

lemma tenant_private: "tenant_view v db' = tenant_view v db \<Longrightarrow> private_view v db' = private_view v db"
  by (simp add: private_view_def)

lemma same_private: "same_tables db db' \<Longrightarrow> private_view v db' = private_view v db"
  by (simp add: private_view_def tenant_view_def owned_def owned_ids_def same_tables_def)

lemma filter_update_other:
  "(\<And>x. x \<in> set xs \<Longrightarrow> p x \<Longrightarrow> \<not> q x \<and> \<not> q (g x)) \<Longrightarrow> filter q (update_where p g xs) = filter q xs"
  by (induction xs) (auto simp: update_where_def)

lemma not_owned:
  assumes "db_wf db" and "f \<in> set (funcs db)" and "fn_userId f \<noteq> v"
  shows "fn_id f \<notin> owned_ids v db"
  using owned_ids_disjoint [OF assms(1), of "fn_userId f" v "fn_id f"] assms(2,3)
  by (auto simp: owned_ids_def owned_def)

lemma found_not_owned:
  assumes "found_ok ids db f" and "fn_userId f \<noteq> v"
  shows "fn_id f \<notin> owned_ids v db"
  using assms by (auto simp: found_ok_def owned_ids_def owned_def)

lemma update_builds_private:
  assumes "\<And>b. b \<in> set (builds db) \<Longrightarrow> p b \<Longrightarrow> build_functionId b \<notin> owned_ids v db"
    and "\<And>b. build_functionId (g b) = build_functionId b"
  shows "tenant_view v (db\<lparr>builds := update_where p g (builds db)\<rparr>) = tenant_view v db"
proof -
  let ?db' = "db\<lparr>builds := update_where p g (builds db)\<rparr>"
  have "filter (\<lambda>b. build_functionId b \<in> owned_ids v db) (update_where p g (builds db)) =
      filter (\<lambda>b. build_functionId b \<in> owned_ids v db) (builds db)"
    by (rule filter_update_other) (use assms in auto)
  moreover have "owned v ?db' = owned v db" "owned_ids v ?db' = owned_ids v db" by (simp_all add: owned_ids_def owned_def)
  ultimately show ?thesis by (simp add: tenant_view_def)
qed

lemma mark_published_private: "private_view v (mark_published now is db) = private_view v db"
proof -
  let ?g = "\<lambda>b. b\<lparr>publishedToStreamAt := Some now\<rparr>" and ?p = "\<lambda>b. build_id b \<in> set is"
  have "map unstamped (filter (\<lambda>b. build_functionId b \<in> X) (update_where ?p ?g (builds db))) =
      map unstamped (filter (\<lambda>b. build_functionId b \<in> X) (builds db))" for X
    by (simp add: filter_update_where map_update_where unstamped_def)
  then show ?thesis
    by (simp add: private_view_def tenant_view_def owned_def owned_ids_def mark_published_def)
qed

lemma commit_private:
  assumes ok: "platform_ok s" and run: "(b, n) \<in> p_runs s" and f: "f \<in> set (funcs (p_db s))"
    and id: "fn_id f = build_functionId b" and c: "commit_version verId now b n ref (p_db s) = Inr db'" and v: "fn_userId f \<noteq> v"
  shows "tenant_view v db' = tenant_view v (p_db s)"
proof -
  note rows = commit_version_Inr [OF c]
  have wf: "db_wf (p_db s)" using ok by (simp add: platform_ok_def tables_ok_def)
  have no: "build_functionId b \<notin> owned_ids v (p_db s)" using not_owned [OF wf f v] id by simp
  have "build_functionId x = build_functionId b" if "x \<in> set (builds (p_db s))" "build_id x = build_id b" for x
    using ok run that by (auto simp: platform_ok_def run_ok_def)
  then have "filter (\<lambda>x. build_functionId x \<in> owned_ids v (p_db s)) (builds db') =
      filter (\<lambda>x. build_functionId x \<in> owned_ids v (p_db s)) (builds (p_db s))"
    unfolding rows(2) by (intro filter_update_other) (use no in auto)
  moreover have "owned v db' = owned v (p_db s)" "owned_ids v db' = owned_ids v (p_db s)"
    by (simp_all add: owned_ids_def owned_def rows(5))
  ultimately show ?thesis using no by (simp add: tenant_view_def rows(1,6))
qed

lemma mark_failed_private:
  assumes wf: "db_wf db" and b: "b \<in> set (builds db)" and f: "f \<in> set (funcs db)" "fn_id f = build_functionId b" "fn_userId f \<noteq> v"
  shows "tenant_view v (snd (mark_failed F now (build_id b) m db)) = tenant_view v db"
proof (cases "mark_failed F now (build_id b) m db")
  case (Pair r db')
  then show ?thesis
  proof (cases rule: mark_failed_cases)
    case marked
    have "build_functionId x \<notin> owned_ids v db" if "x \<in> set (builds db)" "build_id x = build_id b" for x
      using build_by_id [OF wf b that] not_owned [OF wf f(1,3)] f(2) by simp
    then show ?thesis using Pair marked(3) update_builds_private by simp
  qed (use Pair in simp)
qed

lemma build_create_private:
  assumes "build_create b db = Inr db'" and "build_functionId b \<notin> owned_ids v db"
  shows "tenant_view v db' = tenant_view v db"
proof -
  have "db' = db\<lparr>builds := builds db @ [b]\<rparr>" using assms(1) by (auto simp: build_create_def split: if_splits)
  then show ?thesis using assms(2) by (simp add: tenant_view_def owned_def owned_ids_def)
qed

lemma submitBuild_private:
  assumes "fid \<notin> owned_ids v db"
  shows "tenant_view v (snd (snd (submitBuild S cfg F uuid newId now fid source (objs, db)))) = tenant_view v db"
proof -
  have "build_functionId (new_build newId now fid key) = fid" for key by (simp add: new_build_def)
  then show ?thesis using submitBuild_effect [of S cfg F uuid newId now fid source objs db] build_create_private assms by metis
qed

lemma step_private:
  assumes "platform_step C S R a s t" and ok: "platform_ok s" and a: "a \<noteq> For v"
  shows "private_view v (p_db t) = private_view v (p_db s)"
proof -
  have wf: "db_wf (p_db s)" and refs: "refs_ok (p_db s)" using ok by (auto simp: platform_ok_def tables_ok_def)
  note db_simps = with_db_def generated_def
  from assms(1) show ?thesis
  proof cases
    case (Authenticate F now header)
    then show ?thesis using same_private [OF guard_same] by (simp add: db_simps)
  next
    case (Register_user newId F salt now dto)
    then show ?thesis using same_private [OF register_user_same] by (simp add: db_simps)
  next
    case (Create_key newId F rnd now u kdto)
    then show ?thesis using same_private [OF createApiKey_same] by (simp add: db_simps)
  next
    case (Revoke_key F now u keyId)
    then show ?thesis using same_private [OF revokeApiKey_same] by (simp add: db_simps)
  next
    case (Register_function newId fracInt body fdto u F now)
    then show ?thesis using register_function_isolated [of v u] a by (auto simp: db_simps intro!: tenant_private)
  next
    case (Remove_function u F name)
    then show ?thesis using remove_function_isolated [OF wf refs, of v u] a by (auto simp: db_simps intro!: tenant_private)
  next
    case (Record_invocation f w F cx st d err)
    then have "found_ok (p_ids s) (p_db s) f" using ok by (auto simp: platform_ok_def latest_ok_def)
    then have "fn_id f \<notin> owned_ids v (p_db s)" by (rule found_not_owned) (use Record_invocation a in auto)
    then show ?thesis using recordInvocation_isolated Record_invocation by (auto simp: db_simps intro!: tenant_private)
  next
    case (Submit_build f newId cfg F uuid now source objs)
    then have "found_ok (p_ids s) (p_db s) f" using ok by (auto simp: platform_ok_def)
    then have "fn_id f \<notin> owned_ids v (p_db s)" by (rule found_not_owned) (use Submit_build a in auto)
    then show ?thesis using submitBuild_private Submit_build by (auto simp: db_simps intro!: tenant_private)
  next
    case (Relay F locked now queue)
    have "private_view v (fst (snd (relayOnce R F locked now (p_db s, queue)))) = private_view v (p_db s)"
      using relayOnce_effect [of R F locked now "p_db s" queue] mark_published_private by auto
    then show ?thesis using Relay by (simp add: db_simps)
  next
    case (Commit_build b n verId f now ref db')
    then show ?thesis using commit_private [OF ok Commit_build(3,5,6,7)] a by (auto simp: db_simps intro!: tenant_private)
  next
    case (Fail_build b f F now m)
    then show ?thesis using mark_failed_private [OF wf Fail_build(3-5)] a by (auto simp: db_simps intro!: tenant_private)
  qed simp_all
qed

lemma run_private:
  "platform_run C S R as s t \<Longrightarrow> platform_ok s \<Longrightarrow> For v \<notin> set as \<Longrightarrow> private_view v (p_db t) = private_view v (p_db s)"
proof (induction rule: platform_run.induct)
  case (more as s t a u)
  then show ?case using step_private [OF more(2) platform_run_ok [OF more(1)]] by auto
qed simp

section \<open>API keys stay revoked\<close>

definition keys_kept :: "db \<Rightarrow> db \<Rightarrow> bool" where
  "keys_kept db db' \<longleftrightarrow> (\<forall>k \<in> set (apiKeys db). \<exists>k' \<in> set (apiKeys db').
     keyHash k' = keyHash k \<and> (revokedAt k \<noteq> None \<longrightarrow> revokedAt k' \<noteq> None))"

lemma keys_kept_same: "apiKeys db' = apiKeys db \<Longrightarrow> keys_kept db db'"
  by (auto simp: keys_kept_def)

lemma keys_kept_trans: "keys_kept db1 db2 \<Longrightarrow> keys_kept db2 db3 \<Longrightarrow> keys_kept db1 db3"
  unfolding keys_kept_def by metis

lemma keys_kept_update:
  assumes "\<And>k. keyHash (g k) = keyHash k" and "\<And>k. revokedAt k \<noteq> None \<Longrightarrow> revokedAt (g k) \<noteq> None"
  shows "keys_kept db (db\<lparr>apiKeys := update_where p g (apiKeys db)\<rparr>)"
  unfolding keys_kept_def
proof
  fix k
  assume k: "k \<in> set (apiKeys db)"
  show "\<exists>k' \<in> set (apiKeys (db\<lparr>apiKeys := update_where p g (apiKeys db)\<rparr>)).
      keyHash k' = keyHash k \<and> (revokedAt k \<noteq> None \<longrightarrow> revokedAt k' \<noteq> None)"
  proof (cases "p k")
    case True
    from in_update_where_this [of k "apiKeys db" p g] k True assms show ?thesis by (auto intro!: bexI [of _ "g k"])
  next
    case False
    from in_update_where_other [of k "apiKeys db" p g] k False show ?thesis by (auto intro!: bexI [of _ k])
  qed
qed

lemma guard_keys_kept: "keys_kept db (snd (AuthGuard C F now header db))"
proof (cases "AuthGuard C F now header db")
  case (Pair r db')
  from AuthGuard_frame [OF this] have "keys_kept db db'"
    by (elim disjE exE) (auto intro: keys_kept_same keys_kept_update)
  then show ?thesis using Pair by simp
qed

lemma createApiKey_keys_kept: "keys_kept db (snd (createApiKey C F rnd newId now u dto db))"
  by (auto simp: createApiKey_def Let_def keys_kept_def split: sum.splits dest!: apiKey_create_Inr)

lemma revokeApiKey_effect:
  assumes "revokeApiKey F now u keyId db = (r, db')"
  shows "db' = db \<or> db' = db\<lparr>apiKeys := update_where (\<lambda>k. key_id k = keyId) (\<lambda>k. k\<lparr>revokedAt := Some now\<rparr>) (apiKeys db)\<rparr>"
  using assms by (auto simp: revokeApiKey_def apiKey_update_def split: sum.splits if_splits)

lemma revokeApiKey_keys_kept: "keys_kept db (snd (revokeApiKey F now u keyId db))"
proof (cases "revokeApiKey F now u keyId db")
  case (Pair r db')
  from revokeApiKey_effect [OF this] have "keys_kept db db'"
    by (elim disjE) (auto intro: keys_kept_same keys_kept_update)
  then show ?thesis using Pair by simp
qed

lemma other_writes_keys:
  "apiKeys (snd (register_user C F salt newId now dto db)) = apiKeys db"
  "apiKeys (snd (register_function F newId now u fdto db)) = apiKeys db"
  "apiKeys (snd (remove_function F u name db)) = apiKeys db"
  "apiKeys (recordInvocation F cx fid vid st d err db) = apiKeys db"
  "apiKeys (snd (snd (submitBuild S cfg F uuid newId now fid source (objs, db)))) = apiKeys db"
  "apiKeys (fst (snd (relayOnce R F locked now (db, q)))) = apiKeys db"
  "apiKeys (snd (mark_failed F now i m db)) = apiKeys db"
proof -
  show "apiKeys (snd (register_user C F salt newId now dto db)) = apiKeys db"
    by (auto simp: register_user_def user_create_def Let_def split: sum.splits db_error.splits if_splits)
  show "apiKeys (snd (register_function F newId now u fdto db)) = apiKeys db"
    by (auto simp: register_function_def function_create_def Let_def split: sum.splits db_error.splits if_splits)
  show "apiKeys (snd (remove_function F u name db)) = apiKeys db"
    using remove_function_effect [of F u name db] by (auto simp: delete_function_row_def Let_def)
  show "apiKeys (recordInvocation F cx fid vid st d err db) = apiKeys db"
    by (cases "recordInvocation F cx fid vid st d err db = db") (auto elim!: recordInvocation_cases)
  show "apiKeys (snd (snd (submitBuild S cfg F uuid newId now fid source (objs, db)))) = apiKeys db"
    by (auto simp: submitBuild_def build_create_def Let_def split: prod.splits sum.splits if_splits)
  show "apiKeys (fst (snd (relayOnce R F locked now (db, q)))) = apiKeys db"
    using relayOnce_effect [of R F locked now db q] by (auto simp: mark_published_def)
  show "apiKeys (snd (mark_failed F now i m db)) = apiKeys db"
    by (cases "mark_failed F now i m db") (auto elim!: mark_failed_cases)
qed

lemma step_keys_kept:
  assumes "platform_step C S R a s t"
  shows "keys_kept (p_db s) (p_db t)"
  using assms
  by cases (auto simp: with_db_def generated_def other_writes_keys commit_version_Inr(8)
      intro: guard_keys_kept createApiKey_keys_kept revokeApiKey_keys_kept keys_kept_same)

lemma run_keys_kept: "platform_run C S R as s t \<Longrightarrow> keys_kept (p_db s) (p_db t)"
  by (induction rule: platform_run.induct) (auto intro: keys_kept_same keys_kept_trans step_keys_kept)

lemma revoked_refused:
  assumes "db_wf db" and "k \<in> set (apiKeys db)" and "revokedAt k \<noteq> None" and "keyHash k = sha256_hex C raw"
    and "startsWith ''mc_'' raw"
  shows "\<exists>e. AuthGuard C F now (Some (''Bearer '' @ raw)) db = (Inl e, db)"
proof -
  have "distinct (map keyHash (apiKeys db))" using assms(1) by (simp add: db_wf_def apiKeys_wf_def)
  then have "find (\<lambda>k. keyHash k = sha256_hex C raw) (apiKeys db) = Some k" using find_key_iff assms(2,4) by metis
  then show ?thesis using assms(3) unfolding AuthGuard_key [OF assms(5)]
    by (auto simp: validateApiKey_def hashApiKey_def db_read_def split: option.splits)
qed

section \<open>Handlers as runs\<close>

text \<open>What a handler keeps of its reads while it waits.\<close>

definition looked_up :: "func \<Rightarrow> function_version \<Rightarrow> platform \<Rightarrow> platform" where
  "looked_up f v s = s\<lparr>p_found := insert f (p_found s), p_latest := insert (f, v) (p_latest s)\<rparr>"

definition started :: "build \<Rightarrow> platform \<Rightarrow> platform" where
  "started b s = s\<lparr>p_runs := insert (b, nextVersionNumber (build_functionId b) (p_db s)) (p_runs s)\<rparr>"

lemma looked_up_run:
  assumes "get_function F u name (p_db s) = Inr f" and "latestVersion (fn_id f) (p_db s) = Some v"
  shows "platform_run C S R [Nobody, Nobody] s (looked_up f v s)"
proof -
  let ?s = "s\<lparr>p_found := insert f (p_found s)\<rparr>"
  have "platform_step C S R Nobody s ?s" using assms(1) by (rule platform_step.Find_function)
  moreover have "platform_step C S R Nobody ?s (?s\<lparr>p_latest := insert (f, v) (p_latest ?s)\<rparr>)"
    by (rule platform_step.Find_version) (use assms(2) in simp_all)
  moreover have "?s\<lparr>p_latest := insert (f, v) (p_latest ?s)\<rparr> = looked_up f v s" by (simp add: looked_up_def)
  ultimately show ?thesis using platform_run.more platform_run_one by fastforce
qed

lemma invoke_effect:
  assumes "get_function F u name db = Inr f" and "latestVersion (fn_id f) db = Some v"
  shows "snd (invoke F spare dispatch meanwhile cx u name event db) \<in> {db, meanwhile db} \<or>
    (\<exists>st d err. snd (invoke F spare dispatch meanwhile cx u name event db) =
       recordInvocation F cx (fn_id f) (ver_id v) st d err (meanwhile db))"
  using assms by (auto simp: invoke_def db_read_def Let_def split: option.splits sum.splits bool.splits)

text \<open>What was looked up stays looked up.\<close>

lemma step_remembers: "platform_step C S R a s t \<Longrightarrow> p_latest s \<subseteq> p_latest t \<and> p_runs s \<subseteq> p_runs t"
  by (cases rule: platform_step.cases) (auto simp: with_db_def generated_def)

lemma run_remembers: "platform_run C S R as s t \<Longrightarrow> p_latest s \<subseteq> p_latest t \<and> p_runs s \<subseteq> p_runs t"
proof (induction rule: platform_run.induct)
  case (more as s t a u)
  then show ?case using step_remembers [OF more(2)] by auto
qed simp

lemma fail_run:
  assumes "platform_ok t" and "build_functionId x = fn_id f" and "x \<in> set (builds (p_db t))" and "f \<in> set (funcs (p_db t))"
  shows "platform_step C S R (For (fn_userId f)) t (with_db (snd (mark_failed F now (build_id x) m (p_db t))) t)"
  by (rule platform_step.Fail_build [OF assms(3,4)]) (use assms(2) in simp)

lemma mark_failed_run:
  assumes ok: "platform_ok t"
  shows "\<exists>cs t'. platform_run C S R cs t t' \<and> p_db t' = snd (mark_failed F now i m (p_db t))
    \<and> (\<forall>u. For u \<in> set cs \<longrightarrow> (\<exists>x \<in> set (builds (p_db t)). build_id x = i \<and> build_functionId x \<in> owned_ids u (p_db t)))"
proof (cases "i \<in> build_id ` set (builds (p_db t))")
  case False
  then have "snd (mark_failed F now i m (p_db t)) = p_db t"
    by (auto simp: mark_failed_def build_update_def db_write_def split: option.splits)
  then show ?thesis using platform_run.none by fastforce
next
  case True
  then obtain x where x: "x \<in> set (builds (p_db t))" "build_id x = i" by auto
  moreover have "build_functionId x \<in> fn_id ` set (funcs (p_db t))"
    using ok x(1) by (simp add: platform_ok_def tables_ok_def db_wf_def builds_wf_def)
  then obtain f where f: "f \<in> set (funcs (p_db t))" "build_functionId x = fn_id f" by auto
  then have "build_functionId x \<in> owned_ids (fn_userId f) (p_db t)" by (auto simp: owned_ids_def owned_def)
  ultimately show ?thesis using platform_run_one [OF fail_run [OF ok f(2) x(1) f(1), of C S R F now m]]
    by (intro exI [of _ "[For (fn_userId f)]"] exI conjI) (auto simp: with_db_def)
qed

section \<open>Properties\<close>

text \<open>
  C10. The tables are always in order. Whatever requests, builds and relays do, in whatever order their
  steps interleave and whichever database calls are refused: keys are unique and references lead
  somewhere, limits and names are within what the route accepts, every invocation refers to a
  version of its own function, every build that says SUCCESS has its version, and the versions of
  every function are numbered consecutively from 1.
\<close>

theorem platform_invariant:
  assumes "platform_run C S R as init_platform s"
  shows "db_wf (p_db s) \<and> limits_ok (p_db s) \<and> refs_ok (p_db s) \<and> success_ok (p_db s)
    \<and> (\<forall>fid. contiguous fid (p_db s))"
  using platform_run_ok [OF assms init_platform_ok] by (simp add: platform_ok_def tables_ok_def)

text \<open>
  C11. Accounts are isolated. From any state the platform can reach, as long as no step is made on
  behalf of an account, nothing that belongs to it changes -- neither its functions nor their versions,
  builds and invocations -- whatever the other accounts, their builds and the relays do.
\<close>

theorem platform_tenant_isolation:
  assumes "platform_run C S R as init_platform s" and "platform_run C S R bs s t" and "For v \<notin> set bs"
  shows "private_view v (p_db t) = private_view v (p_db s)"
  using run_private [OF assms(2) platform_run_ok [OF assms(1) init_platform_ok] assms(3)] .

text \<open>
  C12. Revocation is final. Once the owner has revoked a key, the guard refuses it in every state the
  platform can reach from there, and refusing it changes nothing.
\<close>

theorem revocation_permanent:
  assumes "platform_run C S R as init_platform s"
    and "revokeApiKey F now u (key_id k) (p_db s) = (Inr (), db1)" and "k \<in> set (apiKeys (p_db s))"
    and "keyHash k = sha256_hex C raw" and "startsWith ''mc_'' raw"
    and "platform_run C S R bs (with_db db1 s) t"
  shows "\<exists>e. AuthGuard C F' now' (Some (''Bearer '' @ raw)) (p_db t) = (Inl e, p_db t)"
proof -
  have step: "platform_step C S R Nobody s (with_db db1 s)"
    using platform_step.Revoke_key [of C S R s F now u "key_id k"] assms(2) by simp
  have "db_wf (p_db t)"
    using platform_run_ok [OF assms(6) platform_step_ok [OF step platform_run_ok [OF assms(1) init_platform_ok]]]
    by (simp add: platform_ok_def tables_ok_def)
  moreover have "k\<lparr>revokedAt := Some now\<rparr> \<in> set (apiKeys db1)"
    using revokeApiKey_Inr [OF assms(2)] in_update_where_this [of k "apiKeys (p_db s)" "\<lambda>x. key_id x = key_id k"] assms(3)
    by simp
  then obtain k' where "k' \<in> set (apiKeys (p_db t))" "keyHash k' = keyHash k" "revokedAt k' \<noteq> None"
    using run_keys_kept [OF assms(6)] unfolding keys_kept_def with_db_def by fastforce
  ultimately show ?thesis using revoked_refused assms(4,5) by metis
qed

text \<open>
  C13. Running a build is a run of the platform: whatever happens between the moment the version number
  is chosen and the moment the outcome is written, the database \<open>runBuild\<close> leaves is one the step
  relation reaches.
\<close>

theorem runBuild_refines_platform:
  assumes ok: "platform_ok s" and b: "b \<in> set (builds (p_db s))"
    and run: "platform_run C S R bs (started b s) t" and "meanwhile (p_db s) = p_db t" and "verId \<notin> p_ids t"
  shows "\<exists>cs t'. platform_run C S R cs s t'
    \<and> p_db t' = snd (runBuild F msg exec meanwhile verId now b (p_db s))"
proof -
  have start: "platform_run C S R [Nobody] s (started b s)"
    using platform_run_one [OF platform_step.Start_build [OF b, of C S R]] by (simp add: started_def)
  note all = platform_run_trans [OF run start]
  have fail: "\<exists>cs t'. platform_run C S R cs s t' \<and> p_db t' = snd (mark_failed F now (build_id b) m (p_db x))"
    if "platform_run C S R ds s x" for ds x m
    using mark_failed_run [OF platform_run_ok [OF that ok], of C S R F now "build_id b" m]
      platform_run_trans [OF _ that] by blast
  obtain r db' where r: "runBuild F msg exec meanwhile verId now b (p_db s) = (r, db')" by fastforce
  then show ?thesis
  proof (cases rule: runBuild_cases)
    case (committed fn ref)
    let ?n = "nextVersionNumber (build_functionId b) (p_db s)"
    have "(b, ?n) \<in> p_runs t" using run_remembers [OF run] by (auto simp: started_def)
    moreover obtain f where "f \<in> set (funcs (p_db t))" "fn_id f = build_functionId b"
      using committed(3) assms(4) by (auto simp: commit_version_def version_create_def split: sum.splits if_splits)
    ultimately have "platform_step C S R (For (fn_userId f)) t (generated verId db' t)"
      using platform_step.Commit_build [of b ?n t verId f now ref db' C S R] committed(3) assms(4,5) by simp
    from platform_run.more [OF all this] r show ?thesis by (intro exI conjI) (auto simp: generated_def)
  next
    case (failed m d)
    then have "db' \<in> {snd (mark_failed F now (build_id b) m (p_db s)), snd (mark_failed F now (build_id b) m (p_db t))}"
      using assms(4) by (metis insertE insertI1 insertI2 singletonD snd_conv)
    then show ?thesis using fail [OF platform_run.none, of m] fail [OF all, of m] r by auto
  qed
qed

section \<open>Witnesses\<close>

text \<open>An account is registered; it makes a key, or a function.\<close>

definition demo_joined :: platform where
  "demo_joined = generated ''u1'' demo_user_db init_platform"

definition demo_keyed :: platform where
  "demo_keyed = generated ''k1'' demo_key_db demo_joined"

definition demo_fdto :: register_function_dto where
  "demo_fdto = \<lparr>rf_name = ''g'', rf_memoryMb = None, rf_timeoutMs = None\<rparr>"

definition demo_deployed :: platform where
  "demo_deployed = generated ''f1'' (snd (register_function no_faults ''f1'' 1 ''u1'' demo_fdto demo_user_db)) demo_joined"

lemma demo_joined_run: "platform_run demo_crypto mem_s3 mem_redis [Nobody] init_platform demo_joined"
proof (rule platform_run_one)
  have "platform_step demo_crypto mem_s3 mem_redis Nobody init_platform
      (generated ''u1'' (snd (register_user demo_crypto no_faults ''salt'' ''u1'' 0
         \<lparr>reg_email = ''a@b.c'', reg_password = ''password1''\<rparr> (p_db init_platform))) init_platform)"
    by (rule platform_step.Register_user) (simp add: init_platform_def)
  moreover have "p_db init_platform = empty_db" by (simp add: init_platform_def)
  ultimately show "platform_step demo_crypto mem_s3 mem_redis Nobody init_platform demo_joined"
    by (simp only: demo_register demo_joined_def snd_conv)
qed

lemma demo_joined_db: "p_db demo_joined = demo_user_db" and demo_keyed_db: "p_db demo_keyed = demo_key_db"
  and demo_joined_ids: "p_ids demo_joined = {''u1''}"
  by (simp_all add: demo_joined_def demo_keyed_def generated_def init_platform_def)

lemma demo_keyed_run: "platform_run demo_crypto mem_s3 mem_redis [Nobody, Nobody] init_platform demo_keyed"
proof -
  have "platform_step demo_crypto mem_s3 mem_redis Nobody demo_joined
      (generated ''k1'' (snd (createApiKey demo_crypto no_faults ''00'' ''k1'' 1 ''u1''
         \<lparr>ck_name = ''ci'', ck_scopes = [''functions:read'']\<rparr> (p_db demo_joined))) demo_joined)"
    by (rule platform_step.Create_key) (simp add: demo_joined_ids)
  then have "platform_step demo_crypto mem_s3 mem_redis Nobody demo_joined demo_keyed"
    by (simp only: demo_joined_db demo_createApiKey demo_keyed_def snd_conv)
  from platform_run.more [OF demo_joined_run this] show ?thesis by simp
qed

lemma demo_deployed_run: "platform_run demo_crypto mem_s3 mem_redis [For ''u1''] demo_joined demo_deployed"
proof (rule platform_run_one)
  have dto: "RegisterFunctionDto (\<lambda>_. None) (JObj [(''name'', JStr ''g'')]) = Inr demo_fdto"
    by (simp add: RegisterFunctionDto_def demo_fdto_def member_def optional_int_def name_pattern_def name_char_def)
  have new: "''f1'' \<notin> p_ids demo_joined" by (simp add: demo_joined_ids)
  show "platform_step demo_crypto mem_s3 mem_redis (For ''u1'') demo_joined demo_deployed"
    using platform_step.Register_function [OF new dto, of demo_crypto mem_s3 mem_redis "''u1''" no_faults 1]
    by (simp only: demo_deployed_def demo_joined_db)
qed

text \<open>Witness of C10: an account with a function.\<close>

theorem platform_invariant_witness:
  "db_wf (p_db demo_deployed) \<and> limits_ok (p_db demo_deployed) \<and> funcs (p_db demo_deployed) \<noteq> []"
proof -
  have "funcs (p_db demo_deployed) \<noteq> []"
    by (simp add: demo_deployed_def generated_def register_function_def function_create_def demo_defs demo_fdto_def Let_def)
  then show ?thesis
    using platform_invariant [OF platform_run_trans [OF demo_deployed_run demo_joined_run]] by simp
qed

text \<open>Witness of C11: the first account registers a function; the second sees nothing of it.\<close>

theorem platform_tenant_isolation_witness:
  "private_view ''u2'' (p_db demo_deployed) = private_view ''u2'' demo_user_db \<and> p_db demo_deployed \<noteq> demo_user_db"
proof -
  have "funcs (p_db demo_deployed) \<noteq> funcs demo_user_db"
    by (simp add: demo_deployed_def generated_def register_function_def function_create_def demo_defs demo_fdto_def Let_def)
  then show ?thesis
    using platform_tenant_isolation [OF demo_joined_run demo_deployed_run, of "''u2''"] by (auto simp: demo_joined_db)
qed

text \<open>Witness of C12: the key \<open>mc_00\<close>, right after its revocation.\<close>

theorem revocation_permanent_witness:
  "\<exists>e. AuthGuard demo_crypto no_faults 9 (Some (''Bearer '' @ ''mc_00''))
     (snd (revokeApiKey no_faults 7 ''u1'' ''k1'' demo_key_db)) =
     (Inl e, snd (revokeApiKey no_faults 7 ''u1'' ''k1'' demo_key_db))"
proof -
  let ?db = "snd (revokeApiKey no_faults 7 ''u1'' ''k1'' demo_key_db)"
  have "revokeApiKey no_faults 7 ''u1'' (key_id demo_key) (p_db demo_keyed) = (Inr (), ?db)"
    "demo_key \<in> set (apiKeys (p_db demo_keyed))" "keyHash demo_key = sha256_hex demo_crypto ''mc_00''" "startsWith ''mc_'' ''mc_00''"
    by (simp_all add: demo_keyed_db revokeApiKey_def apiKey_update_def demo_defs startsWith_def)
  from revocation_permanent [OF demo_keyed_run this platform_run.none, of no_faults 9] show ?thesis
    by (simp add: with_db_def)
qed

definition demo_building :: platform where
  "demo_building = \<lparr>p_db = demo_builds, p_ids = live_ids demo_builds, p_found = {}, p_latest = {}, p_runs = {}\<rparr>"

lemma demo_building_ok: "platform_ok demo_building"
proof -
  have "functionVersions demo_builds = []" by (simp add: demo_builds_defs)
  then have "numbers fid demo_builds = {1..0}" for fid by (simp add: numbers_def)
  then have "contiguous fid demo_builds" for fid unfolding contiguous_def by blast
  moreover have "limits_ok demo_builds" "refs_ok demo_builds" "success_ok demo_builds"
    by (simp_all add: table_defs demo_builds_defs name_pattern_def name_char_def)
  ultimately show ?thesis using demo_builds_wf by (simp add: platform_ok_def demo_building_def tables_ok_def)
qed

text \<open>Witness of C13: the first build of the first account.\<close>

theorem runBuild_refines_platform_witness:
  "\<exists>cs t'. platform_run demo_crypto mem_s3 mem_redis cs demo_building t'
     \<and> p_db t' = snd (runBuild no_faults (\<lambda>_. []) demo_exec (\<lambda>d. d) ''v1'' 9 demo_b1 demo_builds)"
proof -
  have "demo_b1 \<in> set (builds (p_db demo_building))" using demo_b1_in(1) by (simp add: demo_building_def)
  moreover have "''v1'' \<notin> p_ids (started demo_b1 demo_building)"
    by (simp add: started_def demo_building_def live_ids_def demo_builds_defs)
  ultimately show ?thesis
    using runBuild_refines_platform [OF demo_building_ok _ platform_run.none, where meanwhile = "\<lambda>d. d"]
    by (auto simp: started_def demo_building_def)
qed

end
