(* ===== verification/Observability.thy ===== *)
theory Observability
  imports Worker Auth
begin

text \<open>
  What can be seen of a running platform: the gauges a Prometheus scrape of the API computes
  (\<open>src/metrics/metrics.controller.ts\<close> over \<open>metrics.service.ts\<close>), the plain HTTP listener of the worker
  (\<open>src/metrics/metrics-http-server.ts\<close>, \<open>src/worker/worker-metrics-server.service.ts\<close>), the list of
  workers (\<open>src/workers/workers.controller.ts\<close>) and the liveness probe
  (\<open>src/health/health.controller.ts\<close>). The text format of \<open>prom-client\<close> is a parameter.
\<close>

section \<open>The registry of metrics (metrics.service.ts)\<close>

text \<open>
  The value of every metric of a process; a histogram is given by the values observed. The worker
  updates the first three (\<open>count_outcome\<close> and \<open>in_flight\<close> of the theory \<open>Worker\<close>), the API the last two.
\<close>

record metrics =
  invocationsTotal :: "json option \<Rightarrow> nat"
  invocationDurationMs :: "json option list"
  workerInFlight :: int
  invocationQueueDepth :: int
  healthyWorkers :: int

definition init_metrics :: metrics where
  "init_metrics = \<lparr>invocationsTotal = (\<lambda>_. 0), invocationDurationMs = [], workerInFlight = 0,
     invocationQueueDepth = 0, healthyWorkers = 0\<rparr>"

definition metrics_of_worker :: "worker \<Rightarrow> metrics" where
  "metrics_of_worker w = init_metrics\<lparr>invocationsTotal := m_total w, invocationDurationMs := m_durations w,
     workerInFlight := m_inFlight w\<rparr>"

section \<open>The scrape of the API (metrics.controller.ts)\<close>

definition getConsumerGroupLag :: "'r redis \<Rightarrow> 'r \<Rightarrow> (string + int) \<times> 'r" where
  "getConsumerGroupLag R s =
     (case xinfo_groups R INVOCATION_STREAM_KEY s of
        (Inl m, s') \<Rightarrow> (Inl m, s')
      | (Inr gs, s') \<Rightarrow>
          (case find (\<lambda>flds. field_after (RStr ''name'') flds = Some (RStr INVOCATION_CONSUMER_GROUP)) gs of
             None \<Rightarrow> (Inr 0, s')
           | Some grp \<Rightarrow>
               (Inr (case field_after (RStr ''lag'') grp of Some (RInt lag) \<Rightarrow> lag | _ \<Rightarrow> 0), s')))"

text \<open>
  Both promises of \<open>Promise.all\<close> are started; the commands reach Redis in this order, and the first
  rejection is the one that counts.
\<close>

definition getMetrics ::
  "'r redis \<Rightarrow> (metrics \<Rightarrow> string) \<Rightarrow> int \<Rightarrow> metrics \<Rightarrow> 'r \<Rightarrow> (js_error + string) \<times> metrics \<times> 'r" where
  "getMetrics R metricsText now mx s =
     (let (lag, s1) = getConsumerGroupLag R s;
          (ws, s2) = listWorkers R now s1
      in case lag of
           Inl m \<Rightarrow> (Inl (RedisError m), mx, s2)
         | Inr queueDepth \<Rightarrow>
             (case ws of
                Inl e \<Rightarrow> (Inl e, mx, s2)
              | Inr workers \<Rightarrow>
                  (let mx' = mx\<lparr>invocationQueueDepth := queueDepth,
                                healthyWorkers := int (length (filter ws_healthy workers))\<rparr>
                   in (Inr (metricsText mx'), mx', s2))))"

section \<open>The listener of the worker (metrics-http-server.ts, worker-metrics-server.service.ts)\<close>

record http_reply =
  reply_status :: nat
  reply_contentType :: "string option"
  reply_body :: string

definition METRICS_CONTENT_TYPE :: string where
  "METRICS_CONTENT_TYPE = ''text/plain; version=0.0.4; charset=utf-8''"

definition metrics_request :: "(metrics \<Rightarrow> string) \<Rightarrow> metrics \<Rightarrow> string \<Rightarrow> http_reply" where
  "metrics_request metricsText mx url =
     (if url = ''/metrics''
      then \<lparr>reply_status = 200, reply_contentType = Some METRICS_CONTENT_TYPE, reply_body = metricsText mx\<rparr>
      else \<lparr>reply_status = 404, reply_contentType = None, reply_body = []\<rparr>)"

text \<open>
  An error of the server, by its code and message, and the warning it is turned into. \<open>listen\<close> throws at
  once for something that is not a port, and otherwise reports errors to the listener.
\<close>

definition metrics_server_error :: "int \<Rightarrow> string \<times> string \<Rightarrow> string" where
  "metrics_server_error port err =
     (if fst err = ''EADDRINUSE''
      then ''[metrics] port '' @ string_of_int port @
           '' already in use - this process will run WITHOUT a scrapable /metrics endpoint. '' @
           ''Running multiple workers on one host needs a unique WORKER_METRICS_PORT per process.''
      else ''[metrics] server error (non-fatal): '' @ snd err)"

datatype metrics_server = BadPort | Serving int | Unserved string

definition startMetricsServer :: "(int \<Rightarrow> (string \<times> string) option) \<Rightarrow> int option \<Rightarrow> metrics_server" where
  "startMetricsServer listen port =
     (case port of
        None \<Rightarrow> BadPort
      | Some p \<Rightarrow>
          if p < 0 \<or> 65535 < p then BadPort
          else (case listen p of None \<Rightarrow> Serving p | Some err \<Rightarrow> Unserved (metrics_server_error p err)))"

text \<open>\<open>Number\<close> of a text in plain decimal notation; \<^term>\<open>None\<close> stands for \<open>NaN\<close>.\<close>

definition WORKER_METRICS_PORT :: "string option \<Rightarrow> int option" where
  "WORKER_METRICS_PORT env =
     (case env of Some v \<Rightarrow> if v = [] then Some 9200 else number_of_string v | None \<Rightarrow> Some 9200)"

definition worker_metrics_init where
  "worker_metrics_init listen env = startMetricsServer listen (WORKER_METRICS_PORT env)"

definition ports_of :: "metrics_server \<Rightarrow> int set" where
  "ports_of server = (case server of Serving p \<Rightarrow> {p} | _ \<Rightarrow> {})"

text \<open>
  The shutdown hook gives the port back; \<^term>\<open>None\<close> if starting threw before the field was set. Closing
  a server that never listened reports an error to the callback, which takes no notice of it.
\<close>

definition worker_metrics_destroy :: "metrics_server option \<Rightarrow> int set \<Rightarrow> int set" where
  "worker_metrics_destroy server ports = (case server of None \<Rightarrow> ports | Some sv \<Rightarrow> ports - ports_of sv)"

text \<open>
  Workers on one host: a worker whose port is taken runs without a listener, and when it stops it does
  not take the port from the worker that has it.
\<close>

lemma metrics_port_returned:
  assumes "\<And>p. p \<in> ports \<Longrightarrow> listen p \<noteq> None"
  shows "worker_metrics_destroy (Some (worker_metrics_init listen env)) (ports \<union> ports_of (worker_metrics_init listen env)) = ports"
proof -
  have "listen p = None" if "p \<in> ports_of (worker_metrics_init listen env)" for p
    using that by (auto simp: worker_metrics_init_def startMetricsServer_def ports_of_def split: option.splits if_splits)
  then have "ports_of (worker_metrics_init listen env) \<inter> ports = {}" using assms by blast
  then show ?thesis by (auto simp: worker_metrics_destroy_def)
qed

section \<open>Routes (workers.controller.ts, health.controller.ts)\<close>

definition workers_list where
  "workers_list C F now header nowDate R db s =
     (case AuthGuard C F now header db of
        (Inl e, db') \<Rightarrow> (Inl (Inl e), db', s)
      | (Inr _, db') \<Rightarrow>
          (case listWorkers R nowDate s of
             (Inl e, s') \<Rightarrow> (Inl (Inr e), db', s')
           | (Inr ws, s') \<Rightarrow> (Inr ws, db', s')))"

definition health_check :: json where
  "health_check = JObj [(''status'', JStr ''ok'')]"

section \<open>Reading the reply of XINFO GROUPS\<close>

lemma group_info_name: "field_after (RStr ''name'') (group_info g x) = Some (RStr g)"
  by (simp add: group_info_def split: prod.split)

lemma group_info_lag:
  assumes "g \<noteq> ''lag''" and "lastId \<noteq> ''lag''" and "entriesRead \<noteq> RStr ''lag''"
  shows "field_after (RStr ''lag'') (group_info g (consumers, pending, lastId, entriesRead, lag)) = Some lag"
  using assms by (auto simp: group_info_def field_after_def js_nth_def)

lemma group_info_inj [simp]: "group_info g x = group_info h y \<longleftrightarrow> g = h \<and> x = y"
  by (cases x; cases y) (auto simp: group_info_def)

text \<open>Redis answers, and knows the lag of the group.\<close>

definition lag_known :: "'r redis \<Rightarrow> 'r \<Rightarrow> bool" where
  "lag_known R s \<longleftrightarrow> (\<exists>gs s' consumers pending lastId entriesRead lag.
     xinfo_groups R INVOCATION_STREAM_KEY s = (Inr gs, s') \<and>
     group_info INVOCATION_CONSUMER_GROUP (consumers, pending, lastId, entriesRead, RInt lag) \<in> set gs)"

text \<open>The depth that is reported: the number of entries no worker has been given, where Redis can tell.\<close>

context redis_groups
begin

lemma getConsumerGroupLag_view: "getConsumerGroupLag R s = (r, s') \<Longrightarrow> view R s' = view R s"
  using xinfo_groups_view [of INVOCATION_STREAM_KEY s]
  by (auto simp: getConsumerGroupLag_def split: prod.splits sum.splits option.splits)

lemma getConsumerGroupLag_depth:
  assumes "getConsumerGroupLag R s = (Inr n, s')"
  shows "n = (if lag_known R s
    then int (length (undelivered INVOCATION_CONSUMER_GROUP (streams (view R s) INVOCATION_STREAM_KEY))) else 0)"
proof -
  let ?named = "\<lambda>flds. field_after (RStr ''name'') flds = Some (RStr INVOCATION_CONSUMER_GROUP)"
  obtain gs where gs: "xinfo_groups R INVOCATION_STREAM_KEY s = (Inr gs, s')"
    using assms by (auto simp: getConsumerGroupLag_def split: prod.splits sum.splits option.splits)
  obtain infos where infos: "gs = map (\<lambda>(g, x). group_info g x) infos" "distinct (map fst infos)"
    and lags: "\<forall>(g, consumers, pending, lastId, entriesRead, lag) \<in> set infos. entriesRead \<noteq> RStr ''lag'' \<and> lastId \<noteq> ''lag'' \<and>
           lag \<in> {RNil, RInt (int (length (undelivered g (streams (view R s) INVOCATION_STREAM_KEY))))}"
    using xinfo_groups_Inr [OF gs] by blast
  have in_gs: "group_info g x \<in> set gs \<longleftrightarrow> (g, x) \<in> set infos" for g x
    by (auto simp: infos(1))
  have known: "lag_known R s \<longleftrightarrow> (\<exists>c p l e lag. (INVOCATION_CONSUMER_GROUP, c, p, l, e, RInt lag) \<in> set infos)"
    by (auto simp: lag_known_def gs in_gs)
  show ?thesis
  proof (cases "find ?named gs")
    case None
    then have "\<not> ?named (group_info g x)" if "(g, x) \<in> set infos" for g x
      using that in_gs by (auto simp: find_None_iff)
    then have "\<not> lag_known R s" unfolding known group_info_name by blast
    then show ?thesis using assms gs None by (simp add: getConsumerGroupLag_def)
  next
    case (Some flds)
    then have "flds \<in> set gs" "?named flds" by (auto simp: find_Some_iff)
    then obtain g c p l e lag where flds: "flds = group_info g (c, p, l, e, lag)" "(g, c, p, l, e, lag) \<in> set infos"
      by (force simp: infos)
    then have g: "g = INVOCATION_CONSUMER_GROUP" using \<open>?named flds\<close> by (simp add: group_info_name)
    have ok: "l \<noteq> ''lag''" "e \<noteq> RStr ''lag''"
      and lag: "lag \<in> {RNil, RInt (int (length (undelivered g (streams (view R s) INVOCATION_STREAM_KEY))))}"
      using lags flds(2) by auto
    have "field_after (RStr ''lag'') flds = Some lag"
      unfolding flds(1) g using ok by (intro group_info_lag) (simp_all add: INVOCATION_CONSUMER_GROUP_def)
    then have n: "n = (case lag of RInt i \<Rightarrow> i | _ \<Rightarrow> 0)"
      using assms gs Some by (auto simp: getConsumerGroupLag_def split: reply_value.splits)
    have uniq: "x = (c, p, l, e, lag)" if "(INVOCATION_CONSUMER_GROUP, x) \<in> set infos" for x
      using eq_key_imp_eq_value [OF infos(2) that] flds(2) g by blast
    have "lag_known R s \<longleftrightarrow> lag \<noteq> RNil"
    proof
      assume "lag_known R s"
      then obtain c' p' l' e' i where "(INVOCATION_CONSUMER_GROUP, c', p', l', e', RInt i) \<in> set infos" unfolding known by blast
      from uniq [OF this] show "lag \<noteq> RNil" by blast
    next
      assume "lag \<noteq> RNil"
      then show "lag_known R s" unfolding known using lag flds(2) g by blast
    qed
    with n lag g show ?thesis by auto
  qed
qed

end

context redis_hash
begin

lemma healthy_count:
  assumes "registry_ok R s" and "listWorkers R now s = (Inr ws, s')"
  shows "length (filter ws_healthy ws) = card {w. \<exists>hb. registry R s w = Some hb \<and> now - hb_lastHeartbeatAt hb \<le> 10000}"
proof -
  let ?fresh = "\<lambda>w. now - hb_lastHeartbeatAt (the (registry R s w)) \<le> 10000"
  obtain raw where raw: "hgetall R REGISTRY_KEY s = (Inr raw, s')"
    using assms(2) by (auto simp: listWorkers_def split: prod.splits sum.splits)
  note reg = listWorkers_reg [OF assms(1) raw]
  have ws: "ws = map (\<lambda>x. status_of now (the (registry R s (fst x)))) raw"
    using assms(2) reg(1) [of now] by simp
  have "length (filter ws_healthy ws) = length (filter ?fresh (map fst raw))"
    by (simp add: ws filter_map comp_def status_of_def STALE_AFTER_MS_def)
  also have "\<dots> = card {w \<in> fst ` set raw. ?fresh w}"
    using hgetall_Inr [OF raw] distinct_card [of "filter ?fresh (map fst raw)"] by simp
  also have "{w \<in> fst ` set raw. ?fresh w} = {w. \<exists>hb. registry R s w = Some hb \<and> now - hb_lastHeartbeatAt hb \<le> 10000}"
    unfolding reg(2) by force
  finally show ?thesis .
qed

end

section \<open>Properties\<close>

text \<open>
  A scrape reports the system as it is: if it succeeds, the text is rendered from gauges of which
  the number of healthy workers is exactly the number of registered workers whose last heartbeat is at
  most ten seconds old, and the queue depth is the number of jobs that no worker has been given yet
  (0 where Redis has no such group or cannot tell); nothing else of the metrics changes, and
  nothing in Redis. A scrape that fails leaves the gauges as they were.
\<close>

theorem getMetrics_reports_system:
  assumes "redis_service R" and "registry_ok R s" and "getMetrics R metricsText now mx s = (r, mx', s')"
  shows "view R s' = view R s \<and>
    (case r of
       Inl e \<Rightarrow> mx' = mx
     | Inr body \<Rightarrow> body = metricsText mx' \<and>
         mx' = mx\<lparr>
           invocationQueueDepth := (if lag_known R s
             then int (length (undelivered INVOCATION_CONSUMER_GROUP (streams (view R s) INVOCATION_STREAM_KEY))) else 0),
           healthyWorkers := int (card {w. \<exists>hb. registry R s w = Some hb \<and> now - hb_lastHeartbeatAt hb \<le> 10000})\<rparr>)"
proof -
  have hash: "redis_hash R" and grps: "redis_groups R" using assms(1) by (auto simp: redis_service_def)
  obtain lag s1 where l: "getConsumerGroupLag R s = (lag, s1)" by fastforce
  obtain ws s2 where w: "listWorkers R now s1 = (ws, s2)" by fastforce
  have v: "view R s1 = view R s" using redis_groups.getConsumerGroupLag_view [OF grps l] .
  then have reg: "registry_ok R s1" "registry R s1 = registry R s" using assms(2) by (auto simp: registry_ok_def registry_def)
  have "view R s2 = view R s" using redis_hash.listWorkers_view [OF hash w] v by simp
  moreover have "lag = Inr n \<Longrightarrow> n = (if lag_known R s
      then int (length (undelivered INVOCATION_CONSUMER_GROUP (streams (view R s) INVOCATION_STREAM_KEY))) else 0)" for n
    using redis_groups.getConsumerGroupLag_depth [OF grps] l by blast
  moreover have "ws = Inr xs \<Longrightarrow> length (filter ws_healthy xs) =
      card {w. \<exists>hb. registry R s w = Some hb \<and> now - hb_lastHeartbeatAt hb \<le> 10000}" for xs
    using redis_hash.healthy_count [OF hash reg(1)] reg(2) w by auto
  ultimately show ?thesis
    using assms(3) l w by (cases lag; cases ws) (auto simp: getMetrics_def Let_def)
qed

text \<open>
  The fleet is shown to authenticated callers only, and as it is registered: a request the guard
  refuses does not reach the registry; every other one gets exactly the registered workers, each
  with its last heartbeat and whether that is at most ten seconds old, whoever asks.
\<close>

theorem workers_list_shows_fleet:
  assumes "redis_hash R" and "registry_ok R s" and "workers_list C F now header nowDate R db s = (r, db', s')"
  shows "db' = snd (AuthGuard C F now header db) \<and> view R s' = view R s \<and>
    (case fst (AuthGuard C F now header db) of
       Inl e \<Rightarrow> r = Inl (Inl e) \<and> s' = s
     | Inr p \<Rightarrow> (case r of Inl e \<Rightarrow> \<not> isl e | Inr ws \<Rightarrow> set ws = status_of nowDate ` ran (registry R s)))"
proof -
  obtain a db1 where g: "AuthGuard C F now header db = (a, db1)" by fastforce
  obtain ws s1 where w: "listWorkers R nowDate s = (ws, s1)" by fastforce
  have "ws = Inr xs \<Longrightarrow> set xs = status_of nowDate ` ran (registry R s)" for xs
    using redis_hash.registered_workers [OF assms(1,2)] w by blast
  then show ?thesis
    using assms(3) g w redis_hash.listWorkers_view [OF assms(1) w]
    by (auto simp: workers_list_def split: sum.splits)
qed

section \<open>Witnesses\<close>

text \<open>A job of which no worker knows yet, with two workers, one of them silent for a minute.\<close>

definition demo_beat :: "string \<Rightarrow> int \<Rightarrow> worker_heartbeat" where
  "demo_beat w t = \<lparr>hb_workerId = w, hb_capacity = 1, hb_inFlight = 0, hb_lastHeartbeatAt = t\<rparr>"

definition demo_beats :: mem where
  "demo_beats = snd (heartbeat mem_redis (demo_beat ''w1'' 60000) (snd (heartbeat mem_redis (demo_beat ''w2'' 0) empty_mem)))"

definition demo_observed :: mem where
  "demo_observed = snd (mem_xadd INVOCATION_STREAM_KEY (job_fields ''c1'' demo_job)
     (snd (mem_xgroup INVOCATION_STREAM_KEY INVOCATION_CONSUMER_GROUP demo_beats)))"

lemma demo_beats_registry:
  "registry_ok mem_redis demo_beats"
  "registry mem_redis demo_beats = [''w2'' \<mapsto> demo_beat ''w2'' 0, ''w1'' \<mapsto> demo_beat ''w1'' 60000]"
proof -
  let ?s = "snd (heartbeat mem_redis (demo_beat ''w2'' 0) empty_mem)"
  have b: "heartbeat mem_redis hb s = (Inr (), snd (heartbeat mem_redis hb s))" for hb s
    by (simp add: heartbeat_def mem_redis_def)
  have e: "registry_ok mem_redis empty_mem" "registry mem_redis empty_mem = Map.empty"
    by (auto simp: registry_ok_def registry_def mem_redis_def mem_view_def empty_mem_def)
  show "registry_ok mem_redis demo_beats"
    unfolding demo_beats_def using memr.heartbeat_ok [OF memr.heartbeat_ok [OF e(1) b] b] .
  show "registry mem_redis demo_beats = [''w2'' \<mapsto> demo_beat ''w2'' 0, ''w1'' \<mapsto> demo_beat ''w1'' 60000]"
    unfolding demo_beats_def memr.heartbeat_reg [OF b] e(2) by (simp add: demo_beat_def)
qed

lemma demo_observed_view:
  "hashes (view mem_redis demo_observed) = hashes (view mem_redis demo_beats)"
  "xinfo_groups mem_redis INVOCATION_STREAM_KEY demo_observed =
     (Inr [group_info INVOCATION_CONSUMER_GROUP (0, 0, ''0'', RNil, RInt 1)], demo_observed)"
  "length (undelivered INVOCATION_CONSUMER_GROUP (streams (view mem_redis demo_observed) INVOCATION_STREAM_KEY)) = 1"
  by (simp_all add: demo_observed_def demo_beats_def heartbeat_def mem_redis_def mem_xadd_def mem_xgroup_def mem_xinfo_def
      mem_stream_def mem_view_def Let_def empty_mem_def append_entry_def start_group_def empty_stream_def undelivered_def
      del: stringify.simps)

lemma demo_observed_registry:
  "registry_ok mem_redis demo_observed" "registry mem_redis demo_observed = registry mem_redis demo_beats"
  using demo_beats_registry(1) by (auto simp: registry_ok_def registry_def demo_observed_view)

text \<open>Witness of \<open>getMetrics_reports_system\<close>: a scrape at second 60.\<close>

theorem getMetrics_reports_system_witness:
  "\<exists>s'. getMetrics mem_redis (\<lambda>_. ''text'') 60000 init_metrics demo_observed =
     (Inr ''text'', init_metrics\<lparr>invocationQueueDepth := 1, healthyWorkers := 1\<rparr>, s')"
proof -
  obtain r mx s' where m: "getMetrics mem_redis (\<lambda>_. ''text'') 60000 init_metrics demo_observed = (r, mx, s')"
    by (metis prod_cases3)
  have "{w. \<exists>hb. registry mem_redis demo_observed w = Some hb \<and> 60000 - hb_lastHeartbeatAt hb \<le> 10000} = {''w1''}"
    by (auto simp: demo_observed_registry(2) demo_beats_registry(2) demo_beat_def split: if_splits)
  moreover have "lag_known mem_redis demo_observed"
    unfolding lag_known_def demo_observed_view(2) by fastforce
  moreover obtain body where "r = Inr body"
  proof -
    obtain raw where "hgetall mem_redis REGISTRY_KEY demo_observed = (Inr raw, demo_observed)" by (auto simp: mem_redis_def)
    from memr.listWorkers_reg(1) [OF demo_observed_registry(1) this] m that show thesis
      by (auto simp: getMetrics_def getConsumerGroupLag_def demo_observed_view Let_def split: option.splits)
  qed
  ultimately show ?thesis
    using getMetrics_reports_system [OF memr.redis_service_axioms demo_observed_registry(1) m] m demo_observed_view(3) by simp
qed

text \<open>Witness of \<open>workers_list_shows_fleet\<close>: with an API key the fleet is shown, without credentials it is not.\<close>

theorem workers_list_shows_fleet_witness:
  "(\<exists>ws db' s'. workers_list demo_crypto no_faults 9 (Some (''Bearer '' @ ''mc_00'')) 60000 mem_redis demo_key_db demo_observed =
       (Inr ws, db', s') \<and> set ws = {status_of 60000 (demo_beat ''w1'' 60000), status_of 60000 (demo_beat ''w2'' 0)})
   \<and> (\<exists>e db' s'. workers_list demo_crypto no_faults 9 None 60000 mem_redis demo_key_db demo_observed = (Inl (Inl e), db', s'))"
proof -
  let ?key = "Some (''Bearer '' @ ''mc_00'')"
  note shown = workers_list_shows_fleet [OF memr.redis_hash_axioms demo_observed_registry(1), where C = demo_crypto and F = no_faults]
  obtain r db' s' where k: "workers_list demo_crypto no_faults 9 ?key 60000 mem_redis demo_key_db demo_observed = (r, db', s')"
    by (metis prod_cases3)
  obtain r2 db2 s2 where n: "workers_list demo_crypto no_faults 9 None 60000 mem_redis demo_key_db demo_observed = (r2, db2, s2)"
    by (metis prod_cases3)
  have guard: "\<exists>p. fst (AuthGuard demo_crypto no_faults 9 ?key demo_key_db) = Inr p"
    by (simp add: AuthGuard_def startsWith_def validateApiKey_def hashApiKey_def apiKey_update_def update_where_def demo_defs)
  obtain raw where "hgetall mem_redis REGISTRY_KEY demo_observed = (Inr raw, demo_observed)" by (auto simp: mem_redis_def)
  from memr.listWorkers_answers [OF demo_observed_registry(1) this]
  obtain ws where l: "listWorkers mem_redis 60000 demo_observed = (Inr ws, demo_observed)" by blast
  from guard obtain p db1 where "AuthGuard demo_crypto no_faults 9 ?key demo_key_db = (Inr p, db1)" by (metis prod.collapse)
  with k l have "r = Inr ws" by (simp add: workers_list_def)
  moreover have "ran (registry mem_redis demo_observed) = {demo_beat ''w1'' 60000, demo_beat ''w2'' 0}"
    unfolding demo_observed_registry(2) demo_beats_registry(2) by (simp add: ran_map_upd)
  ultimately have "set ws = {status_of 60000 (demo_beat ''w1'' 60000), status_of 60000 (demo_beat ''w2'' 0)}"
    using shown [OF k] guard by auto
  moreover have "\<exists>e. r2 = Inl (Inl e)" using shown [OF n] by (auto simp: AuthGuard_def)
  ultimately show ?thesis using k n \<open>r = Inr ws\<close> by auto
qed

end
