(* ===== verification/Api.thy ===== *)
theory Api
  imports Platform Observability
begin

text \<open>
  The HTTP interface of the API process: the controllers that \<open>src/app.module.ts\<close> puts together, behind
  the body parser and the validation pipe of \<open>src/main.ts\<close>, as one function from a request and the
  state to a response and the state. The order in which a request meets them is Nest's: body parser,
  route, guards, file upload, pipes, handler.
\<close>

section \<open>Requests and responses\<close>

datatype http_method = GET | HEAD | POST | DELETE | Other_method

text \<open>A body that is there but is not JSON; bodies are within the parser's limit of 100 kB.\<close>

datatype request_body = No_body | Malformed_body | Json_body json

text \<open>The path is given by its segments; \<open>rq_file\<close> is the uploaded file of the field \<open>source\<close>.\<close>

record request =
  rq_method :: http_method
  rq_path :: "string list"
  rq_authorization :: "string option"
  rq_body :: request_body
  rq_file :: "string option"

datatype payload =
    Error_body http_exception
  | Nothing
  | User_body string
  | Token_body string
  | Created_key_body created_api_key
  | Keys_body "api_key_view list"
  | Function_body func
  | Functions_body "func list"
  | Invocations_body "invocation list"
  | Summary_body metrics_summary
  | Invoke_body js_object
  | Build_accepted_body "string \<times> build_status"
  | Build_body build
  | Versions_body "function_version list"
  | Workers_body "worker_status list"
  | Text_body string
  | Health_body json

record response =
  rs_status :: nat
  rs_functionError :: "string option"
  rs_body :: payload

section \<open>Routes\<close>

datatype route =
    Auth_register
  | Auth_login
  | Create_api_key
  | List_api_keys
  | Revoke_api_key string
  | Register_function_route
  | List_functions
  | Get_function string
  | List_invocations string
  | Function_metrics string
  | Remove_function_route string
  | Invoke string
  | Create_version string
  | Get_build string string
  | List_versions string
  | List_workers
  | Scrape
  | Health

text \<open>Express compares the fixed segments of a route without regard to case; a parameter is any non-empty segment.\<close>

definition lower_char :: "char \<Rightarrow> char" where
  "lower_char c = (let n = of_char c :: nat in if 65 \<le> n \<and> n \<le> 90 then char_of (n + 32) else c)"

definition segment_is :: "string \<Rightarrow> string \<Rightarrow> bool" where
  "segment_is s lit \<longleftrightarrow> map lower_char s = lit"

text \<open>A \<open>HEAD\<close> request is served by the route of \<open>GET\<close>.\<close>

definition is_get :: "http_method \<Rightarrow> bool" where
  "is_get m \<longleftrightarrow> m = GET \<or> m = HEAD"

definition auth_routes :: "http_method \<Rightarrow> string list \<Rightarrow> route option" where
  "auth_routes m path =
     (case path of
        [b] \<Rightarrow>
          if m = POST \<and> segment_is b ''register'' then Some Auth_register
          else if m = POST \<and> segment_is b ''login'' then Some Auth_login
          else if m = POST \<and> segment_is b ''api-keys'' then Some Create_api_key
          else if is_get m \<and> segment_is b ''api-keys'' then Some List_api_keys
          else None
      | [b, c] \<Rightarrow> if m = DELETE \<and> segment_is b ''api-keys'' then Some (Revoke_api_key c) else None
      | _ \<Rightarrow> None)"

definition functions_routes :: "http_method \<Rightarrow> string list \<Rightarrow> route option" where
  "functions_routes m path =
     (case path of
        [] \<Rightarrow> if m = POST then Some Register_function_route else if is_get m then Some List_functions else None
      | [name] \<Rightarrow>
          if is_get m then Some (Get_function name)
          else if m = DELETE then Some (Remove_function_route name) else None
      | [name, c] \<Rightarrow>
          if is_get m \<and> segment_is c ''invocations'' then Some (List_invocations name)
          else if is_get m \<and> segment_is c ''metrics'' then Some (Function_metrics name)
          else if m = POST \<and> segment_is c ''invoke'' then Some (Invoke name)
          else None
      | _ \<Rightarrow> None)"

definition build_routes :: "http_method \<Rightarrow> string list \<Rightarrow> route option" where
  "build_routes m path =
     (case path of
        [name, c] \<Rightarrow>
          if m = POST \<and> segment_is c ''versions'' then Some (Create_version name)
          else if is_get m \<and> segment_is c ''versions'' then Some (List_versions name)
          else None
      | [name, c, buildId] \<Rightarrow>
          if is_get m \<and> segment_is c ''builds'' then Some (Get_build name buildId) else None
      | _ \<Rightarrow> None)"

text \<open>The controllers in the order in which \<open>AppModule\<close> imports their modules; the first route that fits serves.\<close>

definition route_of :: "http_method \<Rightarrow> string list \<Rightarrow> route option" where
  "route_of m path =
     (case path of
        [] \<Rightarrow> None
      | a # rest \<Rightarrow>
          if [] \<in> set path then None
          else if segment_is a ''auth'' then auth_routes m rest
          else if segment_is a ''functions''
          then (case functions_routes m rest of Some r \<Rightarrow> Some r | None \<Rightarrow> build_routes m rest)
          else if segment_is a ''workers'' \<and> rest = [] \<and> is_get m then Some List_workers
          else if segment_is a ''metrics'' \<and> rest = [] \<and> is_get m then Some Scrape
          else if segment_is a ''health'' \<and> rest = [] \<and> is_get m then Some Health
          else None)"

section \<open>Serving a request\<close>

text \<open>
  What a request is given: the libraries and services, which database calls are refused, clocks
  (\<open>e_now\<close> in seconds, as tokens have it, \<open>e_nowMs\<close> and \<open>e_nowDate\<close> in milliseconds), generated values, the answer of
  the dispatch service, and what everyone else does to the database and to Redis while it waits.
\<close>

record ('s, 'r) env =
  e_crypto :: crypto
  e_faults :: faults
  e_isEmail :: "string \<Rightarrow> bool"
  e_fracInt :: "string \<Rightarrow> int option"
  e_s3 :: "'s s3"
  e_cfg :: storage_config
  e_redis :: "'r redis"
  e_metricsText :: "metrics \<Rightarrow> string"
  e_now :: nat
  e_nowMs :: nat
  e_nowDate :: int
  e_salt :: string
  e_newId :: string
  e_randomHex :: string
  e_uuid :: string
  e_ctx :: invoke_ctx
  e_dispatch :: "job \<Rightarrow> string + json"
  e_meanwhile :: "db \<Rightarrow> db"
  e_redis_meanwhile :: "'r \<Rightarrow> 'r"

record ('s, 'r) api_state =
  st_db :: db
  st_objects :: 's
  st_redis :: 'r
  st_metrics :: metrics

definition error_response :: "http_exception \<Rightarrow> response" where
  "error_response e = \<lparr>rs_status = http_status e, rs_functionError = None, rs_body = Error_body e\<rparr>"

definition respond :: "nat \<Rightarrow> ('a \<Rightarrow> payload) \<Rightarrow> http_exception + 'a \<Rightarrow> response" where
  "respond status body r =
     (case r of
        Inl e \<Rightarrow> error_response e
      | Inr x \<Rightarrow> \<lparr>rs_status = status, rs_functionError = None, rs_body = body x\<rparr>)"

definition served :: "nat \<Rightarrow> ('a \<Rightarrow> payload) \<Rightarrow> (http_exception + 'a) \<times> db \<Rightarrow> ('s, 'r) api_state \<Rightarrow> response \<times> ('s, 'r) api_state" where
  "served status body x st = (respond status body (fst x), st\<lparr>st_db := snd x\<rparr>)"

text \<open>Express leaves the empty object where there is no JSON body.\<close>

definition body_or_empty :: "request_body \<Rightarrow> json" where
  "body_or_empty b = (case b of Json_body v \<Rightarrow> v | _ \<Rightarrow> JObj [])"

text \<open>Whether an invocation gets as far as asking the registry for room.\<close>

definition asks_registry :: "('s, 'r) env \<Rightarrow> string option \<Rightarrow> string \<Rightarrow> db \<Rightarrow> bool" where
  "asks_registry E header name db =
     (case AuthGuard (e_crypto E) (e_faults E) (e_now E) header db of
        (Inl _, _) \<Rightarrow> False
      | (Inr user, db') \<Rightarrow>
          ScopesGuard [''functions:invoke''] user = Inr () \<and>
          (case get_function (e_faults E) (principal_userId user) name db' of
             Inl _ \<Rightarrow> False
           | Inr f \<Rightarrow>
               (case db_read (e_faults E) LatestVersionFind (latestVersion (fn_id f) db') of Inr (Some _) \<Rightarrow> True | _ \<Rightarrow> False)))"

fun serve :: "('s, 'r) env \<Rightarrow> request \<Rightarrow> route \<Rightarrow> ('s, 'r) api_state \<Rightarrow> response \<times> ('s, 'r) api_state" where
  "serve E rq Auth_register st =
     served 201 User_body (auth_register (e_crypto E) (e_faults E) (e_isEmail E) (e_salt E) (e_newId E) (e_now E)
       (body_or_empty (rq_body rq)) (st_db st)) st"
| "serve E rq Auth_login st =
     served 200 Token_body (auth_login (e_crypto E) (e_faults E) (e_isEmail E) (e_now E)
       (body_or_empty (rq_body rq)) (st_db st), st_db st) st"
| "serve E rq Create_api_key st =
     served 201 Created_key_body (auth_createApiKey (e_crypto E) (e_faults E) (e_randomHex E) (e_newId E) (e_now E)
       (rq_authorization rq) (body_or_empty (rq_body rq)) (st_db st)) st"
| "serve E rq List_api_keys st =
     served 200 Keys_body (auth_listApiKeys (e_crypto E) (e_faults E) (e_now E) (rq_authorization rq) (st_db st)) st"
| "serve E rq (Revoke_api_key keyId) st =
     served 204 (\<lambda>_. Nothing) (auth_revokeApiKey (e_crypto E) (e_faults E) (e_now E) (rq_authorization rq) keyId (st_db st)) st"
| "serve E rq Register_function_route st =
     served 201 Function_body (functions_register (e_crypto E) (e_faults E) (e_fracInt E) (e_newId E) (e_now E)
       (rq_authorization rq) (body_or_empty (rq_body rq)) (st_db st)) st"
| "serve E rq List_functions st =
     served 200 Functions_body (functions_list (e_crypto E) (e_faults E) (e_now E) (rq_authorization rq) (st_db st)) st"
| "serve E rq (Get_function name) st =
     served 200 Function_body (functions_get (e_crypto E) (e_faults E) (e_now E) (rq_authorization rq) name (st_db st)) st"
| "serve E rq (List_invocations name) st =
     served 200 Invocations_body (functions_listInvocations (e_crypto E) (e_faults E) (e_now E) (rq_authorization rq) name (st_db st)) st"
| "serve E rq (Function_metrics name) st =
     served 200 Summary_body (functions_getMetrics (e_crypto E) (e_faults E) (e_now E) (e_nowMs E) (rq_authorization rq) name (st_db st)) st"
| "serve E rq (Remove_function_route name) st =
     served 204 (\<lambda>_. Nothing) (functions_remove (e_crypto E) (e_faults E) (e_now E) (rq_authorization rq) name (st_db st)) st"
| "serve E rq (Invoke name) st =
     (let (spare, s1) = hasSpareCapacity (e_redis E) (e_nowDate E) (st_redis st);
          (r, db') = functions_invoke (e_crypto E) (e_faults E) spare (e_dispatch E) (e_meanwhile E) (e_ctx E) (e_now E)
            (rq_authorization rq) name (Some (body_or_empty (rq_body rq))) (st_db st)
      in (case r of
            Inl e \<Rightarrow> error_response e
          | Inr resp \<Rightarrow> \<lparr>rs_status = resp_status resp, rs_functionError = resp_functionError resp, rs_body = Invoke_body (resp_body resp)\<rparr>,
          st\<lparr>st_db := db', st_redis := (if asks_registry E (rq_authorization rq) name (st_db st) then e_redis_meanwhile E s1 else st_redis st)\<rparr>))"
| "serve E rq (Create_version name) st =
     (let (r, s', db') = createVersion (e_crypto E) (e_s3 E) (e_cfg E) (e_faults E) (e_uuid E) (e_newId E) (e_now E)
            (rq_authorization rq) name (rq_file rq) (st_objects st, st_db st)
      in (respond 201 Build_accepted_body r, st\<lparr>st_db := db', st_objects := s'\<rparr>))"
| "serve E rq (Get_build name buildId) st =
     served 200 Build_body (builds_getBuild (e_crypto E) (e_faults E) (e_now E) (rq_authorization rq) name buildId (st_db st)) st"
| "serve E rq (List_versions name) st =
     served 200 Versions_body (builds_listVersions (e_crypto E) (e_faults E) (e_now E) (rq_authorization rq) name (st_db st)) st"
| "serve E rq List_workers st =
     (case workers_list (e_crypto E) (e_faults E) (e_now E) (rq_authorization rq) (e_nowDate E) (e_redis E) (st_db st) (st_redis st) of
        (Inl (Inl e), db', s') \<Rightarrow> (error_response e, st\<lparr>st_db := db', st_redis := s'\<rparr>)
      | (Inl (Inr _), db', s') \<Rightarrow> (error_response InternalError, st\<lparr>st_db := db', st_redis := s'\<rparr>)
      | (Inr ws, db', s') \<Rightarrow> (respond 200 Workers_body (Inr ws), st\<lparr>st_db := db', st_redis := s'\<rparr>))"
| "serve E rq Scrape st =
     (case getMetrics (e_redis E) (e_metricsText E) (e_nowDate E) (st_metrics st) (st_redis st) of
        (Inl _, mx, s') \<Rightarrow> (error_response InternalError, st\<lparr>st_metrics := mx, st_redis := s'\<rparr>)
      | (Inr t, mx, s') \<Rightarrow> (respond 200 Text_body (Inr t), st\<lparr>st_metrics := mx, st_redis := s'\<rparr>))"
| "serve E rq Health st = (respond 200 Health_body (Inr health_check), st)"

text \<open>The parser is strict: it takes objects and arrays only. It comes before anything else.\<close>

definition parser_refuses :: "request_body \<Rightarrow> bool" where
  "parser_refuses b =
     (case b of
        No_body \<Rightarrow> False
      | Malformed_body \<Rightarrow> True
      | Json_body v \<Rightarrow> (case v of JObj _ \<Rightarrow> False | JArr _ \<Rightarrow> False | _ \<Rightarrow> True))"

definition api :: "('s, 'r) env \<Rightarrow> request \<Rightarrow> ('s, 'r) api_state \<Rightarrow> response \<times> ('s, 'r) api_state" where
  "api E rq st =
     (if parser_refuses (rq_body rq) then (error_response (BadRequest ''Malformed JSON''), st)
      else case route_of (rq_method rq) (rq_path rq) of
             None \<Rightarrow> (error_response (NotFound ''Cannot serve this path''), st)
           | Some r \<Rightarrow> serve E rq r st)"

section \<open>Who may call what\<close>

text \<open>
  \<^term>\<open>None\<close> for the public routes, otherwise the scopes of \<open>@RequireScopes\<close> (none on the routes that only
  ask for authentication).
\<close>

fun required :: "route \<Rightarrow> string list option" where
  "required Auth_register = None"
| "required Auth_login = None"
| "required Scrape = None"
| "required Health = None"
| "required Create_api_key = Some []"
| "required List_api_keys = Some []"
| "required (Revoke_api_key keyId) = Some []"
| "required List_workers = Some []"
| "required Register_function_route = Some [''functions:write'']"
| "required (Remove_function_route name) = Some [''functions:write'']"
| "required (Create_version name) = Some [''functions:write'']"
| "required (Invoke name) = Some [''functions:invoke'']"
| "required List_functions = Some [''functions:read'']"
| "required (Get_function name) = Some [''functions:read'']"
| "required (List_invocations name) = Some [''functions:read'']"
| "required (Function_metrics name) = Some [''functions:read'']"
| "required (Get_build name buildId) = Some [''functions:read'']"
| "required (List_versions name) = Some [''functions:read'']"

lemma AuthGuard_refuses:
  assumes "AuthGuard C F now header db = (Inl e, db')"
  shows "db' = db" and "http_status e \<in> {401, 500}"
  using assms
  by (auto simp: AuthGuard_def validateApiKey_def Let_def split: option.splits if_splits sum.splits prod.splits)

lemma ScopesGuard_refuses: "ScopesGuard scopes p = Inl e \<Longrightarrow> http_status e = 403"
  by (auto simp: ScopesGuard_def Let_def split: if_splits)

lemmas guard_defs = guarded_def scoped_def auth_createApiKey_def auth_listApiKeys_def auth_revokeApiKey_def
  functions_register_def functions_list_def functions_get_def functions_listInvocations_def functions_getMetrics_def
  functions_remove_def functions_invoke_def builds_getBuild_def builds_listVersions_def createVersion_def workers_list_def

lemma serve_unauthenticated:
  assumes "required r \<noteq> None" and "AuthGuard (e_crypto E) (e_faults E) (e_now E) (rq_authorization rq) (st_db st) = (Inl e, db')"
  shows "serve E rq r st = (error_response e, st)"
proof -
  have "db' = st_db st" using AuthGuard_refuses(1) [OF assms(2)] .
  with assms show ?thesis
    by (cases r) (simp_all add: guard_defs served_def respond_def asks_registry_def split: prod.split)
qed

lemma serve_unscoped:
  assumes "required r = Some scopes" and "AuthGuard (e_crypto E) (e_faults E) (e_now E) (rq_authorization rq) (st_db st) = (Inr p, db')"
    and "ScopesGuard scopes p = Inl e"
  shows "serve E rq r st = (error_response e, st\<lparr>st_db := db'\<rparr>)"
proof -
  have "scopes \<noteq> []" using assms(3) by (auto simp: ScopesGuard_def)
  with assms show ?thesis
    by (cases r) (auto simp add: guard_defs served_def respond_def asks_registry_def split: prod.split)
qed

section \<open>Requests are runs of the platform\<close>

text \<open>The account on whose behalf a request is served.\<close>

definition callers :: "('s, 'r) env \<Rightarrow> request \<Rightarrow> db \<Rightarrow> actor set" where
  "callers E rq db =
     (case fst (AuthGuard (e_crypto E) (e_faults E) (e_now E) (rq_authorization rq) db) of
        Inl _ \<Rightarrow> {}
      | Inr p \<Rightarrow> {For (principal_userId p)})"

text \<open>A database that some run of the platform leaves, with the actors of its steps and the identifiers it may use.\<close>

definition leads_to :: "crypto \<Rightarrow> 's s3 \<Rightarrow> 'r redis \<Rightarrow> platform \<Rightarrow> actor set \<Rightarrow> string set \<Rightarrow> db \<Rightarrow> bool" where
  "leads_to C S R s A N db \<longleftrightarrow> (\<exists>cs t. platform_run C S R cs s t \<and> set cs \<subseteq> A \<and> p_ids t \<subseteq> p_ids s \<union> N \<and> p_db t = db)"

lemma leads_to_here: "leads_to C S R s A N (p_db s)"
  unfolding leads_to_def by (intro exI [of _ "[]"] exI [of _ s]) (simp add: platform_run.none)

lemma leads_to_step: "platform_step C S R a s t \<Longrightarrow> a \<in> A \<Longrightarrow> p_ids t \<subseteq> p_ids s \<union> N \<Longrightarrow> leads_to C S R s A N (p_db t)"
  unfolding leads_to_def by (intro exI [of _ "[a]"] exI [of _ t]) (simp add: platform_run_one)

lemma leads_to_after:
  assumes "platform_run C S R cs s t" and "set cs \<subseteq> A" and "p_ids t \<subseteq> p_ids s \<union> N" and "leads_to C S R t A N db"
  shows "leads_to C S R s A N db"
proof -
  from assms(4) obtain ds u where u: "platform_run C S R ds t u" "set ds \<subseteq> A" "p_ids u \<subseteq> p_ids t \<union> N" "p_db u = db"
    unfolding leads_to_def by blast
  have "platform_run C S R (cs @ ds) s u" using platform_run_trans [OF u(1) assms(1)] .
  moreover have "set (cs @ ds) \<subseteq> A" "p_ids u \<subseteq> p_ids s \<union> N" using u assms(2,3) by auto
  ultimately show ?thesis using u(4) unfolding leads_to_def by blast
qed

lemma leads_to_mono: "leads_to C S R s A N db \<Longrightarrow> A \<subseteq> A' \<Longrightarrow> N \<subseteq> N' \<Longrightarrow> leads_to C S R s A' N' db"
  unfolding leads_to_def by blast

lemma guarded_leads:
  assumes "\<And>p db1. AuthGuard C F now header (p_db s) = (Inr p, db1) \<Longrightarrow> leads_to C S R (with_db db1 s) A N (snd (h p db1))"
    and "Nobody \<in> A"
  shows "leads_to C S R s A N (snd (guarded C F now header h (p_db s)))"
proof -
  obtain r db1 where g: "AuthGuard C F now header (p_db s) = (r, db1)" by fastforce
  have step: "platform_run C S R [Nobody] s (with_db db1 s)"
    using platform_run_one [OF platform_step.Authenticate [of C S R s F now header]] g by simp
  show ?thesis
  proof (cases r)
    case (Inl e)
    then have "leads_to C S R (with_db db1 s) A N db1" using leads_to_here [of C S R "with_db db1 s"] by (simp add: with_db_def)
    with Inl show ?thesis using leads_to_after [OF step] assms(2) g by (simp add: guarded_def with_db_def)
  next
    case (Inr p)
    then show ?thesis using leads_to_after [OF step _ _ assms(1)] assms(2) g by (simp add: guarded_def with_db_def)
  qed
qed

text \<open>Guards in front of a handler: what is left is the handler, for the principal.\<close>

lemma scoped_leads:
  assumes "\<And>p db1. AuthGuard C F now header (p_db s) = (Inr p, db1) \<Longrightarrow> leads_to C S R (with_db db1 s) A N (snd (h p db1))"
    and "Nobody \<in> A"
  shows "leads_to C S R s A N (snd (scoped C F now header scopes h (p_db s)))"
  unfolding scoped_def
proof (rule guarded_leads [OF _ assms(2)])
  fix p db1
  assume g: "AuthGuard C F now header (p_db s) = (Inr p, db1)"
  have here: "leads_to C S R (with_db db1 s) A N db1" using leads_to_here [of C S R "with_db db1 s"] by (simp add: with_db_def)
  show "leads_to C S R (with_db db1 s) A N (snd (case ScopesGuard scopes p of Inl e \<Rightarrow> (Inl e, db1) | Inr _ \<Rightarrow> h p db1))"
    using here assms(1) [OF g] by (cases "ScopesGuard scopes p") simp_all
qed

lemma leads_to_with_db: "leads_to C S R (with_db db s) A N db"
  using leads_to_here [of C S R "with_db db s"] by (simp add: with_db_def)

lemma leads_generated:
  assumes "platform_step C S R a s (generated i db s)" and "a \<in> A" and "i \<in> N"
  shows "leads_to C S R s A N db"
  using leads_to_step [OF assms(1,2), of N] assms(3) by (auto simp: generated_def)

lemma leads_written:
  assumes "platform_step C S R a s (with_db db s)" and "a \<in> A"
  shows "leads_to C S R s A N db"
  using leads_to_step [OF assms, of N] by (simp add: with_db_def)

text \<open>One lemma per writing operation, from a database \<open>db\<close> that is the state's.\<close>

lemma register_user_leads:
  assumes "newId \<notin> p_ids s" and "p_db s = db" and "Nobody \<in> A" and "newId \<in> N"
  shows "leads_to C S R s A N (snd (register_user C F salt newId now dto db))"
  using leads_generated [OF platform_step.Register_user [OF assms(1)] assms(3,4)] assms(2) by blast

lemma createApiKey_leads:
  assumes "newId \<notin> p_ids s" and "p_db s = db" and "Nobody \<in> A" and "newId \<in> N"
  shows "leads_to C S R s A N (snd (createApiKey C F rnd newId now u dto db))"
  using leads_generated [OF platform_step.Create_key [OF assms(1)] assms(3,4)] assms(2) by blast

lemma revokeApiKey_leads:
  assumes "p_db s = db" and "Nobody \<in> A"
  shows "leads_to C S R s A N (snd (revokeApiKey F now u keyId db))"
  using leads_written [OF platform_step.Revoke_key assms(2)] assms(1) by blast

lemma register_function_leads:
  assumes "newId \<notin> p_ids s" and "RegisterFunctionDto fracInt body = Inr dto" and "p_db s = db" and "For u \<in> A" and "newId \<in> N"
  shows "leads_to C S R s A N (snd (register_function F newId now u dto db))"
  using leads_generated [OF platform_step.Register_function [OF assms(1,2)] assms(4,5)] assms(3) by blast

lemma remove_function_leads:
  assumes "p_db s = db" and "For u \<in> A"
  shows "leads_to C S R s A N (snd (remove_function F u name db))"
  using leads_written [OF platform_step.Remove_function assms(2)] assms(1) by blast

lemma submitBuild_leads:
  assumes "newId \<notin> p_ids s" and "get_function F u name db = Inr f" and "p_db s = db" and "{Nobody, For u} \<subseteq> A" and "newId \<in> N"
  shows "leads_to C S R s A N (snd (snd (submitBuild S cfg F uuid newId now (fn_id f) source (objs, db))))"
proof -
  let ?s = "s\<lparr>p_found := insert f (p_found s)\<rparr>"
  have u: "fn_userId f = u" using get_function_owned [OF assms(2)] by simp
  have "platform_run C S R [Nobody] s ?s"
    by (rule platform_run_one [OF platform_step.Find_function]) (use assms(2,3) in simp)
  moreover have "leads_to C S R ?s A N (snd (snd (submitBuild S cfg F uuid newId now (fn_id f) source (objs, p_db ?s))))"
    by (rule leads_generated [OF platform_step.Submit_build]) (use assms u in auto)
  ultimately show ?thesis using leads_to_after [of C S R "[Nobody]" s ?s A N] assms(3,4) by simp
qed

text \<open>The account's request and what the others do meanwhile, one after the other.\<close>

lemma invoke_leads:
  assumes "\<And>x. p_ids x = p_ids s \<Longrightarrow> p_db x = db \<Longrightarrow> leads_to C S R x A N (meanwhile db)"
    and "p_db s = db" and "{Nobody, For u} \<subseteq> A"
  shows "leads_to C S R s A N (snd (invoke F spare dispatch meanwhile cx u name event db))"
proof (cases "\<exists>f v. get_function F u name db = Inr f \<and> latestVersion (fn_id f) db = Some v")
  case False
  then have "snd (invoke F spare dispatch meanwhile cx u name event db) = db"
    by (auto simp: invoke_def db_read_def split: sum.split option.split)
  then show ?thesis using leads_to_here [of C S R s A N] assms(2) by simp
next
  case True
  then obtain f v where f: "get_function F u name db = Inr f" "latestVersion (fn_id f) db = Some v" by blast
  have u: "fn_userId f = u" using get_function_owned [OF f(1)] by simp
  let ?l = "looked_up f v s" and ?db = "snd (invoke F spare dispatch meanwhile cx u name event db)"
  have look: "platform_run C S R [Nobody, Nobody] s ?l" using looked_up_run f assms(2) by blast
  have l: "p_ids ?l = p_ids s" "p_db ?l = db" using assms(2) by (simp_all add: looked_up_def)
  from assms(1) [OF l] obtain bs t where t: "platform_run C S R bs ?l t" "set bs \<subseteq> A" "p_ids t \<subseteq> p_ids s \<union> N" "p_db t = meanwhile db"
    unfolding leads_to_def l(1) by blast
  have all: "platform_run C S R ([Nobody, Nobody] @ bs) s t" using platform_run_trans [OF t(1) look] .
  have mem: "set ([Nobody, Nobody] @ bs) \<subseteq> A" using t(2) assms(3) by simp
  from invoke_effect [OF f, of spare dispatch meanwhile cx event]
  consider "?db = db" | "?db = meanwhile db" | st d err where "?db = recordInvocation F cx (fn_id f) (ver_id v) st d err (meanwhile db)"
    by auto
  then show ?thesis
  proof cases
    case 1
    then show ?thesis using leads_to_here [of C S R s A N] assms(2) by simp
  next
    case 2
    then show ?thesis using leads_to_after [OF all mem t(3) leads_to_here] t(4) by simp
  next
    case 3
    have "(f, v) \<in> p_latest t" using run_remembers [OF t(1)] by (auto simp: looked_up_def)
    from leads_written [OF platform_step.Record_invocation [OF this], of A C S R N F cx st d err] assms(3) u 3 t(4)
    have "leads_to C S R t A N ?db" by simp
    then show ?thesis by (rule leads_to_after [OF all mem t(3)])
  qed
qed

lemma createVersion_leads:
  assumes "newId \<notin> p_ids s" and "Nobody \<in> A"
    and "\<And>p db1. AuthGuard C F now header (p_db s) = (Inr p, db1) \<Longrightarrow> {Nobody, For (principal_userId p)} \<subseteq> A" and "newId \<in> N"
  shows "leads_to C S R s A N (snd (snd (createVersion C S cfg F uuid newId now header name file (objs, p_db s))))"
proof -
  obtain r db1 where g: "AuthGuard C F now header (p_db s) = (r, db1)" by fastforce
  have step: "platform_run C S R [Nobody] s (with_db db1 s)"
    using platform_run_one [OF platform_step.Authenticate [of C S R s F now header]] g by simp
  have "leads_to C S R (with_db db1 s) A N (snd (snd (createVersion C S cfg F uuid newId now header name file (objs, p_db s))))"
  proof (cases "\<exists>p source f. r = Inr p \<and> ScopesGuard [''functions:write''] p = Inr () \<and> file = Some source
      \<and> get_function F (principal_userId p) name db1 = Inr f")
    case False
    then have "snd (snd (createVersion C S cfg F uuid newId now header name file (objs, p_db s))) = db1"
      using g by (auto simp: createVersion_def split: sum.split option.split)
    then show ?thesis by (simp add: leads_to_with_db)
  next
    case True
    then obtain p source f where p: "r = Inr p" "ScopesGuard [''functions:write''] p = Inr ()" "file = Some source"
      "get_function F (principal_userId p) name db1 = Inr f" by blast
    have "leads_to C S R (with_db db1 s) A N (snd (snd (submitBuild S cfg F uuid newId now (fn_id f) source (objs, db1))))"
      by (rule submitBuild_leads [OF _ p(4)]) (use assms(1,4) assms(3) [of p db1] g p(1) in \<open>simp_all add: with_db_def\<close>)
    then show ?thesis using g p by (auto simp: createVersion_def split: prod.split sum.split)
  qed
  then show ?thesis using leads_to_after [OF step] assms(2) by (simp add: with_db_def)
qed

text \<open>What the others do while the request waits is a run too, with steps of \<open>A\<close> and fresh identifiers of \<open>N\<close>.\<close>

definition others_run :: "('s, 'r) env \<Rightarrow> request \<Rightarrow> platform \<Rightarrow> actor set \<Rightarrow> string set \<Rightarrow> bool" where
  "others_run E rq s A N \<longleftrightarrow>
     (\<forall>x. p_ids x = p_ids s \<and> p_db x = snd (AuthGuard (e_crypto E) (e_faults E) (e_now E) (rq_authorization rq) (p_db s)) \<longrightarrow>
        leads_to (e_crypto E) (e_s3 E) (e_redis E) x A N (e_meanwhile E (p_db x)))"

lemma others_run_mono:
  assumes "others_run E rq s A N" and "A \<subseteq> A'" and "N \<subseteq> N'"
  shows "others_run E rq s A' N'"
  unfolding others_run_def
proof (intro allI impI, elim conjE)
  fix x :: platform
  assume "p_ids x = p_ids s" and "p_db x = snd (AuthGuard (e_crypto E) (e_faults E) (e_now E) (rq_authorization rq) (p_db s))"
  with assms(1) have "leads_to (e_crypto E) (e_s3 E) (e_redis E) x A N (e_meanwhile E (p_db x))" unfolding others_run_def by blast
  then show "leads_to (e_crypto E) (e_s3 E) (e_redis E) x A' N' (e_meanwhile E (p_db x))" by (rule leads_to_mono [OF _ assms(2,3)])
qed

lemma callersI: "AuthGuard (e_crypto E) (e_faults E) (e_now E) (rq_authorization rq) db = (Inr p, db1) \<Longrightarrow> callers E rq db = {For (principal_userId p)}"
  by (simp add: callers_def)

text \<open>The routes that write, behind their guards.\<close>

lemma auth_register_leads:
  assumes "newId \<notin> p_ids s" and "Nobody \<in> A" and "newId \<in> N"
  shows "leads_to C S R s A N (snd (auth_register C F isEmail salt newId now body (p_db s)))"
  using register_user_leads [OF assms(1) HOL.refl assms(2,3)] leads_to_here [of C S R s A N]
  by (auto simp: auth_register_def split: sum.split)

lemma auth_createApiKey_leads:
  assumes "newId \<notin> p_ids s" and "Nobody \<in> A" and "newId \<in> N"
  shows "leads_to C S R s A N (snd (auth_createApiKey C F rnd newId now header body (p_db s)))"
  unfolding auth_createApiKey_def
  by (rule guarded_leads [OF _ assms(2)])
    (use assms in \<open>auto simp: with_db_def split: sum.split intro: leads_to_with_db [unfolded with_db_def] createApiKey_leads\<close>)

lemma auth_revokeApiKey_leads:
  assumes "Nobody \<in> A"
  shows "leads_to C S R s A N (snd (auth_revokeApiKey C F now header keyId (p_db s)))"
  unfolding auth_revokeApiKey_def by (rule guarded_leads [OF revokeApiKey_leads]) (use assms in \<open>simp_all add: with_db_def\<close>)

lemma functions_register_leads:
  assumes "newId \<notin> p_ids s" and "Nobody \<in> A" and "newId \<in> N"
    and "\<And>p db1. AuthGuard C F now header (p_db s) = (Inr p, db1) \<Longrightarrow> For (principal_userId p) \<in> A"
  shows "leads_to C S R s A N (snd (functions_register C F fracInt newId now header body (p_db s)))"
  unfolding functions_register_def
  by (rule scoped_leads [OF _ assms(2)])
    (use assms in \<open>auto simp: with_db_def split: sum.split intro: leads_to_with_db [unfolded with_db_def] register_function_leads\<close>)

lemma functions_remove_leads:
  assumes "Nobody \<in> A" and "\<And>p db1. AuthGuard C F now header (p_db s) = (Inr p, db1) \<Longrightarrow> For (principal_userId p) \<in> A"
  shows "leads_to C S R s A N (snd (functions_remove C F now header name (p_db s)))"
  unfolding functions_remove_def
  by (rule scoped_leads [OF remove_function_leads]) (use assms in \<open>auto simp: with_db_def\<close>)

lemma functions_invoke_leads:
  assumes "\<And>x p db1. AuthGuard C F now header (p_db s) = (Inr p, db1) \<Longrightarrow> p_ids x = p_ids s \<Longrightarrow> p_db x = db1 \<Longrightarrow>
      leads_to C S R x A N (meanwhile db1)"
    and "Nobody \<in> A" and "\<And>p db1. AuthGuard C F now header (p_db s) = (Inr p, db1) \<Longrightarrow> For (principal_userId p) \<in> A"
  shows "leads_to C S R s A N (snd (functions_invoke C F spare dispatch meanwhile cx now header name event (p_db s)))"
  unfolding functions_invoke_def
proof (rule scoped_leads [OF _ assms(2)])
  fix p db1
  assume g: "AuthGuard C F now header (p_db s) = (Inr p, db1)"
  let ?invoked = "invoke F spare dispatch meanwhile cx (principal_userId p) name event db1"
  have "leads_to C S R (with_db db1 s) A N (snd ?invoked)"
    by (rule invoke_leads) (use assms(1) [OF g] assms(2,3) g in \<open>auto simp: with_db_def\<close>)
  then show "leads_to C S R (with_db db1 s) A N (snd (case ?invoked of
      (Inl e, db2) \<Rightarrow> (Inl e, db2) | (Inr outcome, db2) \<Rightarrow> (Inr (invoke_response outcome), db2)))"
    by (auto split: prod.split sum.split)
qed

lemma workers_list_leads:
  assumes "Nobody \<in> A"
  shows "leads_to C S R s A N (fst (snd (workers_list C F now header nowDate R' (p_db s) rs)))"
proof -
  have "leads_to C S R s A N (snd (AuthGuard C F now header (p_db s)))"
    by (rule leads_written [OF platform_step.Authenticate assms])
  then show ?thesis by (auto simp: workers_list_def split: prod.split sum.split)
qed

text \<open>The routes that only read leave what the guard left.\<close>

lemma reads_lead:
  assumes "Nobody \<in> A"
  shows "leads_to C S R s A N (snd (scoped C F now header scopes (\<lambda>user db. (h user db, db)) (p_db s)))"
    and "leads_to C S R s A N (snd (guarded C F now header (\<lambda>user db. (h user db, db)) (p_db s)))"
  by (rule scoped_leads [OF _ assms] guarded_leads [OF _ assms], simp add: leads_to_with_db)+

lemmas route_leads = auth_register_leads auth_createApiKey_leads auth_revokeApiKey_leads functions_register_leads functions_remove_leads
  leads_to_here

lemmas reading_routes = auth_listApiKeys_def functions_list_def functions_get_def functions_listInvocations_def functions_getMetrics_def
  builds_getBuild_def builds_listVersions_def

lemma serve_leads:
  assumes db: "st_db st = p_db s" and new: "e_newId E \<notin> p_ids s" and others: "others_run E rq s A N"
    and A: "Nobody \<in> A" "callers E rq (p_db s) \<subseteq> A" and N: "e_newId E \<in> N"
  shows "leads_to (e_crypto E) (e_s3 E) (e_redis E) s A N (st_db (snd (serve E rq r st)))"
proof -
  have caller: "For (principal_userId p) \<in> A"
    if "AuthGuard (e_crypto E) (e_faults E) (e_now E) (rq_authorization rq) (p_db s) = (Inr p, db1)" for p db1
    using callersI [OF that] A by auto
  show ?thesis
  proof (cases r)
    case (Invoke name)
    have "leads_to (e_crypto E) (e_s3 E) (e_redis E) s A N (snd (functions_invoke (e_crypto E) (e_faults E) spare (e_dispatch E)
        (e_meanwhile E) (e_ctx E) (e_now E) (rq_authorization rq) name event (p_db s)))" for spare event
      by (rule functions_invoke_leads) (use others A(1) caller in \<open>auto simp: others_run_def\<close>)
    with Invoke show ?thesis by (simp add: db Let_def split: prod.split) (metis snd_conv)
  next
    case (Create_version name)
    have "leads_to (e_crypto E) (e_s3 E) (e_redis E) s A N (snd (snd (createVersion (e_crypto E) (e_s3 E) (e_cfg E) (e_faults E)
        (e_uuid E) (e_newId E) (e_now E) (rq_authorization rq) name (rq_file rq) (st_objects st, p_db s))))"
      by (rule createVersion_leads [OF new A(1) _ N]) (use A(1) caller in auto)
    with Create_version show ?thesis by (auto simp: db split: prod.split)
  next
    case List_workers
    have "leads_to (e_crypto E) (e_s3 E) (e_redis E) s A N (fst (snd (workers_list (e_crypto E) (e_faults E) (e_now E)
        (rq_authorization rq) (e_nowDate E) (e_redis E) (p_db s) (st_redis st))))"
      by (rule workers_list_leads [OF A(1)])
    with List_workers show ?thesis by (auto simp: db split: prod.split sum.split)
  next
    case Scrape
    then show ?thesis using leads_to_here [of _ _ _ s A N] by (auto simp: db split: prod.split sum.split)
  qed (use new A(1) N caller in \<open>simp_all add: served_def db route_leads reads_lead reading_routes\<close>)
qed

lemma api_leads:
  assumes "st_db st = p_db s" and "e_newId E \<notin> p_ids s" and "others_run E rq s A N"
    and "Nobody \<in> A" "callers E rq (p_db s) \<subseteq> A" and "e_newId E \<in> N"
  shows "leads_to (e_crypto E) (e_s3 E) (e_redis E) s A N (st_db (snd (api E rq st)))"
  using serve_leads [OF assms] leads_to_here [of _ _ _ s A N] assms(1) by (auto simp: api_def split: option.split)

section \<open>Sessions\<close>

text \<open>Requests one after the other, each with its own clocks and generated values.\<close>

fun api_session :: "(('s, 'r) env \<times> request) list \<Rightarrow> ('s, 'r) api_state \<Rightarrow> response list \<times> ('s, 'r) api_state" where
  "api_session [] st = ([], st)"
| "api_session ((E, rq) # xs) st =
     (let (rsp, st1) = api E rq st; (rsps, st2) = api_session xs st1 in (rsp # rsps, st2))"

definition on_platform :: "crypto \<Rightarrow> 's s3 \<Rightarrow> 'r redis \<Rightarrow> ('s, 'r) env \<Rightarrow> bool" where
  "on_platform C S R E \<longleftrightarrow> e_crypto E = C \<and> e_s3 E = S \<and> e_redis E = R \<and> e_meanwhile E = (\<lambda>db. db)"

lemma quiet_others: "on_platform C S R E \<Longrightarrow> others_run E rq s A N"
  unfolding others_run_def on_platform_def by (metis leads_to_here)

lemma session_leads:
  assumes "\<forall>(E, rq) \<in> set xs. on_platform C S R E" and "distinct (map (\<lambda>x. e_newId (fst x)) xs)"
    and "\<forall>x \<in> set xs. e_newId (fst x) \<notin> p_ids s" and "st_db st = p_db s"
  shows "\<exists>cs t. platform_run C S R cs s t \<and> p_db t = st_db (snd (api_session xs st))"
  using assms
proof (induction xs arbitrary: s st)
  case Nil
  then show ?case by (intro exI [of _ "[]"] exI [of _ s]) (simp add: platform_run.none)
next
  case (Cons x xs)
  obtain E rq where x: "x = (E, rq)" by fastforce
  obtain rsp st1 where st1: "api E rq st = (rsp, st1)" by fastforce
  have E: "on_platform C S R E" using Cons.prems(1) x by simp
  have "leads_to C S R s UNIV {e_newId E} (st_db st1)"
    using api_leads [of st s E rq UNIV "{e_newId E}"] quiet_others [OF E] E Cons.prems(3,4) st1 by (simp add: x on_platform_def)
  then obtain cs t where t: "platform_run C S R cs s t" "p_ids t \<subseteq> insert (e_newId E) (p_ids s)" "p_db t = st_db st1"
    unfolding leads_to_def by auto
  have "\<forall>y \<in> set xs. e_newId (fst y) \<noteq> e_newId E" using Cons.prems(2) x by (auto simp: image_iff)
  then have "\<forall>y \<in> set xs. e_newId (fst y) \<notin> p_ids t" using Cons.prems(3) t(2) by auto
  with Cons.IH [of t st1] Cons.prems(1,2) t(3) obtain ds t' where
    "platform_run C S R ds t t'" "p_db t' = st_db (snd (api_session xs st1))" by auto
  then show ?case using platform_run_trans [OF _ t(1)] st1 x
    by (intro exI [of _ "cs @ ds"] exI [of _ t']) (simp split: prod.split)
qed

section \<open>What an answer depends on\<close>

lemma guard_same_principal:
  "apiKeys db = apiKeys db' \<Longrightarrow> fst (AuthGuard C F now header db) = fst (AuthGuard C F now header db')"
  by (auto simp: AuthGuard_def validateApiKey_def Let_def split: option.split sum.split)

lemma guard_tenant_view: "AuthGuard C F now header db = (r, db1) \<Longrightarrow> tenant_view u db1 = tenant_view u db"
  using ag.guard_frame [of C F now header db r db1] by (simp add: tenant_view_def owned_def owned_ids_def)

lemma list_functions_local: "tenant_view u db = tenant_view u db' \<Longrightarrow> list_functions F u db = list_functions F u db'"
  using tenant_view_owned [of u db db'] by (simp add: list_functions_def owned_def)

lemma listVersions_local:
  assumes "tenant_view u db = tenant_view u db'" and "i \<in> owned_ids u db"
  shows "listVersions F i db = listVersions F i db'"
  using filter_owned(1) [OF assms(2)] filter_owned(1) [of i u db'] assms tenant_view_owned [OF assms(1)]
  by (simp add: listVersions_def)

lemma find_filter_key:
  assumes "distinct (map key xs)" and "q i"
  shows "find (\<lambda>x. key x = b \<and> g x = i) (filter (\<lambda>x. q (g x)) xs) =
    (case find (\<lambda>x. key x = b) xs of Some x \<Rightarrow> if g x = i then Some x else None | None \<Rightarrow> None)"
  using assms(1)
proof (induction xs)
  case (Cons a xs)
  have "find (\<lambda>x. key x = b \<and> g x = i) (filter (\<lambda>x. q (g x)) xs) = None" if "key a = b"
  proof -
    have "\<forall>x \<in> set xs. key x \<noteq> b" using Cons.prems that by (metis distinct.simps(2) image_eqI list.map(2) list.set_map)
    then show ?thesis by (auto simp: find_None_iff)
  qed
  then show ?case using Cons assms(2) by auto
qed simp

lemma getBuild_owned:
  assumes "db_wf db" and "i \<in> owned_ids u db"
  shows "getBuild F i b db = (case db_read F BuildFindUnique (find (\<lambda>x. build_id x = b \<and> build_functionId x = i) (t_builds (tenant_view u db))) of
      Inl _ \<Rightarrow> Inl InternalError
    | Inr None \<Rightarrow> Inl (NotFound (''Build '' @ quoted b @ '' not found''))
    | Inr (Some x) \<Rightarrow> Inr x)"
proof -
  have "distinct (map build_id (builds db))" using assms(1) by (simp add: db_wf_def builds_wf_def)
  from find_filter_key [OF this, of "\<lambda>j. j \<in> owned_ids u db" i b build_functionId] assms(2) show ?thesis by (auto simp: getBuild_def build_find_def tenant_view_def db_read_def split: option.split)
qed

text \<open>The rows an answer may depend on: the keys, and what belongs to the caller.\<close>

definition same_for_caller :: "('s, 'r) env \<Rightarrow> request \<Rightarrow> db \<Rightarrow> db \<Rightarrow> bool" where
  "same_for_caller E rq db db' \<longleftrightarrow>
     apiKeys db = apiKeys db' \<and> (\<forall>u. For u \<in> callers E rq db \<longrightarrow> tenant_view u db = tenant_view u db')"

lemma scoped_local:
  assumes wf: "db_wf db" "db_wf db'" and same: "same_for_caller E rq db db'"
    and h: "\<And>p d d'. tenant_view (principal_userId p) d = tenant_view (principal_userId p) d' \<Longrightarrow> db_wf d \<Longrightarrow> db_wf d' \<Longrightarrow> fst (h p d) = fst (h p d')"
  shows "fst (scoped (e_crypto E) (e_faults E) (e_now E) (rq_authorization rq) scopes h db) =
    fst (scoped (e_crypto E) (e_faults E) (e_now E) (rq_authorization rq) scopes h db')"
proof -
  let ?G = "AuthGuard (e_crypto E) (e_faults E) (e_now E) (rq_authorization rq)"
  obtain r d where g: "?G db = (r, d)" by fastforce
  obtain r' d' where g': "?G db' = (r', d')" by fastforce
  have r: "r' = r" using guard_same_principal [of db db'] same g g' unfolding same_for_caller_def by (metis fst_conv)
  show ?thesis
  proof (cases r)
    case (Inl e)
    then show ?thesis using g g' r by (simp add: scoped_def guarded_def)
  next
    case (Inr p)
    then have "tenant_view (principal_userId p) db = tenant_view (principal_userId p) db'"
      using same g callersI [of E rq db p d] by (simp add: same_for_caller_def)
    moreover have "db_wf d" "db_wf d'" using guard_snd_wf [OF wf(1)] guard_snd_wf [OF wf(2)] g g' by (metis snd_conv)+
    ultimately have "fst (h p d) = fst (h p d')"
      using h guard_tenant_view [OF g] guard_tenant_view [OF g'] by metis
    then show ?thesis using g g' r Inr by (simp add: scoped_def guarded_def split: sum.split)
  qed
qed

lemma named_local:
  assumes "tenant_view u d = tenant_view u d'" and "\<And>f. fn_id f \<in> owned_ids u d \<Longrightarrow> k f d = k f d'"
  shows "(case get_function F u name d of Inl e \<Rightarrow> Inl e | Inr f \<Rightarrow> k f d) = (case get_function F u name d' of Inl e \<Rightarrow> Inl e | Inr f \<Rightarrow> k f d')"
  using get_function_local [OF assms(1), of F name] assms(2) get_function_owned [of F u name d] by (auto split: sum.split)

lemma getBuild_local:
  assumes "tenant_view u d = tenant_view u d'" and "db_wf d" and "db_wf d'" and "i \<in> owned_ids u d"
  shows "getBuild F i b d = getBuild F i b d'"
  using getBuild_owned [OF assms(2,4)] getBuild_owned [OF assms(3), of i u] assms(1,4) tenant_view_owned [OF assms(1)] by simp

lemma invoke_route_local:
  assumes "tenant_view u d = tenant_view u d'"
  shows "fst (case invoke F spare dispatch meanwhile cx u name event d of
      (Inl e, db2) \<Rightarrow> (Inl e, db2) | (Inr outcome, db2) \<Rightarrow> (Inr (invoke_response outcome), db2)) =
    fst (case invoke F spare dispatch meanwhile cx u name event d' of
      (Inl e, db2) \<Rightarrow> (Inl e, db2) | (Inr outcome, db2) \<Rightarrow> (Inr (invoke_response outcome), db2))"
  using invoke_local [OF assms, of F spare dispatch meanwhile cx name event] by (auto split: prod.split sum.split)

lemma reads_local:
  assumes "db_wf db" and "db_wf db'" and "same_for_caller E rq db db'"
  shows "fst (functions_list (e_crypto E) (e_faults E) (e_now E) (rq_authorization rq) db) =
      fst (functions_list (e_crypto E) (e_faults E) (e_now E) (rq_authorization rq) db')"
    and "fst (functions_get (e_crypto E) (e_faults E) (e_now E) (rq_authorization rq) name db) =
      fst (functions_get (e_crypto E) (e_faults E) (e_now E) (rq_authorization rq) name db')"
    and "fst (functions_listInvocations (e_crypto E) (e_faults E) (e_now E) (rq_authorization rq) name db) =
      fst (functions_listInvocations (e_crypto E) (e_faults E) (e_now E) (rq_authorization rq) name db')"
    and "fst (functions_getMetrics (e_crypto E) (e_faults E) (e_now E) nowMs (rq_authorization rq) name db) =
      fst (functions_getMetrics (e_crypto E) (e_faults E) (e_now E) nowMs (rq_authorization rq) name db')"
    and "fst (builds_getBuild (e_crypto E) (e_faults E) (e_now E) (rq_authorization rq) name b db) =
      fst (builds_getBuild (e_crypto E) (e_faults E) (e_now E) (rq_authorization rq) name b db')"
    and "fst (builds_listVersions (e_crypto E) (e_faults E) (e_now E) (rq_authorization rq) name db) =
      fst (builds_listVersions (e_crypto E) (e_faults E) (e_now E) (rq_authorization rq) name db')"
    and "fst (functions_invoke (e_crypto E) (e_faults E) spare dispatch meanwhile cx (e_now E) (rq_authorization rq) name event db) =
      fst (functions_invoke (e_crypto E) (e_faults E) spare dispatch meanwhile cx (e_now E) (rq_authorization rq) name event db')"
  unfolding functions_list_def functions_get_def functions_listInvocations_def functions_getMetrics_def builds_getBuild_def
    builds_listVersions_def functions_invoke_def
  by (rule scoped_local [OF assms], (simp only: fst_conv)?,
      (rule list_functions_local get_function_local listInvocations_local getMetricsSummary_local invoke_route_local named_local,
       assumption, (rule getBuild_local listVersions_local; assumption)?))+

section \<open>Properties\<close>

text \<open>
  C6. Complete mediation. For every route but registration, login, the scrape and the health check:
  without credentials that the guard accepts, the answer is an error (401, or 500 if the database
  cannot be read) and nothing changes anywhere; with credentials that lack a scope of the route, it
  is 403, and nothing changes but what the guard wrote.
\<close>

theorem api_complete_mediation:
  assumes "route_of (rq_method rq) (rq_path rq) = Some r" and "required r = Some scopes" and "\<not> parser_refuses (rq_body rq)"
    and "AuthGuard (e_crypto E) (e_faults E) (e_now E) (rq_authorization rq) (st_db st) = (g, db1)"
  shows "(\<forall>e. g = Inl e \<longrightarrow> rs_status (fst (api E rq st)) \<in> {401, 500} \<and> snd (api E rq st) = st)
    \<and> (\<forall>p. g = Inr p \<and> \<not> set scopes \<subseteq> set (principal_scopes p) \<longrightarrow>
         rs_status (fst (api E rq st)) = 403 \<and> snd (api E rq st) = st\<lparr>st_db := db1\<rparr>)"
proof -
  have api: "api E rq st = serve E rq r st" using assms(1,3) by (simp add: api_def)
  have "rs_status (fst (api E rq st)) \<in> {401, 500} \<and> snd (api E rq st) = st" if "g = Inl e" for e
    using serve_unauthenticated [of r E rq st e db1] AuthGuard_refuses(2) assms(2,4) that unfolding api
    by (auto simp: error_response_def)
  moreover have "rs_status (fst (api E rq st)) = 403 \<and> snd (api E rq st) = st\<lparr>st_db := db1\<rparr>"
    if p: "g = Inr p" "\<not> set scopes \<subseteq> set (principal_scopes p)" for p
  proof -
    from p(2) have "filter (\<lambda>scope. scope \<notin> set (principal_scopes p)) scopes \<noteq> []" by (auto simp: filter_empty_conv)
    then obtain e where e: "ScopesGuard scopes p = Inl e" by (cases "scopes = []") (simp_all add: ScopesGuard_def)
    show ?thesis using serve_unscoped [OF assms(2) _ e, of E rq st db1] ScopesGuard_refuses [OF e] assms(4) p(1) unfolding api
      by (simp add: error_response_def)
  qed
  ultimately show ?thesis by blast
qed


text \<open>
  C8. Every session is a run of the platform: whatever sequence of requests the API serves, starting
  with an empty database, the database it leaves is one the interleaved step relation reaches -- so
  all that is proved of the platform holds behind the HTTP interface.
\<close>

theorem api_session_refines_platform:
  assumes "\<forall>(E, rq) \<in> set xs. on_platform C S R E" and "distinct (map (\<lambda>x. e_newId (fst x)) xs)" and "st_db st = empty_db"
  shows "\<exists>cs t. platform_run C S R cs init_platform t \<and> p_db t = st_db (snd (api_session xs st))
    \<and> tables_ok (st_db (snd (api_session xs st)))"
proof -
  from session_leads [OF assms(1,2), of init_platform st] assms(3) obtain cs t where
    t: "platform_run C S R cs init_platform t" "p_db t = st_db (snd (api_session xs st))" by (auto simp: init_platform_def)
  from platform_run_ok [OF t(1) init_platform_ok] have "tables_ok (p_db t)" by (simp add: platform_ok_def)
  with t show ?thesis by auto
qed

text \<open>
  C9. An answer says nothing of other accounts. For each of the routes that read, and for invoking a
  function: the response -- status, headers and body -- is the same in any two states that agree on the
  API keys, on Redis and on the rows of the caller, whatever the rows of the other accounts are.
\<close>

theorem api_reads_local:
  assumes "route_of (rq_method rq) (rq_path rq) = Some r" and "required r = Some [''functions:read''] \<or> required r = Some [''functions:invoke'']"
    and "db_wf (st_db st)" and "db_wf (st_db st')" and "same_for_caller E rq (st_db st) (st_db st')" and "st_redis st = st_redis st'"
  shows "fst (api E rq st) = fst (api E rq st')"
proof -
  note local = reads_local [OF assms(3-5)]
  have "fst (serve E rq r st) = fst (serve E rq r st')"
  proof (cases r)
    case (Invoke name)
    let ?spare = "fst (hasSpareCapacity (e_redis E) (e_nowDate E) (st_redis st))"
    have "fst (functions_invoke (e_crypto E) (e_faults E) ?spare (e_dispatch E) (e_meanwhile E) (e_ctx E) (e_now E)
        (rq_authorization rq) name (Some (body_or_empty (rq_body rq))) (st_db st)) =
      fst (functions_invoke (e_crypto E) (e_faults E) ?spare (e_dispatch E) (e_meanwhile E) (e_ctx E) (e_now E)
        (rq_authorization rq) name (Some (body_or_empty (rq_body rq))) (st_db st'))"
      by (rule local(7))
    then show ?thesis using Invoke assms(6) by (auto split: prod.split)
  qed (use assms(2) in \<open>simp_all add: served_def local(1-6)\<close>)
  then show ?thesis using assms(1) by (simp add: api_def)
qed

section \<open>Witnesses\<close>

text \<open>Services that always answer, with nothing else going on; \<open>i\<close> is the identifier the database would generate.\<close>

definition demo_api :: "string \<Rightarrow> (string \<Rightarrow> string \<rightharpoonup> string, mem) env" where
  "demo_api i =
     \<lparr>e_crypto = demo_crypto, e_faults = no_faults, e_isEmail = (\<lambda>_. True), e_fracInt = (\<lambda>_. None),
      e_s3 = mem_s3, e_cfg = storage_config None None, e_redis = mem_redis, e_metricsText = (\<lambda>_. []),
      e_now = 9, e_nowMs = 9000, e_nowDate = 9000, e_salt = [], e_newId = i, e_randomHex = ''00'', e_uuid = ''u'',
      e_ctx = demo_cx, e_dispatch = demo_reply, e_meanwhile = (\<lambda>d. d), e_redis_meanwhile = (\<lambda>s. s)\<rparr>"

definition demo_state :: "db \<Rightarrow> (string \<Rightarrow> string \<rightharpoonup> string, mem) api_state" where
  "demo_state db = \<lparr>st_db = db, st_objects = (\<lambda>_ _. None), st_redis = empty_mem, st_metrics = init_metrics\<rparr>"

definition demo_request :: "http_method \<Rightarrow> string list \<Rightarrow> string option \<Rightarrow> json \<Rightarrow> request" where
  "demo_request m path auth body = \<lparr>rq_method = m, rq_path = path, rq_authorization = auth, rq_body = Json_body body, rq_file = None\<rparr>"

lemmas demo_api_defs = demo_api_def demo_state_def demo_request_def parser_refuses_def

lemma demo_routes:
  "route_of GET [''functions''] = Some List_functions" "route_of POST [''functions''] = Some Register_function_route"
  "route_of POST [''auth'', ''register''] = Some Auth_register" "route_of GET [''Health''] = Some Health"
  by (code_simp)+

definition key_header :: "string option" where
  "key_header = Some (''Bearer '' @ ''mc_00'')"

lemma key_guard: "fst (AuthGuard demo_crypto no_faults 9 key_header demo_key_db) = Inr \<lparr>principal_userId = ''u1'', principal_scopes = [''functions:read'']\<rparr>"
  by (simp add: key_header_def AuthGuard_def startsWith_def validateApiKey_def hashApiKey_def apiKey_update_def update_where_def demo_defs)

text \<open>Witness of C6: without a header, and with a key that may only read.\<close>

theorem api_complete_mediation_witness:
  "rs_status (fst (api (demo_api ''f1'') (demo_request GET [''functions''] None (JObj [])) (demo_state demo_key_db))) \<in> {401, 500}
   \<and> snd (api (demo_api ''f1'') (demo_request GET [''functions''] None (JObj [])) (demo_state demo_key_db)) = demo_state demo_key_db
   \<and> rs_status (fst (api (demo_api ''f1'') (demo_request POST [''functions''] key_header (JObj [])) (demo_state demo_key_db))) = 403"
proof -
  let ?get = "demo_request GET [''functions''] None (JObj [])" and ?post = "demo_request POST [''functions''] key_header (JObj [])"
  have refused: "AuthGuard (e_crypto (demo_api ''f1'')) (e_faults (demo_api ''f1'')) (e_now (demo_api ''f1'')) (rq_authorization ?get) (st_db (demo_state demo_key_db)) =
      (Inl (Unauthorized ''Missing or malformed Authorization header''), demo_key_db)"
    by (simp add: AuthGuard_def demo_api_defs)
  obtain db1 where key: "AuthGuard (e_crypto (demo_api ''f1'')) (e_faults (demo_api ''f1'')) (e_now (demo_api ''f1'')) (rq_authorization ?post) (st_db (demo_state demo_key_db)) =
      (Inr \<lparr>principal_userId = ''u1'', principal_scopes = [''functions:read'']\<rparr>, db1)"
    using key_guard by (cases "AuthGuard demo_crypto no_faults 9 key_header demo_key_db") (simp add: demo_api_defs)
  show ?thesis
    using api_complete_mediation [OF _ _ _ refused, of List_functions "[''functions:read'']"]
      api_complete_mediation [OF _ _ _ key, of Register_function_route "[''functions:write'']"] demo_routes
    by (simp add: demo_request_def parser_refuses_def)
qed

definition demo_token :: string where
  "demo_token = demo_sign 7200 5 \<lparr>jwt_sub = ''u1'', jwt_scopes = ALL_SCOPES\<rparr>"

definition token_header :: "string option" where
  "token_header = Some (''Bearer '' @ demo_token)"

lemma demo_token_guard:
  "AuthGuard demo_crypto no_faults 9 token_header db = (Inr \<lparr>principal_userId = ''u1'', principal_scopes = ALL_SCOPES\<rparr>, db)"
proof -
  have "\<not> startsWith ''mc_'' demo_token" by (simp add: demo_token_def demo_sign_def startsWith_def)
  from AuthGuard_jwt [OF this, of demo_crypto no_faults 9 db] show ?thesis
    unfolding token_header_def by (simp add: demo_crypto_def demo_token_def demo_verify_sign)
qed

text \<open>The first account registers a function \<open>g\<close>.\<close>

definition demo_deploy :: request where
  "demo_deploy = demo_request POST [''functions''] token_header (JObj [(''name'', JStr ''g'')])"

lemma demo_deploy_db: "funcs (st_db (snd (api (demo_api ''f1'') demo_deploy (demo_state demo_user_db)))) \<noteq> []"
proof -
  have dto: "RegisterFunctionDto (\<lambda>_. None) (JObj [(''name'', JStr ''g'')]) = Inr demo_fdto"
    by (simp add: RegisterFunctionDto_def demo_fdto_def member_def optional_int_def name_pattern_def name_char_def)
  have "ScopesGuard [''functions:write''] \<lparr>principal_userId = ''u1'', principal_scopes = ALL_SCOPES\<rparr> = Inr ()" by code_simp
  moreover have "funcs (snd (register_function no_faults ''f1'' 9 ''u1'' demo_fdto demo_user_db)) \<noteq> []"
    by (simp add: register_function_def function_create_def demo_defs demo_fdto_def Let_def)
  ultimately show ?thesis
    by (simp add: api_def demo_deploy_def demo_api_defs demo_routes served_def functions_register_def scoped_def guarded_def
        demo_token_guard body_or_empty_def dto)
qed


definition demo_join :: request where
  "demo_join = demo_request POST [''auth'', ''register''] None (JObj [(''email'', JStr ''a@b.c''), (''password'', JStr ''password1'')])"

text \<open>Witness of C8: an account registers, then the health check.\<close>

theorem api_session_refines_platform_witness:
  "tables_ok (st_db (snd (api_session [(demo_api ''u1'', demo_join), (demo_api ''u2'', demo_request GET [''Health''] None (JObj []))] (demo_state empty_db))))
   \<and> map rs_status (fst (api_session [(demo_api ''u1'', demo_join), (demo_api ''u2'', demo_request GET [''Health''] None (JObj []))] (demo_state empty_db))) = [201, 200]"
proof -
  let ?xs = "[(demo_api ''u1'', demo_join), (demo_api ''u2'', demo_request GET [''Health''] None (JObj []))]"
  have "\<forall>(E, rq) \<in> set ?xs. on_platform demo_crypto mem_s3 mem_redis E" by (simp add: on_platform_def demo_api_def)
  moreover have "distinct (map (\<lambda>x. e_newId (fst x)) ?xs)" by (simp add: demo_api_def)
  moreover have "st_db (demo_state empty_db) = empty_db" by (simp add: demo_state_def)
  moreover have "map rs_status (fst (api_session ?xs (demo_state empty_db))) = [201, 200]"
    by (simp add: api_def demo_join_def demo_request_def parser_refuses_def demo_routes served_def auth_register_def RegisterDto_def body_or_empty_def
        member_def register_user_def user_create_def demo_api_def demo_state_def respond_def empty_db_def demo_crypto_def Let_def)
  ultimately show ?thesis using api_session_refines_platform by blast
qed

definition demo_crowded :: db where
  "demo_crowded = demo_key_db\<lparr>users := users demo_key_db @ [demo_account ''u2''], funcs := [demo_fn ''f2'' ''u2'']\<rparr>"

text \<open>Witness of C9: the list of functions, with and without another account's function.\<close>

theorem api_reads_local_witness:
  "fst (api (demo_api ''x'') (demo_request GET [''functions''] key_header (JObj [])) (demo_state demo_crowded)) =
   fst (api (demo_api ''x'') (demo_request GET [''functions''] key_header (JObj [])) (demo_state demo_key_db))"
proof (rule api_reads_local [of _ List_functions])
  have "callers (demo_api ''x'') (demo_request GET [''functions''] key_header (JObj [])) demo_crowded = {For ''u1''}"
    using key_guard guard_same_principal [of demo_crowded demo_key_db demo_crypto no_faults 9 key_header]
    by (simp add: callers_def demo_api_defs demo_crowded_def)
  moreover have "tenant_view ''u1'' demo_crowded = tenant_view ''u1'' demo_key_db"
    by (simp add: tenant_view_def owned_def owned_ids_def demo_crowded_def demo_defs demo_fn_def)
  ultimately show "same_for_caller (demo_api ''x'') (demo_request GET [''functions''] key_header (JObj []))
      (st_db (demo_state demo_crowded)) (st_db (demo_state demo_key_db))"
    by (simp add: same_for_caller_def demo_state_def demo_crowded_def)
  show "db_wf (st_db (demo_state demo_crowded))"
    by (simp add: demo_state_def demo_crowded_def db_wf_def wf_defs demo_defs demo_fn_def demo_account_def)
qed (simp_all add: demo_routes demo_request_def demo_state_def demo_key_db_wf)

end
