(* ===== verification/Pipeline.thy ===== *)
theory Pipeline
  imports Build_Queue
begin

text \<open>
  From an uploaded version to one that can be invoked: the outbox relay, the stream and the consumer of
  \<open>src/build/\<close> put together. \<open>background\<close> is one tick of the relay followed by one iteration of the
  consumer's loop, as a process runs them while nothing else happens to the build.
\<close>

section \<open>A Redis that answers\<close>

text \<open>
  Every command the queue uses is answered, and \<open>XREADGROUP .. >\<close> delivers the next entry if the group
  has one left.
\<close>

locale live_streams = redis_stream R for R :: "'r redis" +
  assumes xadd_answers: "\<exists>i s'. xadd R k fs s = (Inr i, s')"
    and xack_answers: "\<exists>s'. xack R k g i s = (Inr (), s')"
    and xautoclaim_answers: "\<exists>ms s'. xautoclaim R now k g c idle s = (Inr ms, s')"
    and xreadgroup_answers: "\<exists>ms s'. xreadgroup R now k g c s = (Inr ms, s') \<and> (undelivered g (streams (view R s) k) \<noteq> [] \<longrightarrow> ms \<noteq> [])"

interpretation memlive: live_streams mem_redis
proof
  show "\<exists>i s'. xadd mem_redis k fs s = (Inr i, s')" for k fs s by (simp add: mem_redis_def mem_xadd_def Let_def)
  show "\<exists>s'. xack mem_redis k g i s = (Inr (), s')" for k g i s by (simp add: mem_redis_def)
  show "\<exists>ms s'. xautoclaim mem_redis now k g c idle s = (Inr ms, s')" for now k g c idle s
    by (simp add: mem_redis_def mem_xautoclaim_def Let_def)
  have "find (\<lambda>x. fst x \<notin> delivered (mem_streams s k) g) (entries (mem_streams s k)) = None \<Longrightarrow>
      undelivered g (streams (view mem_redis s) k) = []" for s k g
    by (simp add: undelivered_def filter_empty_conv find_None_iff mem_redis_def) fastforce
  then show "\<exists>ms s'. xreadgroup mem_redis now k g c s = (Inr ms, s') \<and> (undelivered g (streams (view mem_redis s) k) \<noteq> [] \<longrightarrow> ms \<noteq> [])"
    for now k g c s
    by (cases "find (\<lambda>x. fst x \<notin> delivered (mem_streams s k) g) (entries (mem_streams s k))")
      (auto simp: mem_redis_def mem_xreadgroup_def)
qed

section \<open>The background of the platform\<close>

definition background where
  "background R dbMessage exec cx now consumer st =
     consumer_iteration R dbMessage exec cx now now DEFAULT_CLAIM_IDLE_MS consumer (snd (relayOnce R no_faults {} now st))"

text \<open>Nothing is in flight: the entries of the stream are those that were delivered, and none is pending.\<close>

definition queue_idle :: "redis_view \<Rightarrow> bool" where
  "queue_idle V \<longleftrightarrow>
     delivered (streams V BUILD_STREAM_KEY) BUILD_CONSUMER_GROUP = fst ` set (entries (streams V BUILD_STREAM_KEY)) \<and>
     (\<forall>i. pel (streams V BUILD_STREAM_KEY) BUILD_CONSUMER_GROUP i = None)"

text \<open>A run of the consumer without refused calls, during which nobody else writes.\<close>

definition undisturbed :: "(string \<Rightarrow> run_ctx) \<Rightarrow> db \<Rightarrow> bool" where
  "undisturbed cx db \<longleftrightarrow> (\<forall>i. rc_faults (cx i) = no_faults \<and> rc_meanwhile (cx i) = (\<lambda>d. d)
     \<and> rc_verId (cx i) \<notin> ver_id ` set (functionVersions db))"

definition only_unpublished :: "build \<Rightarrow> db \<Rightarrow> bool" where
  "only_unpublished b db \<longleftrightarrow> filter unpublished (builds db) = [b]"

lemma only_unpublished_select: "only_unpublished b db \<Longrightarrow> select_unpublished {} db = [build_id b]"
  by (simp add: only_unpublished_def select_unpublished_def)

lemma only_unpublishedD: "only_unpublished b db \<Longrightarrow> b \<in> set (builds db) \<and> unpublished b"
  unfolding only_unpublished_def by (drule arg_cong [where f = set]) (auto simp only: set_filter list.set)

lemma find_first: "filter P xs = y # ys \<Longrightarrow> find P xs = Some y"
  by (induction xs) (auto split: if_splits)

lemma mark_published_wf:
  assumes "db_wf db"
  shows "db_wf (mark_published now ids db)"
proof -
  have "\<forall>x \<in> set (builds db). build_functionId x \<in> fn_id ` set (funcs db)" using assms by (simp add: db_wf_def builds_wf_def)
  then have "\<forall>x \<in> set (builds (mark_published now ids db)). build_functionId x \<in> fn_id ` set (funcs db)"
    unfolding mark_published_def by (auto simp: update_where_def)
  then show ?thesis
    using assms by (simp add: mark_published_def db_wf_def wf_defs row_simps)
qed

context live_streams
begin

text \<open>The relay appends the build to the stream.\<close>

lemma relay_publishes:
  assumes "only_unpublished b db"
  obtains i s' where "relayOnce R no_faults {} now (db, s) = (Inr (), mark_published now [build_id b] db, s')"
    and "i \<notin> fst ` set (entries (streams (view R s) BUILD_STREAM_KEY))"
    and "view R s' = upd_stream BUILD_STREAM_KEY (append_entry i [''buildId'', build_id b]) (view R s)"
proof -
  obtain i s' where x: "xadd R BUILD_STREAM_KEY [''buildId'', build_id b] s = (Inr i, s')" using xadd_answers by blast
  show thesis
    by (rule that [of s' i]) (use x xadd_Inr [OF x] only_unpublished_select [OF assms] in \<open>simp_all add: relayOnce_def\<close>)
qed

text \<open>With an empty pending list there is nothing to reclaim.\<close>

lemma reclaims_nothing:
  assumes "\<forall>i. pel (streams (view R s) BUILD_STREAM_KEY) BUILD_CONSUMER_GROUP i = None"
  obtains s' where "reclaimAbandonedMessages R msg exec cx now idle c (db, s) = (Inr (), db, s')" and "view R s' = view R s"
proof -
  obtain ms s' where x: "xautoclaim R now BUILD_STREAM_KEY BUILD_CONSUMER_GROUP c idle s = (Inr ms, s')" using xautoclaim_answers by blast
  have "ms = []" using xautoclaim_Inr [OF x] assms by (cases ms) (auto simp: idle_for_def)
  then show thesis using that [of s'] x xautoclaim_Inr [OF x] by (simp add: reclaimAbandonedMessages_def upd_stream_def)
qed

text \<open>The only entry that is left is delivered, handled and acknowledged.\<close>

lemma delivers_next:
  assumes "undelivered BUILD_CONSUMER_GROUP (streams (view R s) BUILD_STREAM_KEY) = [(i, fs)]"
  obtains s' where "readAndProcessOnce R msg exec cx now c (db, s) = (Inr (), handleMessage R msg exec (cx i) i fs (db, s'))"
    and "view R s' = upd_stream BUILD_STREAM_KEY (deliver BUILD_CONSUMER_GROUP c now i) (view R s)"
proof -
  let ?S = "streams (view R s) BUILD_STREAM_KEY"
  obtain ms s' where x: "xreadgroup R now BUILD_STREAM_KEY BUILD_CONSUMER_GROUP c s = (Inr ms, s')" and ne: "ms \<noteq> []"
    using xreadgroup_answers [of now BUILD_STREAM_KEY BUILD_CONSUMER_GROUP c s] assms by auto
  have "find (\<lambda>x. fst x \<notin> delivered ?S BUILD_CONSUMER_GROUP) (entries ?S) = Some (i, fs)"
    using assms find_first unfolding undelivered_def by fast
  with xreadgroup_Inr [OF x] ne have "ms = [(i, fs)]" "view R s' = upd_stream BUILD_STREAM_KEY (deliver BUILD_CONSUMER_GROUP c now i) (view R s)"
    by auto
  then show thesis using that [of s'] x by (simp add: readAndProcessOnce_def)
qed

text \<open>Publishing a build and handling its message, on the view.\<close>

lemma publish_deliver_acknowledge:
  assumes "queue_idle V" and "i \<notin> fst ` set (entries (streams V BUILD_STREAM_KEY))"
    and V1: "V1 = upd_stream BUILD_STREAM_KEY (append_entry i fs) V"
    and V3: "V3 = upd_stream BUILD_STREAM_KEY (acknowledge BUILD_CONSUMER_GROUP i)
      (upd_stream BUILD_STREAM_KEY (deliver BUILD_CONSUMER_GROUP c now i) V1)"
  shows "undelivered BUILD_CONSUMER_GROUP (streams V1 BUILD_STREAM_KEY) = [(i, fs)]"
    and "\<forall>j. pel (streams V1 BUILD_STREAM_KEY) BUILD_CONSUMER_GROUP j = None"
    and "queue_idle V3" and "hashes V3 = hashes V"
proof -
  let ?S = "streams V BUILD_STREAM_KEY"
  have d: "delivered ?S BUILD_CONSUMER_GROUP = fst ` set (entries ?S)" and p: "\<forall>j. pel ?S BUILD_CONSUMER_GROUP j = None"
    using assms(1) by (simp_all add: queue_idle_def)
  have "filter (\<lambda>x. fst x \<notin> fst ` set (entries ?S)) (entries ?S) = []" by (simp add: filter_empty_conv)
  then show "undelivered BUILD_CONSUMER_GROUP (streams V1 BUILD_STREAM_KEY) = [(i, fs)]"
    using assms(2) by (simp add: V1 undelivered_def upd_stream_def append_entry_def d)
  show "\<forall>j. pel (streams V1 BUILD_STREAM_KEY) BUILD_CONSUMER_GROUP j = None"
    using p by (simp add: V1 upd_stream_def append_entry_def)
  show "queue_idle V3"
    using d p by (simp add: V3 V1 queue_idle_def upd_stream_def append_entry_def deliver_def own_def acknowledge_def)
  show "hashes V3 = hashes V" by (simp add: V3 V1 upd_stream_def)
qed

text \<open>The consumer's share, from a build that is published but not finished.\<close>

lemma handle_commits:
  assumes "db_wf db" and "f \<in> set (funcs db)" and "b \<in> set (builds db)" and "build_functionId b = fn_id f" and "\<not> is_settled b"
    and "verId \<notin> ver_id ` set (functionVersions db)" and "rc_faults cx = no_faults" and "rc_meanwhile cx = (\<lambda>d. d)" and "rc_verId cx = verId"
    and "exec \<lparr>bp_sourceObjectKey = sourceObjectKey b, bp_functionName = fn_name f, bp_versionNumber = nextVersionNumber (fn_id f) db\<rparr> = Inr ref"
  obtains db' s' where "handleMessage R msg exec cx i [''buildId'', build_id b] (db, s) = (db', s')"
    and "view R s' = upd_stream BUILD_STREAM_KEY (acknowledge BUILD_CONSUMER_GROUP i) (view R s)"
    and "commit_version verId (rc_now cx) b (nextVersionNumber (fn_id f) db) ref db = Inr db'"
proof -
  obtain db' where c: "commit_version verId (rc_now cx) b (nextVersionNumber (fn_id f) db) ref db = Inr db'"
    and r: "runBuild no_faults msg exec (\<lambda>d. d) verId (rc_now cx) b db = (Inr (), db')"
    using runBuild_commits [OF assms(1-4,6) HOL.refl, of exec ref] assms(10) by blast
  obtain s' where a: "xack R BUILD_STREAM_KEY BUILD_CONSUMER_GROUP i s = (Inr (), s')" using xack_answers by blast
  have "field_after ''buildId'' [''buildId'', build_id b] = Some (build_id b)" by (simp add: field_after_def js_nth_def)
  moreover have "build_find (build_id b) db = Some b" using build_find_iff [OF assms(1)] assms(3) by blast
  ultimately show thesis
    using that [of db' s'] c r a xack_Inr [OF a] assms(5,7-9)
      handleMessage_runs [of "[''buildId'', build_id b]" "build_id b" cx db b msg exec "Inr ()" db' R i s] by simp
qed

text \<open>One tick and one iteration bring the build to its end.\<close>

lemma background_commits:
  assumes wf: "db_wf db" and b: "only_unpublished b db" and f: "f \<in> set (funcs db)" "build_functionId b = fn_id f"
    and q: "queue_idle (view R s)" and cx: "undisturbed cx db"
    and exec: "exec \<lparr>bp_sourceObjectKey = sourceObjectKey b, bp_functionName = fn_name f, bp_versionNumber = nextVersionNumber (fn_id f) db\<rparr> = Inr ref"
  obtains i db' s' where "background R msg exec cx now c (db, s) = (db', s')"
    and "commit_version (rc_verId (cx i)) (rc_now (cx i)) (b\<lparr>publishedToStreamAt := Some now\<rparr>) (nextVersionNumber (fn_id f) db) ref
        (mark_published now [build_id b] db) = Inr db'"
    and "queue_idle (view R s')" and "hashes (view R s') = hashes (view R s)"
proof -
  let ?db1 = "mark_published now [build_id b] db" and ?b1 = "b\<lparr>publishedToStreamAt := Some now\<rparr>"
  obtain i s1 where relay: "relayOnce R no_faults {} now (db, s) = (Inr (), ?db1, s1)"
    and i: "i \<notin> fst ` set (entries (streams (view R s) BUILD_STREAM_KEY))"
    and v1: "view R s1 = upd_stream BUILD_STREAM_KEY (append_entry i [''buildId'', build_id b]) (view R s)"
    using relay_publishes [OF b] by blast
  note V = publish_deliver_acknowledge [OF q i v1 HOL.refl]
  obtain s2 where re: "reclaimAbandonedMessages R msg exec cx now DEFAULT_CLAIM_IDLE_MS c (?db1, s1) = (Inr (), ?db1, s2)" and v2: "view R s2 = view R s1"
    using reclaims_nothing [OF V(2)] by blast
  obtain s3 where rd: "readAndProcessOnce R msg exec cx now c (?db1, s2) = (Inr (), handleMessage R msg exec (cx i) i [''buildId'', build_id b] (?db1, s3))"
    and v3: "view R s3 = upd_stream BUILD_STREAM_KEY (deliver BUILD_CONSUMER_GROUP c now i) (view R s1)"
    using delivers_next [of s2 i "[''buildId'', build_id b]" msg exec cx now c ?db1] V(1) v2 by auto
  have wf1: "db_wf ?db1" using wf by (rule mark_published_wf)
  have "?b1 \<in> set (builds ?db1)"
    using in_update_where_this [of b "builds db" "\<lambda>x. build_id x \<in> set [build_id b]"] only_unpublishedD [OF b] by (simp add: mark_published_def)
  moreover have "\<not> is_settled ?b1" using only_unpublishedD [OF b] by (simp add: is_settled_def unpublished_def)
  moreover have "nextVersionNumber (fn_id f) ?db1 = nextVersionNumber (fn_id f) db"
    by (simp add: nextVersionNumber_def latestVersion_def mark_published_def)
  ultimately obtain db' s4 where h: "handleMessage R msg exec (cx i) i [''buildId'', build_id b] (?db1, s3) = (db', s4)"
    and v4: "view R s4 = upd_stream BUILD_STREAM_KEY (acknowledge BUILD_CONSUMER_GROUP i) (view R s3)"
    and c: "commit_version (rc_verId (cx i)) (rc_now (cx i)) ?b1 (nextVersionNumber (fn_id f) db) ref ?db1 = Inr db'"
    using handle_commits [OF wf1, of f ?b1 "rc_verId (cx i)" "cx i" exec ref msg i s3] f cx exec by (auto simp: mark_published_def undisturbed_def)
  have "background R msg exec cx now c (db, s) = (db', s4)"
    using relay re rd h by (simp add: background_def consumer_iteration_def)
  then show thesis using that [OF _ c] V(3,4) [of c now] v3 v4 by simp
qed

end

section \<open>What a build brings about\<close>

lemma filter_update_where_out: "(\<And>x. x \<in> set xs \<Longrightarrow> p x \<Longrightarrow> \<not> q (g x)) \<Longrightarrow> filter q (update_where p g xs) = filter (\<lambda>x. q x \<and> \<not> p x) xs"
  by (induction xs) (auto simp: update_where_def)

lemma background_effect:
  assumes live: "live_streams R" and wf: "db_wf db" and b: "only_unpublished b db" and f: "f \<in> set (funcs db)" "build_functionId b = fn_id f"
    and q: "queue_idle (view R s)" and cx: "undisturbed cx db"
    and exec: "exec \<lparr>bp_sourceObjectKey = sourceObjectKey b, bp_functionName = fn_name f, bp_versionNumber = nextVersionNumber (fn_id f) db\<rparr> = Inr ref"
    and run: "background R msg exec cx now c (db, s) = (db', s')"
  shows "\<exists>x. build_find (build_id b) db' = Some x \<and> build_functionId x = fn_id f \<and> build_status x = SUCCESS \<and> build_imageTag x = Some ref"
    and "\<exists>v. latestVersion (fn_id f) db' = Some v \<and> versionNumber v = nextVersionNumber (fn_id f) db \<and> ver_imageTag v = ref"
    and "filter unpublished (builds db') = []" and "db_wf db'"
    and "funcs db' = funcs db" and "users db' = users db" and "apiKeys db' = apiKeys db" and "invocations db' = invocations db"
    and "queue_idle (view R s')" and "hashes (view R s') = hashes (view R s)"
proof -
  let ?b1 = "b\<lparr>publishedToStreamAt := Some now\<rparr>" and ?db1 = "mark_published now [build_id b] db" and ?n = "nextVersionNumber (fn_id f) db"
  from live_streams.background_commits [OF live wf b f q cx, of exec ref msg now c] exec run
  obtain i where c: "commit_version (rc_verId (cx i)) (rc_now (cx i)) ?b1 ?n ref ?db1 = Inr db'"
    and q': "queue_idle (view R s')" "hashes (view R s') = hashes (view R s)" by (metis prod.inject)
  note rows = commit_version_Inr [OF c]
  show wf': "db_wf db'" using commit_version_wf [OF mark_published_wf [OF wf] c] .
  show "queue_idle (view R s')" "hashes (view R s') = hashes (view R s)" by (rule q')+
  show "funcs db' = funcs db" "users db' = users db" "apiKeys db' = apiKeys db" "invocations db' = invocations db"
    using rows(5-8) by (simp_all add: mark_published_def)
  have b1: "?b1 \<in> set (builds ?db1)"
    using in_update_where_this [of b "builds db" "\<lambda>x. build_id x \<in> set [build_id b]"] only_unpublishedD [OF b] by (simp add: mark_published_def)
  show "\<exists>x. build_find (build_id b) db' = Some x \<and> build_functionId x = fn_id f \<and> build_status x = SUCCESS \<and> build_imageTag x = Some ref"
    using updated_build [OF wf' b1 rows(2)] f(2) by simp
  have "latestVersion (fn_id f) db' = Some \<lparr>ver_id = rc_verId (cx i), ver_functionId = fn_id f, versionNumber = ?n,
      ver_imageTag = ref, ver_createdAt = rc_now (cx i)\<rparr>"
  proof (rule latestVersion_eqI [OF wf'])
    fix w
    assume "w \<in> set (functionVersions db')" and "ver_functionId w = fn_id f"
    then show "versionNumber w \<le> versionNumber \<lparr>ver_id = rc_verId (cx i), ver_functionId = fn_id f, versionNumber = ?n,
        ver_imageTag = ref, ver_createdAt = rc_now (cx i)\<rparr>"
      using rows(1) nextVersionNumber_above [of w db "fn_id f"] by (auto simp: mark_published_def)
  qed (use rows(1) f(2) in simp_all)
  then show "\<exists>v. latestVersion (fn_id f) db' = Some v \<and> versionNumber v = ?n \<and> ver_imageTag v = ref" by auto
  have "filter unpublished (builds ?db1) = filter (\<lambda>x. unpublished x \<and> build_id x \<notin> {build_id b}) (builds db)"
    using filter_update_where_out [of "builds db" "\<lambda>x. build_id x \<in> set [build_id b]" unpublished "publishedToStreamAt_update (\<lambda>_. Some now)"]
    by (simp add: mark_published_def unpublished_def)
  also have "\<dots> = filter (\<lambda>x. build_id x \<noteq> build_id b) (filter unpublished (builds db))" by (auto intro: filter_cong)
  also have "\<dots> = []" using b by (simp add: only_unpublished_def)
  finally show "filter unpublished (builds db') = []"
    unfolding rows(2) by (subst filter_update_where_out) (auto simp: unpublished_def filter_empty_conv)
qed

section \<open>Properties\<close>

text \<open>
  C4. An accepted upload becomes a version. Let nothing else be waiting in the outbox or in the
  stream, and let the executor build the image: after the next tick of the relay and the next
  iteration of the consumer the build that \<open>submitBuild\<close> returned says SUCCESS, the function's latest
  version is a new one with the next number and the executor's image, and outbox and stream are empty again.
\<close>

theorem build_end_to_end:
  assumes "live_streams R" and "db_wf db" and "f \<in> set (funcs db)" and "filter unpublished (builds db) = []" and "queue_idle (view R s)"
    and "submitBuild S cfg no_faults uuid newId t (fn_id f) source (objs, db) = (Inr b, objs', db1)" and "undisturbed cx db"
    and "exec \<lparr>bp_sourceObjectKey = source_object_key (fn_id f) uuid, bp_functionName = fn_name f, bp_versionNumber = nextVersionNumber (fn_id f) db\<rparr> = Inr ref"
    and "background R msg exec cx now c (db1, s) = (db', s')"
  shows "(\<exists>x. build_find (build_id b) db' = Some x \<and> build_status x = SUCCESS \<and> build_imageTag x = Some ref)
    \<and> (\<exists>v. latestVersion (fn_id f) db' = Some v \<and> versionNumber v = nextVersionNumber (fn_id f) db \<and> ver_imageTag v = ref)
    \<and> filter unpublished (builds db') = [] \<and> queue_idle (view R s') \<and> db_wf db'"
proof -
  let ?b = "new_build newId t (fn_id f) (source_object_key (fn_id f) uuid)"
  have db1: "build_create ?b db = Inr db1" and b: "b = ?b"
    using assms(6) by (auto simp: submitBuild_def Let_def split: prod.splits sum.splits)
  then have rows: "db1 = db\<lparr>builds := builds db @ [?b]\<rparr>" by (simp add: build_create_def split: if_splits)
  have "only_unpublished ?b db1" using assms(4) by (simp add: only_unpublished_def rows unpublished_def new_build_def)
  moreover have "db_wf db1" using build_create_wf [OF assms(2) db1] .
  moreover have "undisturbed cx db1" using assms(7) by (simp add: undisturbed_def rows)
  moreover have "nextVersionNumber (fn_id f) db1 = nextVersionNumber (fn_id f) db"
    by (simp add: nextVersionNumber_def latestVersion_def rows)
  moreover have "f \<in> set (funcs db1)" "build_functionId ?b = fn_id f" "sourceObjectKey ?b = source_object_key (fn_id f) uuid"
    using assms(3) by (simp_all add: rows new_build_def)
  ultimately show ?thesis
    using background_effect [OF assms(1) _ _ _ _ assms(5) _ _ assms(9), of ?b f ref] assms(8) unfolding b by (metis (no_types, lifting))
qed

section \<open>Witnesses\<close>

definition demo_ready :: mem where
  "demo_ready = snd (mem_xgroup BUILD_STREAM_KEY BUILD_CONSUMER_GROUP empty_mem)"

lemma demo_ready_idle: "queue_idle (view mem_redis demo_ready)"
  by (simp add: queue_idle_def demo_ready_def mem_xgroup_def mem_redis_def empty_mem_def empty_stream_def mem_stream_def start_group_def)

definition demo_run_cx :: run_ctx where
  "demo_run_cx = \<lparr>rc_faults = no_faults, rc_meanwhile = (\<lambda>d. d), rc_verId = ''v3'', rc_now = 9\<rparr>"

text \<open>Witness of C4: the third version of the first account's function.\<close>

theorem build_end_to_end_witness:
  "\<exists>b objs' db1 db' s'. submitBuild mem_s3 (storage_config None None) no_faults ''u'' ''b1'' 3 ''f1'' ''src'' (\<lambda>_ _. None, demo_db) = (Inr b, objs', db1)
     \<and> background mem_redis (\<lambda>_. []) demo_exec (\<lambda>_. demo_run_cx) 7 ''c'' (db1, demo_ready) = (db', s')
     \<and> (\<exists>v. latestVersion ''f1'' db' = Some v \<and> versionNumber v = 3 \<and> ver_imageTag v = local_image_ref ''f'' 3)"
proof -
  obtain b objs' db1 where sub: "submitBuild mem_s3 (storage_config None None) no_faults ''u'' ''b1'' 3 (fn_id (demo_fn ''f1'' ''u1'')) ''src'' (\<lambda>_ _. None, demo_db) = (Inr b, objs', db1)"
    by (auto simp: submitBuild_def putObject_def mem_s3_def build_create_def new_build_def demo_db_defs Let_def)
  obtain db' s' where run: "background mem_redis (\<lambda>_. []) demo_exec (\<lambda>_. demo_run_cx) 7 ''c'' (db1, demo_ready) = (db', s')" by fastforce
  have f: "demo_fn ''f1'' ''u1'' \<in> set (funcs demo_db)" and none: "filter unpublished (builds demo_db) = []" and next3: "nextVersionNumber ''f1'' demo_db = 3"
    and fid: "fn_id (demo_fn ''f1'' ''u1'') = ''f1''" "fn_name (demo_fn ''f1'' ''u1'') = ''f''" and cx: "undisturbed (\<lambda>_. demo_run_cx) demo_db"
    using demo_latest by (simp_all add: demo_db_def nextVersionNumber_def demo_ver_def demo_fn_def undisturbed_def demo_run_cx_def)
  have "demo_exec \<lparr>bp_sourceObjectKey = source_object_key (fn_id (demo_fn ''f1'' ''u1'')) ''u'', bp_functionName = fn_name (demo_fn ''f1'' ''u1''),
      bp_versionNumber = nextVersionNumber (fn_id (demo_fn ''f1'' ''u1'')) demo_db\<rparr> = Inr (local_image_ref ''f'' 3)"
    by (simp add: demo_exec_def fid next3)
  from build_end_to_end [OF memlive.live_streams_axioms demo_db_wf f none demo_ready_idle sub cx this run] sub run show ?thesis
    unfolding fid next3 by blast
qed

end
