(* ===== verification/Runtime.thy ===== *)
theory Runtime
  imports Container_Executor
begin

text \<open>
  Running user code: the in-process executor (\<open>src/executor.ts\<close>) with its race against a timer, the
  shim that runs inside a container (\<open>runtime/shim.js\<close>), and the two command-line programs
  (\<open>src/run.ts\<close>, \<open>src/run-container.ts\<close>). User code is a parameter: what loading its module does, and
  how a call of its handler ends. Times are milliseconds.
\<close>

section \<open>User code\<close>

text \<open>
  A value as \<open>JSON.stringify\<close> sees it: a JSON value, \<open>undefined\<close> (a member that has it is left out), or a
  value it throws on (a cycle, a \<open>BigInt\<close>).
\<close>

datatype js_value = Json json | Undefined | Unserialisable string

text \<open>What can be thrown: an \<open>Error\<close> with its message, \<open>null\<close> or \<open>undefined\<close>, or another value that
  has no member \<open>message\<close>, with its text.\<close>

datatype thrown = Err string | Nullish string | Other string

datatype settlement = Resolves js_value | Rejects thrown

text \<open>
  How \<open>Promise.resolve().then(() => handler(event))\<close> goes on: it is settled when the handler returns,
  after \<open>t\<close> milliseconds in which nothing else ran (the handler is synchronous); it is settled later,
  at time \<open>t\<close>; it is never settled and something keeps the process alive; or it is never settled
  and at time \<open>t\<close> nothing is left that could.
\<close>

datatype handler_run = Immediately nat settlement | After nat settlement | Never | Drains nat

text \<open>
  What \<open>require\<close> of the file does: it throws, the exports are \<open>null\<close> or \<open>undefined\<close> (with the message
  of the \<open>TypeError\<close> that reading a member then raises), there is no function \<open>handler\<close>, or there is.
\<close>

datatype handler_module = LoadFails thrown | NullExports string | NoHandler | Handler "json \<Rightarrow> handler_run"

text \<open>\<open>err instanceof Error ? err.message : String(err)\<close>\<close>

primrec error_message :: "thrown \<Rightarrow> string" where
  "error_message (Err m) = m"
| "error_message (Nullish s) = s"
| "error_message (Other s) = s"

section \<open>The in-process executor (executor.ts)\<close>

datatype execution_outcome = Success js_value nat | Failure string nat | Timeout nat

text \<open>A call of \<open>executeFunction\<close> returns an outcome, or its promise is rejected.\<close>

datatype executor_result = Outcome execution_outcome | Rejection

text \<open>
  The event loop: when a timer goes off that was armed with the given delay, and which of two things
  due at the same moment comes first. \<open>setTimeout\<close> replaces a delay it cannot represent by 1.
\<close>

record event_loop =
  fires :: "nat \<Rightarrow> nat"
  handler_first :: bool

definition timer_delay :: "int \<Rightarrow> nat" where
  "timer_delay d = (if 1 \<le> d \<and> d \<le> 2147483647 then nat d else 1)"

text \<open>\<open>Promise.race([handlerPromise, timeoutPromise])\<close>: \<^term>\<open>None\<close> when the timer wins; with the time.\<close>

fun race :: "event_loop \<Rightarrow> nat \<Rightarrow> handler_run \<Rightarrow> settlement option \<times> nat" where
  "race L delay (Immediately t r) = (Some r, t)"
| "race L delay (After t r) =
     (if t < fires L delay \<or> t = fires L delay \<and> handler_first L then (Some r, t) else (None, fires L delay))"
| "race L delay Never = (None, fires L delay)"
| "race L delay (Drains t) = (None, fires L delay)"

definition executeFunction ::
  "(string \<Rightarrow> handler_module) \<Rightarrow> event_loop \<Rightarrow> nat \<Rightarrow> string \<Rightarrow> json \<Rightarrow> int option \<Rightarrow> executor_result" where
  "executeFunction load L loadMs functionPath event optTimeoutMs =
     (let timeoutMs = or_else optTimeoutMs 3000 in
      case load functionPath of
        LoadFails (Err m) \<Rightarrow> Outcome (Failure (''Failed to load function module: '' @ m) loadMs)
      | LoadFails (Other _) \<Rightarrow> Outcome (Failure (''Failed to load function module: '' @ ''undefined'') loadMs)
      | LoadFails (Nullish _) \<Rightarrow> Rejection
      | NullExports _ \<Rightarrow> Rejection
      | NoHandler \<Rightarrow>
          Outcome (Failure (''Module at '' @ quoted functionPath @ '' does not export a '' @ quoted ''handler'' @ '' function'') loadMs)
      | Handler handler \<Rightarrow>
          (case race L (timer_delay timeoutMs) (handler event) of
             (Some (Resolves result), t) \<Rightarrow> Outcome (Success result (loadMs + t))
           | (Some (Rejects err), t) \<Rightarrow> Outcome (Failure (error_message err) (loadMs + t))
           | (None, t) \<Rightarrow> Outcome (Timeout (loadMs + t))))"

section \<open>The command line (run.ts, run-container.ts)\<close>

text \<open>
  \<open>process.argv\<close> gives at most two arguments; an empty one counts as missing. The program prints a
  message and exits with 1, or runs the executor; it prints an outcome, and dies of a rejection.
\<close>

datatype 'a cli_result = Exit1 string | Ran 'a

definition cli_event :: "string option \<Rightarrow> json option" where
  "cli_event eventArg =
     (case eventArg of
        None \<Rightarrow> Some (JObj [])
      | Some a \<Rightarrow> if a = [] then Some (JObj []) else parse a)"

definition cli_main :: "string \<Rightarrow> (string \<Rightarrow> json \<Rightarrow> 'a) \<Rightarrow> string option \<Rightarrow> string option \<Rightarrow> 'a cli_result" where
  "cli_main usage execute functionPath eventArg =
     (case functionPath of
        None \<Rightarrow> Exit1 usage
      | Some p \<Rightarrow>
          if p = [] then Exit1 usage
          else (case cli_event eventArg of
                  None \<Rightarrow> Exit1 ''Event argument must be valid JSON''
                | Some event \<Rightarrow> Ran (execute p event)))"

definition run_main where
  "run_main load L loadMs =
     cli_main ''Usage: npm start -- <path-to-function.js> [eventJson]''
       (\<lambda>p event. executeFunction load L loadMs p event None)"

definition run_container_main where
  "run_container_main docker workDir uuid start fs =
     cli_main ''Usage: npm run start:container -- <path-to-function.js> [eventJson]''
       (\<lambda>p event. executeInContainer docker workDir uuid start p (Some event)
          \<lparr>opt_timeoutMs = None, opt_memoryMb = None, opt_cpus = None\<rparr> fs)"

section \<open>The shim (runtime/shim.js)\<close>

text \<open>
  How the process in the container ends, with the time since its start: it has written its result;
  it failed to write it, because \<open>JSON.stringify\<close> threw outside the \<open>try\<close>; it ran out of things to do
  before the handler settled; or it does not end.
\<close>

datatype shim_exit = Wrote string nat | WriteFailed string nat | RanDry nat | Hangs

definition shim_report :: "string + settlement \<Rightarrow> nat \<Rightarrow> shim_exit" where
  "shim_report r t =
     (case r of
        Inl m \<Rightarrow> Wrote (stringify (JObj (outcome_error m (int t)))) t
      | Inr (Rejects err) \<Rightarrow> Wrote (stringify (JObj (outcome_error (error_message err) (int t)))) t
      | Inr (Resolves (Json v)) \<Rightarrow> Wrote (stringify (JObj (outcome_success v (int t)))) t
      | Inr (Resolves Undefined) \<Rightarrow>
          Wrote (stringify (JObj [(''status'', JStr ''success''), (''durationMs'', JNum (int t))])) t
      | Inr (Resolves (Unserialisable m)) \<Rightarrow> WriteFailed m t)"

definition shim_main :: "(string \<Rightarrow> string) \<Rightarrow> nat \<Rightarrow> string \<Rightarrow> handler_module \<Rightarrow> shim_exit" where
  "shim_main syntaxMessage loadMs event_json code =
     (case parse event_json of
        None \<Rightarrow> shim_report (Inl (syntaxMessage event_json)) 0
      | Some event \<Rightarrow>
          (case code of
             LoadFails err \<Rightarrow> shim_report (Inr (Rejects err)) loadMs
           | NullExports m \<Rightarrow> shim_report (Inl m) loadMs
           | NoHandler \<Rightarrow> shim_report (Inl (''Module does not export a '' @ quoted ''handler'' @ '' function'')) loadMs
           | Handler handler \<Rightarrow>
               (case handler event of
                  Immediately t r \<Rightarrow> shim_report (Inr r) (loadMs + t)
                | After t r \<Rightarrow> shim_report (Inr r) (loadMs + t)
                | Never \<Rightarrow> Hangs
                | Drains t \<Rightarrow> RanDry (loadMs + t))))"

section \<open>A container that runs the shim\<close>

text \<open>
  A Docker daemon whose images run the shim on the code they contain. The daemon stays a parameter;
  described are the process in the container, which reads the file mounted at
  \<open>/var/task/event.json\<close>, and the times at which it starts and is killed.
\<close>

record shim_host =
  code_of :: "string \<Rightarrow> handler_module"
  host_loadMs :: nat
  bootMs :: nat
  lingerMs :: nat
  killMs :: "int \<Rightarrow> nat"
  host_start :: int
  host_syntax :: "string \<Rightarrow> string"

definition mount_source :: "string \<Rightarrow> string list \<Rightarrow> string option" where
  "mount_source target args =
     (case filter (\<lambda>v. drop (length v - length target) v = target) (volumes args) of
        v # _ \<Rightarrow> Some (take (length v - length target) v)
      | [] \<Rightarrow> None)"

definition shim_process :: "shim_host \<Rightarrow> string list \<Rightarrow> files \<Rightarrow> shim_exit" where
  "shim_process H args fs =
     (case Option.bind (mount_source '':/var/task/event.json:ro'' args) fs of
        None \<Rightarrow> shim_report (Inl ''ENOENT'') 0
      | Some t \<Rightarrow> shim_main (host_syntax H) (host_loadMs H) t (code_of H (last args)))"

text \<open>
  What is relied on of such a daemon: a result that the process writes before \<open>docker kill\<close> is in the
  output directory; a process that does not end is killed with exit code 137 and has written nothing.
\<close>

definition runs_shim :: "shim_host \<Rightarrow> docker \<Rightarrow> bool" where
  "runs_shim H docker \<longleftrightarrow> (\<forall>args timeoutMs fs.
     case shim_process H args fs of
       Wrote body t \<Rightarrow> bootMs H + t < killMs H timeoutMs \<longrightarrow> result_file (docker args timeoutMs fs) = Some body
     | Hangs \<Rightarrow> exitCode (docker args timeoutMs fs) = Some 137 \<and> result_file (docker args timeoutMs fs) = None
     | _ \<Rightarrow> True)"

section \<open>The race\<close>

definition of_settlement :: "settlement \<Rightarrow> nat \<Rightarrow> execution_outcome" where
  "of_settlement r n = (case r of Resolves v \<Rightarrow> Success v n | Rejects err \<Rightarrow> Failure (error_message err) n)"

lemma executeFunction_handler:
  assumes "load p = Handler h"
  shows "executeFunction load L loadMs p event opt =
    (case race L (timer_delay (or_else opt 3000)) (h event) of
       (Some r, t) \<Rightarrow> Outcome (of_settlement r (loadMs + t))
     | (None, t) \<Rightarrow> Outcome (Timeout (loadMs + t)))"
  using assms by (simp add: executeFunction_def Let_def of_settlement_def split: option.split prod.split settlement.split)

section \<open>What the container is given\<close>

lemma mount_source_here: "mount_source target (''-v'' # (src @ target) # as) = Some src"
  by (simp add: mount_source_def)

lemma mount_source_skip: "a \<noteq> ''-v'' \<Longrightarrow> mount_source target (a # as) = mount_source target as"
  by (simp add: mount_source_def volumes_skip)

lemma container_mount:
  assumes "opt_cpus options \<noteq> Some ''-v''"
  shows "mount_source '':/var/task/event.json:ro'' (container_args workDir uuid img event_mount options) =
    Some (path_join workDir ''event.json'')"
proof -
  let ?e = "path_join workDir ''event.json''"
  have "or_else (opt_cpus options) ''0.5'' \<noteq> ''-v''"
    using assms by (auto simp: or_else_def split: option.splits)
  then have "mount_source '':/var/task/event.json:ro'' (container_args workDir uuid img event_mount options) =
      mount_source '':/var/task/event.json:ro'' (''-v'' # (?e @ '':/var/task/event.json:ro'') #
        [''-v'', path_join workDir ''output'' @ '':/output'', img])"
    using string_of_int_m_neq by (simp add: container_args_def docker_args_def event_mount_def mount_source_skip)
  then show ?thesis by (simp only: mount_source_here)
qed

lemma container_last: "last (container_args workDir uuid img event_mount options) = img"
  by (simp add: container_args_def docker_args_def)

lemma container_shim:
  assumes "opt_cpus options \<noteq> Some ''-v''" and "json_ok ev" and "ev \<noteq> JNull" and "code_of H img = Handler h"
  shows "shim_process H (container_args workDir uuid img event_mount options) (scratch_files workDir (Some ev) fs) =
    (case h ev of
       Immediately t r \<Rightarrow> shim_report (Inr r) (host_loadMs H + t)
     | After t r \<Rightarrow> shim_report (Inr r) (host_loadMs H + t)
     | Never \<Rightarrow> Hangs
     | Drains t \<Rightarrow> RanDry (host_loadMs H + t))"
proof -
  have "(case Some ev of None \<Rightarrow> JObj [] | Some JNull \<Rightarrow> JObj [] | Some v \<Rightarrow> v) = ev"
    using assms(3) by (cases ev) simp_all
  then have "scratch_files workDir (Some ev) fs (path_join workDir ''event.json'') = Some (stringify ev)"
    by (simp add: scratch_files_def)
  then show ?thesis
    using container_mount [OF assms(1)] parse_stringify [OF assms(2)] assms(4)
    by (simp add: shim_process_def container_last shim_main_def)
qed

text \<open>What a report in time becomes on the host; the duration is the host's own.\<close>

definition verdict :: "js_object \<Rightarrow> js_object" where
  "verdict out = filter (\<lambda>m. fst m \<noteq> ''durationMs'') out"

primrec executor_verdict :: "execution_outcome \<Rightarrow> js_object" where
  "executor_verdict (Success v n) = (''status'', JStr ''success'') # (case v of Json x \<Rightarrow> [(''result'', x)] | _ \<Rightarrow> [])"
| "executor_verdict (Failure m n) = [(''status'', JStr ''error''), (''error'', JStr m)]"
| "executor_verdict (Timeout n) = [(''status'', JStr ''timeout'')]"

definition serialisable :: "settlement \<Rightarrow> bool" where
  "serialisable r = (case r of Resolves (Json v) \<Rightarrow> json_ok v | Resolves (Unserialisable m) \<Rightarrow> False | _ \<Rightarrow> True)"

lemma report_verdict:
  assumes "serialisable r"
  obtains body ms where "shim_report (Inr r) t = Wrote body t" and "parse body = Some (JObj ms)"
    and "\<forall>d. verdict (assign ''durationMs'' d ms) = executor_verdict (of_settlement r n)"
proof -
  let ?s = "\<lambda>v. outcome_success v (int t)" and ?e = "\<lambda>m. outcome_error m (int t)"
    and ?u = "[(''status'', JStr ''success''), (''durationMs'', JNum (int t))]"
  have e: "json_ok (JObj (?e m))" for m by (simp add: outcome_error_def)
  have v: "verdict (assign ''durationMs'' d (?e m)) = [(''status'', JStr ''error''), (''error'', JStr m)]" for m d
    by (simp add: verdict_def outcome_error_def)
  show thesis
  proof (cases r)
    case (Rejects err)
    from parse_stringify [OF e] v Rejects show thesis
      by (intro that) (auto simp: shim_report_def of_settlement_def simp del: stringify.simps)
  next
    case (Resolves x)
    show thesis
    proof (cases x)
      case (Json j)
      then have "json_ok (JObj (?s j))" using assms Resolves by (simp add: serialisable_def outcome_success_def)
      from parse_stringify [OF this] Json Resolves show thesis
        by (intro that [of "stringify (JObj (?s j))" "?s j"])
           (simp_all add: shim_report_def of_settlement_def verdict_def outcome_success_def del: stringify.simps)
    next
      case Undefined
      have "json_ok (JObj ?u)" by simp
      from parse_stringify [OF this] Undefined Resolves show thesis
        by (intro that [of "stringify (JObj ?u)" ?u])
           (simp_all add: shim_report_def of_settlement_def verdict_def del: stringify.simps)
    qed (use assms Resolves in \<open>simp add: serialisable_def\<close>)
  qed
qed

lemma execute_fst:
  "fst (executeVersionedFunction D workDir uuid start img ev options fs) =
     on_close start (D (container_args workDir uuid img event_mount options) (or_else (opt_timeoutMs options) 3000)
       (scratch_files workDir ev fs))"
  by (simp add: executeVersionedFunction_def runIsolatedContainer_fst run_container_def)

lemma runs_shim_wrote:
  assumes "runs_shim H docker" and "shim_process H args fs = Wrote body t" and "bootMs H + t < killMs H timeoutMs"
    and "parse body = Some (JObj ms)"
  shows "\<exists>d. on_close start (docker args timeoutMs fs) = Resolved (assign ''durationMs'' d ms)"
proof -
  from assms(1) have "case shim_process H args fs of
      Wrote body t \<Rightarrow> bootMs H + t < killMs H timeoutMs \<longrightarrow> result_file (docker args timeoutMs fs) = Some body
    | Hangs \<Rightarrow> exitCode (docker args timeoutMs fs) = Some 137 \<and> result_file (docker args timeoutMs fs) = None
    | _ \<Rightarrow> True" by (simp only: runs_shim_def)
  with assms(2-4) show ?thesis by (auto simp: on_close_def Let_def)
qed

lemma runs_shim_killed:
  assumes "runs_shim H docker" and "shim_process H args fs = Hangs"
  shows "\<exists>d. on_close start (docker args timeoutMs fs) = Resolved (outcome_timeout d)"
proof -
  from assms(1) have "case shim_process H args fs of
      Wrote body t \<Rightarrow> bootMs H + t < killMs H timeoutMs \<longrightarrow> result_file (docker args timeoutMs fs) = Some body
    | Hangs \<Rightarrow> exitCode (docker args timeoutMs fs) = Some 137 \<and> result_file (docker args timeoutMs fs) = None
    | _ \<Rightarrow> True" by (simp only: runs_shim_def)
  with assms(2) show ?thesis by (auto simp: on_close_def Let_def)
qed

text \<open>
  What a container with the shim makes of a handler: how it settled, if that was in time and can be
  reported, and a timeout (\<^term>\<open>None\<close>) if it hangs.
\<close>

definition ends_as :: "shim_host \<Rightarrow> int \<Rightarrow> handler_run \<Rightarrow> settlement option \<Rightarrow> bool" where
  "ends_as H timeoutMs run res =
     (let reported = (\<lambda>t r. res = Some r \<and> serialisable r \<and> bootMs H + (host_loadMs H + t) < killMs H timeoutMs) in
      case run of
        Immediately t r \<Rightarrow> reported t r
      | After t r \<Rightarrow> reported t r
      | Never \<Rightarrow> res = None
      | Drains t \<Rightarrow> False)"

definition settled_verdict :: "settlement option \<Rightarrow> js_object" where
  "settled_verdict res = executor_verdict (case res of Some r \<Rightarrow> of_settlement r 0 | None \<Rightarrow> Timeout 0)"

lemma of_settlement_verdict: "executor_verdict (of_settlement r n) = settled_verdict (Some r)"
  by (simp add: settled_verdict_def of_settlement_def split: settlement.split)

lemma container_runs_handler:
  assumes "runs_shim H docker" and "code_of H img = Handler h" and "json_ok ev" and "ev \<noteq> JNull" and "opt_cpus options \<noteq> Some ''-v''"
    and "ends_as H (or_else (opt_timeoutMs options) 3000) (h ev) res"
  shows "\<exists>out. fst (executeVersionedFunction docker workDir uuid start img (Some ev) options fs) = Resolved out \<and> verdict out = settled_verdict res"
proof -
  let ?limit = "or_else (opt_timeoutMs options) 3000"
  let ?args = "container_args workDir uuid img event_mount options" and ?fs = "scratch_files workDir (Some ev) fs"
  note shim = container_shim [OF assms(5,3,4,2), of workDir uuid fs]
  have reported: ?thesis if r: "res = Some r" "serialisable r" and room: "bootMs H + (host_loadMs H + t) < killMs H ?limit"
      and proc: "shim_process H ?args ?fs = shim_report (Inr r) (host_loadMs H + t)" for r t
  proof -
    obtain body ms where b: "shim_report (Inr r) (host_loadMs H + t) = Wrote body (host_loadMs H + t)" "parse body = Some (JObj ms)"
      and v: "\<forall>d. verdict (assign ''durationMs'' d ms) = executor_verdict (of_settlement r 0)"
      by (rule report_verdict [OF r(2)])
    have "shim_process H ?args ?fs = Wrote body (host_loadMs H + t)" using proc b(1) by simp
    from runs_shim_wrote [OF assms(1) this room b(2), of start] v r(1)
    show ?thesis by (auto simp: execute_fst of_settlement_verdict)
  qed
  show ?thesis
  proof (cases "h ev")
    case Never
    then have "shim_process H ?args ?fs = Hangs" using shim by simp
    from runs_shim_killed [OF assms(1) this, of start ?limit] show ?thesis
      using assms(6) Never by (auto simp: execute_fst ends_as_def verdict_def outcome_timeout_def settled_verdict_def)
  qed (use assms(6) shim reported in \<open>auto simp: ends_as_def\<close>)
qed

text \<open>
  Both executors decide alike if the handler settles within both time limits with something that can
  be reported, or hangs.
\<close>

definition in_time :: "event_loop \<Rightarrow> shim_host \<Rightarrow> int \<Rightarrow> handler_run \<Rightarrow> bool" where
  "in_time L H timeoutMs run =
     (let room = (\<lambda>t. bootMs H + host_loadMs H + t < killMs H timeoutMs) in
      case run of
        Immediately t r \<Rightarrow> serialisable r \<and> room t
      | After t r \<Rightarrow> serialisable r \<and> t < fires L (timer_delay timeoutMs) \<and> room t
      | Never \<Rightarrow> True
      | Drains t \<Rightarrow> False)"

section \<open>Properties\<close>

text \<open>
  C37. The deadline of the in-process executor. For a module with a handler and a limit that \<open>setTimeout\<close>
  can represent: one that settles before the limit is reported as it settled; one that is later than
  the timer, or never settles, is reported as a timeout, and not before the limit has passed; but a
  handler that works synchronously is never timed out, however long it takes, because the timer
  cannot go off while it runs and its promise is settled first.
\<close>

theorem executeFunction_deadline:
  assumes "\<forall>d. d \<le> fires L d" and "load p = Handler h" and "limit = or_else opt 3000"
    and "1 \<le> limit" and "limit \<le> 2147483647"
  shows "case h event of
      Immediately t r \<Rightarrow> executeFunction load L loadMs p event opt = Outcome (of_settlement r (loadMs + t))
    | After t r \<Rightarrow>
        (int t < limit \<longrightarrow> executeFunction load L loadMs p event opt = Outcome (of_settlement r (loadMs + t))) \<and>
        (fires L (nat limit) < t \<longrightarrow>
          (\<exists>n. executeFunction load L loadMs p event opt = Outcome (Timeout n) \<and> limit \<le> int n))
    | _ \<Rightarrow> \<exists>n. executeFunction load L loadMs p event opt = Outcome (Timeout n) \<and> limit \<le> int n"
proof -
  have d: "timer_delay limit = nat limit" using assms(4,5) by (simp add: timer_delay_def)
  have "nat limit \<le> fires L (nat limit)" using assms(1) by blast
  then have "limit \<le> int (loadMs + fires L (nat limit))" using assms(4) by linarith
  then show ?thesis using \<open>nat limit \<le> fires L (nat limit)\<close> d
    by (auto simp: executeFunction_handler [of load p h, OF assms(2)] assms(3) [symmetric] split: handler_run.split)
qed



section \<open>Witnesses\<close>

text \<open>A daemon that runs the shim and stops a process when its time is over.\<close>

definition shim_docker :: "shim_host \<Rightarrow> docker" where
  "shim_docker H args timeoutMs fs =
     (let kill = killMs H timeoutMs;
          killed = \<lparr>exitCode = Some 137, stderr_text = [], result_file = None, closed_at = host_start H + int kill\<rparr>;
          ended = (\<lambda>code err res t. \<lparr>exitCode = Some code, stderr_text = err, result_file = res,
                                     closed_at = host_start H + int (bootMs H + t)\<rparr>)
      in case shim_process H args fs of
           Hangs \<Rightarrow> killed
         | RanDry t \<Rightarrow> if bootMs H + t < kill then ended 0 [] None t else killed
         | WriteFailed m t \<Rightarrow> if bootMs H + t < kill then ended 1 m None t else killed
         | Wrote text t \<Rightarrow>
             if bootMs H + t + lingerMs H < kill then ended 0 [] (Some text) (t + lingerMs H)
             else if bootMs H + t < kill then killed\<lparr>result_file := Some text\<rparr>
             else killed)"

lemma shim_docker_runs: "runs_shim H (shim_docker H)"
  by (auto simp: runs_shim_def shim_docker_def Let_def split: shim_exit.split)

definition demo_loop :: event_loop where
  "demo_loop = \<lparr>fires = (\<lambda>d. d), handler_first = False\<rparr>"

text \<open>Two handlers: one answers its event after 200 ms, one computes for ten seconds without a pause.\<close>

definition demo_echo :: handler_module where
  "demo_echo = Handler (\<lambda>e. After 200 (Resolves (Json e)))"

definition demo_busy_handler :: handler_module where
  "demo_busy_handler = Handler (\<lambda>e. Immediately 10000 (Resolves (Json e)))"

text \<open>Witness of C37: the limit is 3000 ms.\<close>

theorem executeFunction_deadline_witness:
  "executeFunction (\<lambda>_. demo_echo) demo_loop 5 ''f.js'' (JNum 7) None = Outcome (Success (Json (JNum 7)) 205)
   \<and> executeFunction (\<lambda>_. demo_busy_handler) demo_loop 5 ''f.js'' (JNum 7) None = Outcome (Success (Json (JNum 7)) 10005)"
proof -
  have L: "\<forall>d. d \<le> fires demo_loop d" by (simp add: demo_loop_def)
  have m: "(3000 :: int) = or_else None 3000" "1 \<le> (3000 :: int)" "(3000 :: int) \<le> 2147483647" by (simp_all add: or_else_def)
  have e: "(\<lambda>_. demo_echo) ''f.js'' = Handler (\<lambda>e. After 200 (Resolves (Json e)))"
    and b: "(\<lambda>_. demo_busy_handler) ''f.js'' = Handler (\<lambda>e. Immediately 10000 (Resolves (Json e)))"
    by (simp_all add: demo_echo_def demo_busy_handler_def)
  show ?thesis
    using executeFunction_deadline [OF L e m, where event = "JNum 7" and loadMs = 5]
      executeFunction_deadline [OF L b m, where event = "JNum 7" and loadMs = 5]
    by (simp add: of_settlement_def)
qed


definition demo_shim_host :: shim_host where
  "demo_shim_host = \<lparr>code_of = (\<lambda>_. demo_echo), host_loadMs = 5, bootMs = 300, lingerMs = 0, killMs = nat,
     host_start = 0, host_syntax = (\<lambda>_. [])\<rparr>"


end
