(* ===== verification/Samples.thy ===== *)
theory Samples
  imports Runtime Functions
begin

text \<open>
  The sample functions under \<open>functions/\<close>, as the user code the executors are given, and the type of
  outcomes: \<open>ExecutionOutcome\<close> of \<open>src/containerExecutor.ts\<close> and \<open>src/executor.ts\<close> as a check, which the
  outcomes of the shim and of the container pass.
\<close>

section \<open>Values in JavaScript\<close>

text \<open>
  A value in a template literal. \<open>numText\<close> is how a number that was written with a fraction or an
  exponent prints.
\<close>

fun comma_separated :: "string list \<Rightarrow> string" where
  "comma_separated [] = []"
| "comma_separated [x] = x"
| "comma_separated (x # xs) = x @ '','' @ comma_separated xs"

fun js_text :: "(string \<Rightarrow> string) \<Rightarrow> json \<Rightarrow> string" where
  "js_text numText JNull = ''null''"
| "js_text numText (JBool b) = (if b then ''true'' else ''false'')"
| "js_text numText (JNum i) = string_of_int i"
| "js_text numText (JFrac t) = numText t"
| "js_text numText (JStr s) = s"
| "js_text numText (JArr vs) = comma_separated (map (\<lambda>v. if v = JNull then [] else js_text numText v) vs)"
| "js_text numText (JObj ms) = ''[object Object]''"

definition truthy :: "(string \<Rightarrow> string) \<Rightarrow> json option \<Rightarrow> bool" where
  "truthy numText v =
     (case v of
        None \<Rightarrow> False
      | Some JNull \<Rightarrow> False
      | Some (JBool b) \<Rightarrow> b
      | Some (JNum i) \<Rightarrow> i \<noteq> 0
      | Some (JFrac t) \<Rightarrow> numText t \<noteq> ''0''
      | Some (JStr s) \<Rightarrow> s \<noteq> []
      | Some _ \<Rightarrow> True)"

section \<open>functions/\<close>

text \<open>\<open>ms\<close> is the time the handler computes; an \<open>async\<close> function that awaits nothing is settled when it returns.\<close>

definition message_object :: "string \<Rightarrow> json" where
  "message_object m = JObj [(''message'', JStr m)]"

definition hello_js :: "(string \<Rightarrow> string) \<Rightarrow> nat \<Rightarrow> handler_module" where
  "hello_js numText ms =
     Handler (\<lambda>event. Immediately ms
       (if event = JNull
        then Rejects (Err (''Cannot read properties of null (reading '' @ [CHR 0x27] @ ''name'' @ [CHR 0x27] @ '')''))
        else
          (let name = js_get ''name'' event in
           Resolves (Json (message_object (''Hello, '' @ (if truthy numText name then js_text numText (the name) else ''World'') @ ''!''))))))"

definition throws_js :: "nat \<Rightarrow> handler_module" where
  "throws_js ms = Handler (\<lambda>event. Immediately ms (Rejects (Err ''Something went wrong inside the function'')))"

text \<open>The interval keeps the process alive, the promise is never settled.\<close>

definition hangs_js :: handler_module where
  "hangs_js = Handler (\<lambda>event. Never)"

definition sync_js :: "nat \<Rightarrow> handler_module" where
  "sync_js ms = Handler (\<lambda>event. Immediately ms (Resolves (Json (message_object ''I am not async, but I still work''))))"

definition no_handler_js :: handler_module where
  "no_handler_js = NoHandler"

section \<open>The type of outcomes\<close>

definition ExecutionOutcome :: "js_object \<Rightarrow> bool" where
  "ExecutionOutcome out \<longleftrightarrow>
     (case member ''durationMs'' out of Some (JNum _) \<Rightarrow> True | Some (JFrac _) \<Rightarrow> True | _ \<Rightarrow> False) \<and>
     (case member ''status'' out of
        Some (JStr s) \<Rightarrow>
          s = ''success'' \<or> s = ''timeout'' \<or>
          s = ''error'' \<and> (case member ''error'' out of Some (JStr _) \<Rightarrow> True | _ \<Rightarrow> False)
      | _ \<Rightarrow> False)"

text \<open>What a handler resolves to is a value that \<open>JSON.parse\<close> could return.\<close>

definition run_values_ok :: "handler_run \<Rightarrow> bool" where
  "run_values_ok x =
     (case x of
        Immediately _ (Resolves (Json v)) \<Rightarrow> json_ok v
      | After _ (Resolves (Json v)) \<Rightarrow> json_ok v
      | _ \<Rightarrow> True)"

definition module_values_ok :: "handler_module \<Rightarrow> bool" where
  "module_values_ok code \<longleftrightarrow> (\<forall>h event. code = Handler h \<longrightarrow> run_values_ok (h event))"

lemma outcomes_typed:
  "ExecutionOutcome (assign ''durationMs'' (JNum d) (outcome_success v n))" "ExecutionOutcome (assign ''durationMs'' (JNum d) (outcome_error m n))"
  "ExecutionOutcome (assign ''durationMs'' (JNum d) [(''status'', JStr ''success''), (''durationMs'', JNum n)])"
  "ExecutionOutcome (outcome_timeout d)" "ExecutionOutcome (outcome_error m d)"
  by (simp_all add: ExecutionOutcome_def outcome_success_def outcome_error_def outcome_timeout_def member_def)

text \<open>Whatever the shim writes is the text of an outcome.\<close>

lemma report_cases:
  assumes "shim_report r t = Wrote body t'"
  obtains (returned) v where "r = Inr (Resolves (Json v))" and "body = stringify (JObj (outcome_success v (int t)))"
  | (silent) "body = stringify (JObj [(''status'', JStr ''success''), (''durationMs'', JNum (int t))])"
  | (failed) m where "body = stringify (JObj (outcome_error m (int t)))"
  using assms
  by (auto simp: shim_report_def simp del: stringify.simps split: sum.splits settlement.splits js_value.splits)

definition text_of_outcome :: "string \<Rightarrow> bool" where
  "text_of_outcome body \<longleftrightarrow> (\<exists>out. parse body = Some (JObj out) \<and>
     (\<forall>d. ExecutionOutcome (assign ''durationMs'' (JNum d) out) \<and> member ''durationMs'' (assign ''durationMs'' (JNum d) out) = Some (JNum d)))"

lemma text_of_outcomeI:
  assumes "json_ok (JObj out)" and "\<And>d. ExecutionOutcome (assign ''durationMs'' (JNum d) out)" and "\<And>d. member ''durationMs'' (assign ''durationMs'' (JNum d) out) = Some (JNum d)"
  shows "text_of_outcome (stringify (JObj out))"
  unfolding text_of_outcome_def using parse_stringify [OF assms(1)] assms(2,3) by blast

lemma report_typed:
  assumes "shim_report r t = Wrote body t'" and "\<And>v. r = Inr (Resolves (Json v)) \<Longrightarrow> json_ok v"
  shows "text_of_outcome body"
  using assms(1)
proof (cases rule: report_cases)
  case (returned v)
  show ?thesis unfolding returned(2)
    by (rule text_of_outcomeI) (use assms(2) [OF returned(1)] outcomes_typed in \<open>simp_all add: outcome_success_def member_def\<close>)
next
  case silent
  show ?thesis unfolding silent by (rule text_of_outcomeI) (use outcomes_typed in \<open>simp_all add: member_def\<close>)
next
  case (failed m)
  show ?thesis unfolding failed by (rule text_of_outcomeI) (use outcomes_typed in \<open>simp_all add: outcome_error_def member_def\<close>)
qed

lemma shim_typed:
  assumes "shim_main syntaxMessage loadMs event_json code = Wrote body t" and "module_values_ok code"
  shows "text_of_outcome body"
proof -
  have "text_of_outcome body" if "shim_report (Inl m) n = Wrote body t" for m n using report_typed [OF that] by simp
  moreover have "text_of_outcome body" if "shim_report (Inr (Rejects err)) n = Wrote body t" for err n using report_typed [OF that] by simp
  moreover have "text_of_outcome body" if "shim_report (Inr r) n = Wrote body t" "code = Handler h" "h event \<in> {Immediately k r, After k r}" for r n h event k
  proof (rule report_typed [OF that(1)])
    fix v
    assume "Inr r = (Inr (Resolves (Json v)) :: string + settlement)"
    moreover have "run_values_ok (h event)" using assms(2) that(2) by (simp add: module_values_ok_def)
    ultimately show "json_ok v" using that(3) by (auto simp: run_values_ok_def)
  qed
  ultimately show ?thesis
    using assms(1) unfolding shim_main_def by (auto split: option.splits handler_module.splits handler_run.splits) blast+
qed

section \<open>Properties\<close>


text \<open>
  The samples do what their comments say. In the in-process executor with its default limit,
  \<open>hello.js\<close> greets the name it is given or the world, \<open>throws.js\<close> is reported as an error and not
  thrown, \<open>hangs.js\<close> runs into the limit, \<open>sync.js\<close> works like an asynchronous handler, and the
  module without a handler is reported before anything is called.
\<close>

theorem samples_outcomes:
  "executeFunction (\<lambda>_. hello_js numText ms) L loadMs p (JObj [(''name'', JStr n)]) None =
     Outcome (Success (Json (message_object (''Hello, '' @ (if n = [] then ''World'' else n) @ ''!''))) (loadMs + ms))
   \<and> executeFunction (\<lambda>_. hello_js numText ms) L loadMs p (JObj []) None =
     Outcome (Success (Json (message_object ''Hello, World!'')) (loadMs + ms))
   \<and> executeFunction (\<lambda>_. throws_js ms) L loadMs p event None =
     Outcome (Failure ''Something went wrong inside the function'' (loadMs + ms))
   \<and> executeFunction (\<lambda>_. hangs_js) L loadMs p event None = Outcome (Timeout (loadMs + fires L 3000))
   \<and> executeFunction (\<lambda>_. sync_js ms) L loadMs p event None =
     Outcome (Success (Json (message_object ''I am not async, but I still work'')) (loadMs + ms))
   \<and> executeFunction (\<lambda>_. no_handler_js) L loadMs p event None =
     Outcome (Failure (''Module at '' @ quoted p @ '' does not export a '' @ quoted ''handler'' @ '' function'') loadMs)"
  by (simp add: executeFunction_def hello_js_def throws_js_def hangs_js_def sync_js_def no_handler_js_def truthy_def js_get_def member_def
      timer_delay_def or_else_def Let_def)

section \<open>Witnesses\<close>

definition demo_finished :: container_run where
  "demo_finished = \<lparr>exitCode = Some 0, stderr_text = [], result_file = Some (stringify (JObj (outcome_success (message_object ''Hello, World!'') 5))), closed_at = 400\<rparr>"


end
