(* ===== verification/Client.thy ===== *)
theory Client
  imports Api Pipeline Samples
begin

text \<open>
  The two k6 scripts under \<open>loadtest/\<close> as clients of the platform: \<open>smoke.js\<close> deploys and invokes one
  function, \<open>invoke-load.js\<close> deploys one in its set-up and invokes it in every iteration. What k6
  offers -- requests, sleeping, the clock -- is a parameter; \<open>api_k6\<close> is its instance in which the
  requests reach the API of this development and sleeping lets the build queue go on.
\<close>

section \<open>What the scripts use of k6\<close>

text \<open>The body of a response is \<^term>\<open>None\<close> where it is not JSON.\<close>

record k6_response =
  r_status :: nat
  r_json :: "json option"
  r_duration :: nat

record 'w k6 =
  k_http :: "request \<Rightarrow> 'w \<Rightarrow> k6_response \<times> 'w"
  k_sleep :: "nat \<Rightarrow> 'w \<Rightarrow> 'w"
  k_now :: "'w \<Rightarrow> nat"
  k_number :: "string \<Rightarrow> string"

text \<open>
  \<open>res.json(selector)\<close>: \<^term>\<open>Inl ()\<close> is the exception it throws if the body is not JSON,
  \<^term>\<open>Inr None\<close> is \<open>undefined\<close>.
\<close>

fun select :: "string list \<Rightarrow> json option \<Rightarrow> json option" where
  "select [] v = v"
| "select (k # ks) v = (case v of None \<Rightarrow> None | Some w \<Rightarrow> select ks (js_get k w))"

definition json_at :: "string list \<Rightarrow> k6_response \<Rightarrow> unit + json option" where
  "json_at ks r = (case r_json r of None \<Rightarrow> Inl () | Some v \<Rightarrow> Inr (select ks (Some v)))"

text \<open>A value in a template literal.\<close>

definition in_template :: "'w k6 \<Rightarrow> json option \<Rightarrow> string" where
  "in_template K v = (case v of None \<Rightarrow> ''undefined'' | Some w \<Rightarrow> js_text (k_number K) w)"

text \<open>The segments of the path of a URL; one slash at the end makes no difference.\<close>

fun split_slash :: "string \<Rightarrow> string list" where
  "split_slash [] = [[]]"
| "split_slash (c # cs) =
     (if c = CHR ''/'' then [] # split_slash cs
      else (case split_slash cs of [] \<Rightarrow> [[c]] | x # xs \<Rightarrow> (c # x) # xs))"

definition url_path :: "string \<Rightarrow> string list" where
  "url_path p =
     (let segs = tl (split_slash p) in if segs \<noteq> [] \<and> last segs = [] then butlast segs else segs)"

text \<open>The body travels as text; the server parses it.\<close>

definition json_text_body :: "json \<Rightarrow> request_body" where
  "json_text_body v = (case parse (stringify v) of None \<Rightarrow> Malformed_body | Some w \<Rightarrow> Json_body w)"

definition post_json :: "string \<Rightarrow> string option \<Rightarrow> json \<Rightarrow> request" where
  "post_json url auth v =
     \<lparr>rq_method = POST, rq_path = url_path url, rq_authorization = auth, rq_body = json_text_body v, rq_file = None\<rparr>"

definition post_file :: "string \<Rightarrow> string option \<Rightarrow> string \<Rightarrow> request" where
  "post_file url auth source =
     \<lparr>rq_method = POST, rq_path = url_path url, rq_authorization = auth, rq_body = No_body, rq_file = Some source\<rparr>"

definition get_url :: "string \<Rightarrow> string option \<Rightarrow> request" where
  "get_url url auth =
     \<lparr>rq_method = GET, rq_path = url_path url, rq_authorization = auth, rq_body = No_body, rq_file = None\<rparr>"

text \<open>The polling loop of both scripts; \<open>left\<close> of the 40 attempts remain.\<close>

fun await_build :: "'w k6 \<Rightarrow> request \<Rightarrow> json option \<Rightarrow> nat \<Rightarrow> 'w \<Rightarrow> (unit + json option) \<times> 'w" where
  "await_build K rq status 0 w = (Inr status, w)"
| "await_build K rq status (Suc left) w =
     (if status = Some (JStr ''SUCCESS'') \<or> status = Some (JStr ''FAILED'') then (Inr status, w)
      else
        (let w1 = k_sleep K 500 w;
             (buildRes, w2) = k_http K rq w1
         in case json_at [''status''] buildRes of
              Inl _ \<Rightarrow> (Inl (), w2)
            | Inr status' \<Rightarrow> await_build K rq status' left w2))"

definition credentials :: "string \<Rightarrow> json" where
  "credentials mail = JObj [(''email'', JStr mail), (''password'', JStr ''correct horse battery staple'')]"

section \<open>smoke.js\<close>

definition handler_source :: "string \<Rightarrow> string" where
  "handler_source message = ''exports.handler = async () => ({ message: '' @ quoted message @ '' });'' @ [CHR 0x0A]"

type_synonym checks = "(string \<times> bool) list"

text \<open>
  The checks that were made, in their order, and whether the script ran to its end; an exception
  ends it.
\<close>

definition smoke :: "'w k6 \<Rightarrow> 'w \<Rightarrow> (checks \<times> bool) \<times> 'w" where
  "smoke K w =
     (let mail = ''smoke-'' @ string_of_nat (k_now K w) @ ''@example.com'';
          (registered, w1) = k_http K (post_json ''/auth/register'' None (credentials mail)) w;
          c1 = (''register: 201'', r_status registered = 201);
          (loggedIn, w2) = k_http K (post_json ''/auth/login'' None (credentials mail)) w1;
          c2 = (''login: 200'', r_status loggedIn = 200)
      in case json_at [''accessToken''] loggedIn of
           Inl _ \<Rightarrow> (([c1, c2], False), w2)
         | Inr token \<Rightarrow>
             (let auth = Some (''Bearer '' @ in_template K token);
                  (register_fn, w3) = k_http K (post_json ''/functions'' auth (JObj [(''name'', JStr ''smoke-fn'')])) w2;
                  c3 = (''create function: 201'', r_status register_fn = 201);
                  (upload, w4) = k_http K (post_file ''/functions/smoke-fn/versions'' auth (handler_source ''smoke test ok'')) w3;
                  c4 = (''upload version: 201'', r_status upload = 201)
              in case json_at [''buildId''] upload of
                   Inl _ \<Rightarrow> (([c1, c2, c3, c4], False), w4)
                 | Inr buildId \<Rightarrow>
                     (case await_build K (get_url (''/functions/smoke-fn/builds/'' @ in_template K buildId) auth) (Some (JStr ''PENDING'')) 40 w4 of
                        (Inl _, w5) \<Rightarrow> (([c1, c2, c3, c4], False), w5)
                      | (Inr status, w5) \<Rightarrow>
                          (let c5 = (''build succeeded'', status = Some (JStr ''SUCCESS''));
                               (invoked, w6) = k_http K (post_json ''/functions/smoke-fn/invoke'' auth (JObj [])) w5;
                               c6 = (''invoke: 200'', r_status invoked = 200)
                           in case json_at [''result'', ''message''] invoked of
                                Inl _ \<Rightarrow> (([c1, c2, c3, c4, c5, c6], False), w6)
                              | Inr m \<Rightarrow>
                                  (([c1, c2, c3, c4, c5, c6, (''invoke: correct result'', m = Some (JStr ''smoke test ok''))], True), w6)))))"

section \<open>invoke-load.js\<close>

definition TARGET_VUS :: "string option \<Rightarrow> int option" where
  "TARGET_VUS VUS = (case VUS of None \<Rightarrow> Some 10 | Some v \<Rightarrow> if v = [] then Some 10 else number_of_string v)"

text \<open>The stages of \<open>options\<close>: duration in seconds and target.\<close>

definition load_stages :: "int option \<Rightarrow> (nat \<times> int option) list" where
  "load_stages vus = [(10, vus), (30, vus), (10, Some 0)]"

text \<open>\<open>setup\<close>; \<^term>\<open>Inl m\<close> is an exception, otherwise the header the iterations are given.\<close>

definition load_setup :: "'w k6 \<Rightarrow> 'w \<Rightarrow> (string + string) \<times> 'w" where
  "load_setup K w =
     (let mail = ''loadtest-'' @ string_of_nat (k_now K w) @ ''@example.com'';
          not_json = ''the body is not JSON'';
          (_, w1) = k_http K (post_json ''/auth/register'' None (credentials mail)) w;
          (loggedIn, w2) = k_http K (post_json ''/auth/login'' None (credentials mail)) w1
      in case json_at [''accessToken''] loggedIn of
           Inl _ \<Rightarrow> (Inl not_json, w2)
         | Inr token \<Rightarrow>
             (let auth = ''Bearer '' @ in_template K token;
                  (_, w3) = k_http K (post_json ''/functions'' (Some auth)
                     (JObj [(''name'', JStr ''loadtest-fn''), (''timeoutMs'', JNum 3000)])) w2;
                  (upload, w4) = k_http K (post_file ''/functions/loadtest-fn/versions'' (Some auth) (handler_source ''load test ok'')) w3
              in case json_at [''buildId''] upload of
                   Inl _ \<Rightarrow> (Inl not_json, w4)
                 | Inr buildId \<Rightarrow>
                     (case await_build K (get_url (''/functions/loadtest-fn/builds/'' @ in_template K buildId) (Some auth))
                         (Some (JStr ''PENDING'')) 40 w4 of
                        (Inl _, w5) \<Rightarrow> (Inl not_json, w5)
                      | (Inr status, w5) \<Rightarrow>
                          if status \<noteq> Some (JStr ''SUCCESS'')
                          then (Inl (''Setup failed: build did not succeed (status: '' @ in_template K status @ '')''), w5)
                          else (Inr auth, w5))))"

record load_metrics =
  successes :: nat
  backpressureRejections :: nat
  successLatency :: "nat list"

text \<open>One iteration, with the result of its only check.\<close>

definition load_iteration :: "'w k6 \<Rightarrow> string \<Rightarrow> load_metrics \<Rightarrow> 'w \<Rightarrow> (bool \<times> load_metrics) \<times> 'w" where
  "load_iteration K auth m w =
     (let (res, w') = k_http K (post_json ''/functions/loadtest-fn/invoke'' (Some auth) (JObj [])) w;
          m' = (if r_status res = 200
                then m\<lparr>successes := successes m + 1, successLatency := successLatency m @ [r_duration res]\<rparr>
                else if r_status res = 503 then m\<lparr>backpressureRejections := backpressureRejections m + 1\<rparr>
                else m)
      in ((r_status res = 200 \<or> r_status res = 503, m'), w'))"

section \<open>The platform behind the scripts\<close>

text \<open>
  How responses are written as JSON: the bodies the scripts read, as the handlers return them; how Nest
  writes dates, numbers with a fraction and all other bodies is a parameter, as is how long a request takes.
\<close>

record writer =
  w_date :: "nat \<Rightarrow> string"
  w_other :: "payload \<Rightarrow> json option"
  w_took :: "response \<Rightarrow> nat"
  w_number :: "string \<Rightarrow> string"

fun status_text :: "build_status \<Rightarrow> string" where
  "status_text PENDING = ''PENDING''"
| "status_text RUNNING = ''RUNNING''"
| "status_text SUCCESS = ''SUCCESS''"
| "status_text FAILED = ''FAILED''"

definition nullable :: "('a \<Rightarrow> json) \<Rightarrow> 'a option \<Rightarrow> json" where
  "nullable f x = (case x of None \<Rightarrow> JNull | Some y \<Rightarrow> f y)"

definition build_object :: "(nat \<Rightarrow> string) \<Rightarrow> build \<Rightarrow> js_object" where
  "build_object date b =
     (let d = nullable (\<lambda>t. JStr (date t)) in
      [(''id'', JStr (build_id b)), (''functionId'', JStr (build_functionId b)), (''sourceObjectKey'', JStr (sourceObjectKey b)),
       (''status'', JStr (status_text (build_status b))), (''imageTag'', nullable JStr (build_imageTag b)),
       (''errorMessage'', nullable JStr (build_errorMessage b)), (''createdAt'', JStr (date (build_createdAt b))),
       (''startedAt'', d (startedAt b)), (''finishedAt'', d (finishedAt b)), (''publishedToStreamAt'', d (publishedToStreamAt b))])"

definition body_json :: "writer \<Rightarrow> payload \<Rightarrow> json option" where
  "body_json W p =
     (case p of
        User_body i \<Rightarrow> Some (JObj [(''userId'', JStr i)])
      | Token_body t \<Rightarrow> Some (JObj [(''accessToken'', JStr t)])
      | Build_accepted_body x \<Rightarrow> Some (JObj [(''buildId'', JStr (fst x)), (''status'', JStr (status_text (snd x)))])
      | Build_body b \<Rightarrow> Some (JObj (build_object (w_date W) b))
      | Invoke_body ms \<Rightarrow> Some (JObj ms)
      | _ \<Rightarrow> w_other W p)"

definition k6_of :: "writer \<Rightarrow> response \<Rightarrow> k6_response" where
  "k6_of W r = \<lparr>r_status = rs_status r, r_json = body_json W (rs_body r), r_duration = w_took W r\<rparr>"

text \<open>The world counts what the script does: the \<open>n\<close>-th request is given \<open>env n\<close>, the \<open>n\<close>-th sleep lets \<open>bg n\<close> happen.\<close>

definition api_k6 ::
  "writer \<Rightarrow> (nat \<Rightarrow> ('s, 'r) env) \<Rightarrow> (nat \<Rightarrow> db \<times> 'r \<Rightarrow> db \<times> 'r) \<Rightarrow> (nat \<times> ('s, 'r) api_state) k6" where
  "api_k6 W env bg =
     \<lparr>k_http = (\<lambda>rq (n, st). let (rsp, st') = api (env n) rq st in (k6_of W rsp, (Suc n, st'))),
      k_sleep = (\<lambda>ms (n, st). let (db', s') = bg n (st_db st, st_redis st) in (Suc n, st\<lparr>st_db := db', st_redis := s'\<rparr>)),
      k_now = (\<lambda>(n, st). e_nowMs (env n)), k_number = w_number W\<rparr>"

section \<open>Requests of the scripts\<close>

lemma json_text_body_ok: "json_ok v \<Longrightarrow> json_text_body v = Json_body v"
  by (simp add: json_text_body_def parse_stringify)

lemma split_slash_plain: "CHR ''/'' \<notin> set i \<Longrightarrow> split_slash i = [i]"
  by (induction i) auto

lemma url_paths:
  "url_path ''/auth/register'' = [''auth'', ''register'']" "url_path ''/auth/login'' = [''auth'', ''login'']"
  "url_path ''/functions'' = [''functions'']" "url_path ''/functions/smoke-fn/versions'' = [''functions'', ''smoke-fn'', ''versions'']"
  "url_path ''/functions/smoke-fn/invoke'' = [''functions'', ''smoke-fn'', ''invoke'']"
  "url_path ''/functions/loadtest-fn/versions'' = [''functions'', ''loadtest-fn'', ''versions'']"
  "url_path ''/functions/loadtest-fn/invoke'' = [''functions'', ''loadtest-fn'', ''invoke'']"
  by (simp_all add: url_path_def)

lemma url_path_builds:
  assumes "CHR ''/'' \<notin> set i" and "i \<noteq> []"
  shows "url_path (''/functions/smoke-fn/builds/'' @ i) = [''functions'', ''smoke-fn'', ''builds'', i]"
    and "url_path (''/functions/loadtest-fn/builds/'' @ i) = [''functions'', ''loadtest-fn'', ''builds'', i]"
  using split_slash_plain [OF assms(1)] assms(2) by (simp_all add: url_path_def)

lemma segments:
  "segment_is ''auth'' ''auth''" "segment_is ''functions'' ''functions''" "\<not> segment_is ''functions'' ''auth''"
  "segment_is ''versions'' ''versions''" "segment_is ''invoke'' ''invoke''" "segment_is ''builds'' ''builds''"
  "segment_is ''login'' ''login''" "\<not> segment_is ''login'' ''register''" "segment_is ''register'' ''register''"
  "\<not> segment_is ''versions'' ''invocations''" "\<not> segment_is ''versions'' ''metrics''" "\<not> segment_is ''versions'' ''invoke''"
  by code_simp+

lemma routes_of_scripts:
  "route_of POST [''auth'', ''register''] = Some Auth_register" "route_of POST [''auth'', ''login''] = Some Auth_login"
  "route_of POST [''functions''] = Some Register_function_route"
  "name \<noteq> [] \<Longrightarrow> route_of POST [''functions'', name, ''versions''] = Some (Create_version name)"
  "name \<noteq> [] \<Longrightarrow> i \<noteq> [] \<Longrightarrow> route_of GET [''functions'', name, ''builds'', i] = Some (Get_build name i)"
  "name \<noteq> [] \<Longrightarrow> route_of POST [''functions'', name, ''invoke''] = Some (Invoke name)"
  by (simp_all add: route_of_def auth_routes_def functions_routes_def build_routes_def is_get_def segments)

section \<open>What the API answers to them\<close>

text \<open>No database call is refused, and nobody else is active.\<close>

definition calm :: "('s, 'r) env \<Rightarrow> bool" where
  "calm E \<longleftrightarrow> e_faults E = no_faults \<and> e_meanwhile E = (\<lambda>d. d)"

definition account :: "('s, 'r) env \<Rightarrow> string \<Rightarrow> user" where
  "account E mail = \<lparr>user_id = e_newId E, email = mail,
     passwordHash = bcrypt_hash (e_crypto E) BCRYPT_ROUNDS (e_salt E) ''correct horse battery staple'', user_createdAt = e_now E\<rparr>"

lemma credentials_ok: "json_ok (credentials mail)"
  by (simp add: credentials_def)

lemma api_registers:
  assumes "calm E" and "e_isEmail E mail" and "mail \<notin> email ` set (users (st_db st))" and "e_newId E \<notin> user_id ` set (users (st_db st))"
  shows "api E (post_json ''/auth/register'' None (credentials mail)) st =
    (\<lparr>rs_status = 201, rs_functionError = None, rs_body = User_body (e_newId E)\<rparr>,
     st\<lparr>st_db := (st_db st)\<lparr>users := users (st_db st) @ [account E mail]\<rparr>\<rparr>)"
  using assms
  by (simp add: api_def post_json_def url_paths routes_of_scripts json_text_body_ok [OF credentials_ok] parser_refuses_def)
    (simp add: credentials_def served_def auth_register_def RegisterDto_def body_or_empty_def member_def register_user_def user_create_def
      account_def respond_def calm_def)

lemma api_logs_in:
  assumes "calm E" and "e_isEmail E mail" and "bcrypt_ok (e_crypto E)" and "e_crypto E0 = e_crypto E"
    and "users (st_db st) = us @ [account E0 mail]" and "mail \<notin> email ` set us"
  shows "api E (post_json ''/auth/login'' None (credentials mail)) st =
    (\<lparr>rs_status = 200, rs_functionError = None,
      rs_body = Token_body (jwt_sign (e_crypto E) JWT_EXPIRES_IN (e_now E) \<lparr>jwt_sub = e_newId E0, jwt_scopes = ALL_SCOPES\<rparr>)\<rparr>, st)"
proof -
  have "find (\<lambda>u. email u = mail) (users (st_db st)) = Some (account E0 mail)"
    using find_None_key [of email mail us] assms(6) by (simp add: assms(5) find_append account_def)
  then show ?thesis using assms
    by (simp add: api_def post_json_def url_paths routes_of_scripts json_text_body_ok [OF credentials_ok] parser_refuses_def)
      (simp add: credentials_def served_def auth_login_def LoginDto_def body_or_empty_def member_def login_def account_def respond_def
        bcrypt_ok_def calm_def)
qed

text \<open>A header that the guard takes for the account \<open>u\<close> with all scopes.\<close>

abbreviation member_of :: "string \<Rightarrow> principal" where
  "member_of u \<equiv> \<lparr>principal_userId = u, principal_scopes = ALL_SCOPES\<rparr>"

definition lets_in :: "('s, 'r) env \<Rightarrow> string \<Rightarrow> string \<Rightarrow> bool" where
  "lets_in E auth u \<longleftrightarrow> (\<forall>db. AuthGuard (e_crypto E) (e_faults E) (e_now E) (Some auth) db = (Inr (member_of u), db))"

lemma token_lets_in:
  assumes "jwt_ok (e_crypto E)" and "e_now E < t + 7200"
  shows "lets_in E (''Bearer '' @ jwt_sign (e_crypto E) JWT_EXPIRES_IN t \<lparr>jwt_sub = u, jwt_scopes = ALL_SCOPES\<rparr>) u"
proof -
  let ?token = "jwt_sign (e_crypto E) JWT_EXPIRES_IN t \<lparr>jwt_sub = u, jwt_scopes = ALL_SCOPES\<rparr>"
  have "jwt_verify (e_crypto E) (e_now E) ?token = Inr \<lparr>jwt_sub = u, jwt_scopes = ALL_SCOPES\<rparr>" and "\<not> startsWith ''mc_'' ?token"
    using assms by (simp_all add: jwt_ok_def JWT_EXPIRES_IN_def)
  then show ?thesis using AuthGuard_jwt [of ?token "e_crypto E" "e_faults E" "e_now E"] by (simp only: lets_in_def) simp
qed

lemma all_scopes:
  "ScopesGuard [''functions:write''] (member_of u) = Inr ()" "ScopesGuard [''functions:read''] (member_of u) = Inr ()"
  "ScopesGuard [''functions:invoke''] (member_of u) = Inr ()"
  by (simp_all add: ScopesGuard_def ALL_SCOPES_def API_SCOPES_def)

lemmas behind_guards = scoped_def guarded_def lets_in_def all_scopes

definition new_function :: "('s, 'r) env \<Rightarrow> string \<Rightarrow> string \<Rightarrow> func" where
  "new_function E u name = \<lparr>fn_id = e_newId E, fn_userId = u, fn_name = name, memoryMb = 128, timeoutMs = 3000, fn_createdAt = e_now E\<rparr>"

lemma api_creates_function:
  assumes "calm E" and "lets_in E auth u" and "json_ok v" and "\<exists>t \<in> {None, Some 3000}. RegisterFunctionDto (e_fracInt E) v = Inr \<lparr>rf_name = name, rf_memoryMb = None, rf_timeoutMs = t\<rparr>"
    and "\<exists>ms. v = JObj ms" and "u \<in> user_id ` set (users (st_db st))" and "e_newId E \<notin> fn_id ` set (funcs (st_db st))"
    and "\<forall>f \<in> set (funcs (st_db st)). fn_userId f \<noteq> u"
  shows "api E (post_json ''/functions'' (Some auth) v) st =
    (\<lparr>rs_status = 201, rs_functionError = None, rs_body = Function_body (new_function E u name)\<rparr>,
     st\<lparr>st_db := (st_db st)\<lparr>funcs := funcs (st_db st) @ [new_function E u name]\<rparr>\<rparr>)"
proof -
  from assms(4) obtain t where t: "t \<in> {None, Some 3000}" "RegisterFunctionDto (e_fracInt E) v = Inr \<lparr>rf_name = name, rf_memoryMb = None, rf_timeoutMs = t\<rparr>" by blast
  have "(u, name) \<notin> fn_key ` set (funcs (st_db st))" using assms(8) by auto
  then have "function_create (new_function E u name) (st_db st) = Inr ((st_db st)\<lparr>funcs := funcs (st_db st) @ [new_function E u name]\<rparr>)"
    using assms(6,7) by (simp add: function_create_def new_function_def)
  moreover have "or_else t 3000 = 3000" using t(1) by (auto simp: or_else_def)
  ultimately have "functions_register (e_crypto E) (e_faults E) (e_fracInt E) (e_newId E) (e_now E) (Some auth) v (st_db st) =
      (Inr (new_function E u name), (st_db st)\<lparr>funcs := funcs (st_db st) @ [new_function E u name]\<rparr>)"
    using assms(1,2) t(2)
    by (simp add: functions_register_def behind_guards register_function_def calm_def or_else_def flip: new_function_def)
      (simp add: Let_def)
  then show ?thesis using assms(3,5)
    by (auto simp: api_def post_json_def url_paths routes_of_scripts json_text_body_ok parser_refuses_def served_def respond_def body_or_empty_def)
qed

lemma get_function_only:
  assumes "\<forall>f \<in> set fs. fn_userId f \<noteq> u" and "funcs db = fs @ [f]" and "fn_userId f = u"
  shows "get_function no_faults u (fn_name f) db = Inr f"
proof -
  have "find (\<lambda>x. fn_key x = (u, fn_name f)) fs = None" using assms(1) by (auto simp: find_None_iff)
  then show ?thesis using assms(2,3) by (simp add: get_function_def function_findUnique_def find_append)
qed

lemma api_accepts_version:
  assumes "calm E" and "lets_in E auth u" and "get_function no_faults u name (st_db st) = Inr f" and "name \<noteq> []"
    and "rq = \<lparr>rq_method = POST, rq_path = [''functions'', name, ''versions''], rq_authorization = Some auth, rq_body = No_body, rq_file = Some source\<rparr>"
    and "putObject (e_s3 E) (e_cfg E) (source_object_key (fn_id f) (e_uuid E)) source (st_objects st) = (Inr x, objs)"
    and "e_newId E \<notin> build_id ` set (builds (st_db st))" and "fn_id f \<in> fn_id ` set (funcs (st_db st))"
  shows "api E rq st =
    (\<lparr>rs_status = 201, rs_functionError = None, rs_body = Build_accepted_body (e_newId E, PENDING)\<rparr>,
     st\<lparr>st_db := (st_db st)\<lparr>builds := builds (st_db st) @
          [new_build (e_newId E) (e_now E) (fn_id f) (source_object_key (fn_id f) (e_uuid E))]\<rparr>, st_objects := objs\<rparr>)"
proof -
  have "build_create (new_build (e_newId E) (e_now E) (fn_id f) (source_object_key (fn_id f) (e_uuid E))) (st_db st) =
      Inr ((st_db st)\<lparr>builds := builds (st_db st) @ [new_build (e_newId E) (e_now E) (fn_id f) (source_object_key (fn_id f) (e_uuid E))]\<rparr>)"
    using assms(7,8) by (auto simp: build_create_def new_build_def)
  then show ?thesis using assms(1-6)
    by (simp add: api_def routes_of_scripts parser_refuses_def createVersion_def lets_in_def all_scopes calm_def submitBuild_def Let_def respond_def)
      (simp add: new_build_def)
qed

lemma api_shows_build:
  assumes "calm E" and "lets_in E auth u" and "get_function no_faults u name (st_db st) = Inr f" and "name \<noteq> []" and "i \<noteq> []"
    and "rq = \<lparr>rq_method = GET, rq_path = [''functions'', name, ''builds'', i], rq_authorization = Some auth, rq_body = No_body, rq_file = None\<rparr>"
    and "build_find i (st_db st) = Some b" and "build_functionId b = fn_id f"
  shows "api E rq st = (\<lparr>rs_status = 200, rs_functionError = None, rs_body = Build_body b\<rparr>, st)"
  using assms
  by (simp add: api_def routes_of_scripts parser_refuses_def served_def builds_getBuild_def behind_guards calm_def getBuild_def respond_def)

lemma api_runs_function:
  assumes "calm E" and "lets_in E auth u" and "get_function no_faults u name (st_db st) = Inr f" and "name \<noteq> []"
    and "rq = \<lparr>rq_method = POST, rq_path = [''functions'', name, ''invoke''], rq_authorization = Some auth, rq_body = Json_body ev, rq_file = None\<rparr>"
    and "latestVersion (fn_id f) (st_db st) = Some v" and "fst (hasSpareCapacity (e_redis E) (e_nowDate E) (st_redis st)) = spare"
    and "\<not> parser_refuses (Json_body ev)"
  shows "fst (api E rq st) =
    (case invoke_answer spare (e_dispatch E (job_of f v (Some ev))) name of
       Inl e \<Rightarrow> error_response e
     | Inr outcome \<Rightarrow> (let r = invoke_response outcome in
         \<lparr>rs_status = resp_status r, rs_functionError = resp_functionError r, rs_body = Invoke_body (resp_body r)\<rparr>))"
proof -
  obtain s1 where "hasSpareCapacity (e_redis E) (e_nowDate E) (st_redis st) = (spare, s1)" using assms(7) by (metis prod.collapse)
  then show ?thesis using assms(1-5,8) invoke_found [OF assms(3) _ assms(6)]
    by (simp add: api_def routes_of_scripts body_or_empty_def functions_invoke_def behind_guards calm_def Let_def split: sum.split)
qed

lemma answer_status:
  "rs_status (case invoke_answer spare reply name of
       Inl e \<Rightarrow> error_response e
     | Inr outcome \<Rightarrow> (let r = invoke_response outcome in
         \<lparr>rs_status = resp_status r, rs_functionError = resp_functionError r, rs_body = Invoke_body (resp_body r)\<rparr>)) =
   (case spare of Inl _ \<Rightarrow> 500 | Inr b \<Rightarrow> if b \<and> (\<exists>out. reply = Inr out \<and> out \<noteq> JNull) then 200 else 503)"
  by (cases spare; cases reply) (auto simp: invoke_answer_def invoke_response_def error_response_def Let_def split: bool.split)

section \<open>The polling loop\<close>

lemma await_done: "await_build K rq (Some (JStr ''SUCCESS'')) left w = (Inr (Some (JStr ''SUCCESS'')), w)"
  by (cases left) simp_all

lemma api_k6_simps:
  "k_http (api_k6 W env bg) rq (n, st) = (k6_of W (fst (api (env n) rq st)), (Suc n, snd (api (env n) rq st)))"
  "k_sleep (api_k6 W env bg) ms (n, st) = (Suc n, st\<lparr>st_db := fst (bg n (st_db st, st_redis st)), st_redis := snd (bg n (st_db st, st_redis st))\<rparr>)"
  "k_now (api_k6 W env bg) (n, st) = e_nowMs (env n)"
  by (simp_all add: api_k6_def split: prod.split)

lemma json_status: "json_at [''status''] (k6_of W \<lparr>rs_status = c, rs_functionError = e, rs_body = Build_body b\<rparr>) = Inr (Some (JStr (status_text (build_status b))))"
  by (simp add: json_at_def k6_of_def body_json_def build_object_def js_get_def member_def Let_def)

text \<open>The build is pending for \<open>k\<close> polls and has succeeded at the next: the loop ends there, within its 40 attempts.\<close>

lemma await_succeeds:
  assumes "\<And>j. j < k \<Longrightarrow> bg (n + 2 * j) = (\<lambda>x. x)" and "k < left"
    and "\<And>j. api (env j) rq st = (\<lparr>rs_status = 200, rs_functionError = None, rs_body = Build_body b\<rparr>, st)" and "build_status b = PENDING"
    and "bg (n + 2 * k) (st_db st, st_redis st) = (db', s')" and "st' = st\<lparr>st_db := db', st_redis := s'\<rparr>"
    and "\<And>j. api (env j) rq st' = (\<lparr>rs_status = 200, rs_functionError = None, rs_body = Build_body b'\<rparr>, st')" and "build_status b' = SUCCESS"
  shows "await_build (api_k6 W env bg) rq (Some (JStr ''PENDING'')) left (n, st) = (Inr (Some (JStr ''SUCCESS'')), (n + 2 * k + 2, st'))"
  using assms(1,2,5)
proof (induction k arbitrary: n left)
  case 0
  then obtain left' where "left = Suc left'" by (cases left) auto
  moreover have "bg n (st_db st, st_redis st) = (db', s')" using 0(3) by simp
  ultimately show ?case using assms(6-8) by (simp add: api_k6_simps json_status await_done)
next
  case (Suc k)
  then obtain left' where left: "left = Suc left'" by (cases left) auto
  have id: "bg n = (\<lambda>x. x)" using Suc(2) [of 0] by simp
  have "await_build (api_k6 W env bg) rq (Some (JStr ''PENDING'')) left' (n + 2, st) = (Inr (Some (JStr ''SUCCESS'')), (n + 2 + 2 * k + 2, st'))"
  proof (rule Suc.IH)
    show "bg (n + 2 + 2 * j) = (\<lambda>x. x)" if "j < k" for j using Suc(2) [of "Suc j"] that by simp
  qed (use Suc.prems left in simp_all)
  then show ?case using left id assms(3,4) by (simp add: api_k6_simps json_status)
qed

section \<open>A deployment\<close>

text \<open>
  The services do what they promise, no call to the database is refused, the mail address is valid,
  and no request comes later than the login's token lasts.
\<close>

definition script_envs :: "crypto \<Rightarrow> 'r redis \<Rightarrow> string \<Rightarrow> (nat \<Rightarrow> ('s, 'r) env) \<Rightarrow> bool" where
  "script_envs C R mail env \<longleftrightarrow> bcrypt_ok C \<and> jwt_ok C \<and>
     (\<forall>n. calm (env n) \<and> e_crypto (env n) = C \<and> e_redis (env n) = R \<and> e_isEmail (env n) mail \<and> e_now (env n) < e_now (env 1) + 7200)"

text \<open>
  The mail address is new, the generated identifiers are (requests 0, 2 and 3 create the account, the
  function and the build), and no build is waiting.
\<close>

definition clean_start :: "'r redis \<Rightarrow> string \<Rightarrow> (nat \<Rightarrow> ('s, 'r) env) \<Rightarrow> ('s, 'r) api_state \<Rightarrow> bool" where
  "clean_start R mail env st \<longleftrightarrow>
     db_wf (st_db st) \<and> mail \<notin> email ` set (users (st_db st)) \<and> e_newId (env 0) \<notin> user_id ` set (users (st_db st)) \<and>
     e_newId (env 2) \<notin> fn_id ` set (funcs (st_db st)) \<and> e_newId (env 3) \<notin> build_id ` set (builds (st_db st)) \<and>
     e_newId (env 3) \<noteq> [] \<and> CHR ''/'' \<notin> set (e_newId (env 3)) \<and>
     filter unpublished (builds (st_db st)) = [] \<and> queue_idle (view R (st_redis st))"

lemma fresh_function_number:
  assumes "db_wf db" and "i \<notin> fn_id ` set (funcs db)" and "functionVersions db' = functionVersions db"
  shows "nextVersionNumber i db' = 1"
proof -
  have "\<forall>v \<in> set (functionVersions db'). ver_functionId v \<noteq> i" using assms by (auto simp: db_wf_def wf_defs)
  then have "latestVersion i db' = None" by (simp add: latestVersion_None)
  then show ?thesis by (simp add: nextVersionNumber_def)
qed

text \<open>The rows a script has created when its build is accepted.\<close>

definition uploaded_db :: "(nat \<Rightarrow> ('s, 'r) env) \<Rightarrow> string \<Rightarrow> string \<Rightarrow> db \<Rightarrow> db" where
  "uploaded_db env mail name db =
     db\<lparr>users := users db @ [account (env 0) mail], funcs := funcs db @ [new_function (env 2) (e_newId (env 0)) name],
        builds := builds db @ [new_build (e_newId (env 3)) (e_now (env 3)) (e_newId (env 2))
          (source_object_key (e_newId (env 2)) (e_uuid (env 3)))]\<rparr>"

lemma clean_start_owner:
  assumes "clean_start R mail env st"
  shows "\<forall>f \<in> set (funcs (st_db st)). fn_userId f \<noteq> e_newId (env 0)"
proof -
  have "\<forall>f \<in> set (funcs (st_db st)). fn_userId f \<in> user_id ` set (users (st_db st))"
    using assms by (simp add: clean_start_def db_wf_def funcs_wf_def)
  then show ?thesis using assms unfolding clean_start_def by metis
qed

lemma uploaded_db_wf:
  assumes "clean_start R mail env st"
  shows "db_wf (uploaded_db env mail name (st_db st))"
proof -
  let ?db = "st_db st"
  let ?db1 = "?db\<lparr>users := users ?db @ [account (env 0) mail]\<rparr>"
  let ?db2 = "?db1\<lparr>funcs := funcs ?db @ [new_function (env 2) (e_newId (env 0)) name]\<rparr>"
  note fn = clean_start_owner [OF assms]
  have "user_create (account (env 0) mail) ?db = Inr ?db1" using assms by (simp add: clean_start_def user_create_def account_def)
  then have "db_wf ?db1" using user_create_wf assms unfolding clean_start_def by blast
  moreover have "function_create (new_function (env 2) (e_newId (env 0)) name) ?db1 = Inr ?db2"
    using assms fn by (auto simp: clean_start_def function_create_def new_function_def account_def)
  ultimately have "db_wf ?db2" using function_create_wf by blast
  moreover have "build_create (new_build (e_newId (env 3)) (e_now (env 3)) (e_newId (env 2)) (source_object_key (e_newId (env 2)) (e_uuid (env 3)))) ?db2
      = Inr (uploaded_db env mail name ?db)"
    using assms by (simp add: clean_start_def build_create_def new_build_def new_function_def uploaded_db_def)
  ultimately show ?thesis using build_create_wf by blast
qed

text \<open>The first four requests of a script, up to the accepted build.\<close>

definition upload_request :: "string \<Rightarrow> string \<Rightarrow> string \<Rightarrow> request" where
  "upload_request name auth source =
     \<lparr>rq_method = POST, rq_path = [''functions'', name, ''versions''], rq_authorization = Some auth, rq_body = No_body, rq_file = Some source\<rparr>"

definition script_token :: "(nat \<Rightarrow> ('s, 'r) env) \<Rightarrow> string" where
  "script_token env = jwt_sign (e_crypto (env 1)) JWT_EXPIRES_IN (e_now (env 1)) \<lparr>jwt_sub = e_newId (env 0), jwt_scopes = ALL_SCOPES\<rparr>"

lemma script_token_lets_in:
  assumes "script_envs C R mail env"
  shows "lets_in (env n) (''Bearer '' @ script_token env) (e_newId (env 0))"
proof -
  have "e_crypto (env 1) = e_crypto (env n)" "jwt_ok (e_crypto (env n))" "e_now (env n) < e_now (env 1) + 7200"
    using assms by (simp_all add: script_envs_def)
  then show ?thesis using token_lets_in unfolding script_token_def by metis
qed

lemma script_uploads:
  assumes envs: "script_envs C R mail env" and start: "clean_start R mail env st" and "name \<noteq> []" and v: "json_ok v" "\<exists>ms. v = JObj ms"
    "\<exists>t \<in> {None, Some 3000}. RegisterFunctionDto (e_fracInt (env 2)) v = Inr \<lparr>rf_name = name, rf_memoryMb = None, rf_timeoutMs = t\<rparr>"
    and put: "putObject (e_s3 (env 3)) (e_cfg (env 3)) (source_object_key (e_newId (env 2)) (e_uuid (env 3))) source (st_objects st) = (Inr x, objs)"
  obtains st1 st2 r1 r3 where
    "api (env 0) (post_json ''/auth/register'' None (credentials mail)) st = (r1, st1)" "rs_status r1 = 201"
    "api (env 1) (post_json ''/auth/login'' None (credentials mail)) st1 = (\<lparr>rs_status = 200, rs_functionError = None, rs_body = Token_body (script_token env)\<rparr>, st1)"
    "api (env 2) (post_json ''/functions'' (Some (''Bearer '' @ script_token env)) v) st1 = (r3, st2)" "rs_status r3 = 201"
    "api (env 3) (upload_request name (''Bearer '' @ script_token env) source) st2 =
       (\<lparr>rs_status = 201, rs_functionError = None, rs_body = Build_accepted_body (e_newId (env 3), PENDING)\<rparr>,
        st\<lparr>st_db := uploaded_db env mail name (st_db st), st_objects := objs\<rparr>)"
proof -
  let ?u = "e_newId (env 0)" and ?db = "st_db st" and ?auth = "''Bearer '' @ script_token env" and ?f = "new_function (env 2) (e_newId (env 0)) name"
  define st1 where "st1 = st\<lparr>st_db := ?db\<lparr>users := users ?db @ [account (env 0) mail]\<rparr>\<rparr>"
  define st2 where "st2 = st1\<lparr>st_db := (st_db st1)\<lparr>funcs := funcs ?db @ [?f]\<rparr>\<rparr>"
  have env: "calm (env n)" "e_isEmail (env n) mail" "bcrypt_ok (e_crypto (env n))" "e_crypto (env m) = e_crypto (env n)" for n m
    using envs by (simp_all add: script_envs_def)
  note [simp] = st1_def st2_def account_def new_function_def
  have 1: "api (env 0) (post_json ''/auth/register'' None (credentials mail)) st = (\<lparr>rs_status = 201, rs_functionError = None, rs_body = User_body ?u\<rparr>, st1)"
    using api_registers [OF env(1,2)] start by (simp add: clean_start_def)
  have 2: "api (env 1) (post_json ''/auth/login'' None (credentials mail)) st1 = (\<lparr>rs_status = 200, rs_functionError = None, rs_body = Token_body (script_token env)\<rparr>, st1)"
    unfolding script_token_def by (rule api_logs_in [OF env, of _ "users ?db"]) (use start in \<open>simp_all add: clean_start_def\<close>)
  have 3: "api (env 2) (post_json ''/functions'' (Some ?auth) v) st1 = (\<lparr>rs_status = 201, rs_functionError = None, rs_body = Function_body ?f\<rparr>, st2)"
    using api_creates_function [OF env(1) script_token_lets_in [OF envs] v(1,3,2), of st1] start clean_start_owner [OF start]
    by (simp add: clean_start_def)
  have f: "get_function no_faults ?u name (st_db st2) = Inr ?f"
    using get_function_only [of "funcs ?db" ?u "st_db st2" ?f] clean_start_owner [OF start] by simp
  have 4: "api (env 3) (upload_request name ?auth source) st2 =
      (\<lparr>rs_status = 201, rs_functionError = None, rs_body = Build_accepted_body (e_newId (env 3), PENDING)\<rparr>,
        st\<lparr>st_db := uploaded_db env mail name ?db, st_objects := objs\<rparr>)"
    using api_accepts_version [OF env(1) [of 3] script_token_lets_in [OF envs, of 3] f assms(3) upload_request_def _] start put
    by (simp add: clean_start_def uploaded_db_def)
  show thesis by (rule that [OF 1 _ 2 3 _ 4]) simp_all
qed

text \<open>The build, before and after the queue has brought it to its end.\<close>

definition status_request :: "string \<Rightarrow> string \<Rightarrow> string \<Rightarrow> request" where
  "status_request name i auth =
     \<lparr>rq_method = GET, rq_path = [''functions'', name, ''builds'', i], rq_authorization = Some auth, rq_body = No_body, rq_file = None\<rparr>"

lemma script_builds:
  assumes envs: "script_envs C R mail env" and start: "clean_start R mail env st" and live: "live_streams R" and name: "name \<noteq> []"
    and cx: "undisturbed cx (st_db st)" and st3: "st3 = st\<lparr>st_db := uploaded_db env mail name (st_db st), st_objects := objs\<rparr>"
    and exec: "exec \<lparr>bp_sourceObjectKey = source_object_key (e_newId (env 2)) (e_uuid (env 3)), bp_functionName = name, bp_versionNumber = 1\<rparr> = Inr ref"
    and run: "background R msg exec cx now c (st_db st3, st_redis st3) = (db', s')" and st4: "st4 = st3\<lparr>st_db := db', st_redis := s'\<rparr>"
  obtains b b' f v where "build_status b = PENDING" "build_status b' = SUCCESS"
    "\<And>n. api (env n) (status_request name (e_newId (env 3)) (''Bearer '' @ script_token env)) st3 = (\<lparr>rs_status = 200, rs_functionError = None, rs_body = Build_body b\<rparr>, st3)"
    "\<And>n. api (env n) (status_request name (e_newId (env 3)) (''Bearer '' @ script_token env)) st4 = (\<lparr>rs_status = 200, rs_functionError = None, rs_body = Build_body b'\<rparr>, st4)"
    "get_function no_faults (e_newId (env 0)) name (st_db st4) = Inr f" "latestVersion (fn_id f) (st_db st4) = Some v" "ver_imageTag v = ref"
    "hashes (view R (st_redis st4)) = hashes (view R (st_redis st))"
proof -
  let ?u = "e_newId (env 0)" and ?i = "e_newId (env 3)" and ?f = "new_function (env 2) (e_newId (env 0)) name" and ?db3 = "uploaded_db env mail name (st_db st)"
  let ?b = "new_build ?i (e_now (env 3)) (e_newId (env 2)) (source_object_key (e_newId (env 2)) (e_uuid (env 3)))"
  have f: "?f \<in> set (funcs ?db3)" "build_functionId ?b = fn_id ?f" "fn_name ?f = name" "fn_id ?f = e_newId (env 2)" "fn_userId ?f = ?u" "build_id ?b = ?i"
    by (simp_all add: uploaded_db_def new_build_def new_function_def)
  have wf: "db_wf ?db3" using uploaded_db_wf [OF start] .
  have only: "only_unpublished ?b ?db3" using start by (simp add: only_unpublished_def uploaded_db_def clean_start_def unpublished_def new_build_def)
  have number: "nextVersionNumber (fn_id ?f) ?db3 = 1"
    by (rule fresh_function_number [of "st_db st"]) (use start in \<open>simp_all add: clean_start_def new_function_def uploaded_db_def\<close>)
  have idle: "queue_idle (view R (st_redis st))" using start by (simp add: clean_start_def)
  have cx3: "undisturbed cx ?db3" using cx by (simp add: undisturbed_def uploaded_db_def)
  have exec3: "exec \<lparr>bp_sourceObjectKey = sourceObjectKey ?b, bp_functionName = fn_name ?f, bp_versionNumber = nextVersionNumber (fn_id ?f) ?db3\<rparr> = Inr ref"
    unfolding number using exec by (simp add: new_build_def new_function_def)
  have run3: "background R msg exec cx now c (?db3, st_redis st) = (db', s')" using run by (simp add: st3)
  note eff = background_effect [OF live wf only f(1,2) idle cx3 exec3 run3]
  obtain b' where b': "build_find ?i db' = Some b'" "build_functionId b' = fn_id ?f" "build_status b' = SUCCESS" using eff(1) f(6) by auto
  obtain v where v: "latestVersion (fn_id ?f) db' = Some v" "ver_imageTag v = ref" using eff(2) by auto
  have found: "get_function no_faults ?u name db = Inr ?f" if "funcs db = funcs ?db3" for db
    using get_function_only [of "funcs (st_db st)" ?u db ?f] clean_start_owner [OF start] that f(3,5) by (simp add: uploaded_db_def)
  have calm: "calm (env n)" for n using envs by (simp add: script_envs_def)
  have i: "?i \<noteq> []" using start by (simp add: clean_start_def)
  have "build_find ?i ?db3 = Some ?b" using build_find_iff [OF wf] only_unpublishedD [OF only] f(6) by blast
  note show3 = api_shows_build [OF calm script_token_lets_in [OF envs] found name i status_request_def, of st3 ?b]
    and show4 = api_shows_build [OF calm script_token_lets_in [OF envs] found name i status_request_def, of st4 b']
  show thesis
    by (rule that [of ?b b' ?f v])
      (use show3 show4 \<open>build_find ?i ?db3 = Some ?b\<close> f(2) b' v found eff(5,10) in \<open>simp_all add: st3 st4 new_build_def\<close>)
qed

text \<open>What the scripts read from the answers.\<close>

lemma reads_token: "json_at [''accessToken''] (k6_of W \<lparr>rs_status = c, rs_functionError = e, rs_body = Token_body t\<rparr>) = Inr (Some (JStr t))"
  by (simp add: json_at_def k6_of_def body_json_def js_get_def member_def)

lemma reads_build_id: "json_at [''buildId''] (k6_of W \<lparr>rs_status = c, rs_functionError = e, rs_body = Build_accepted_body (i, x)\<rparr>) = Inr (Some (JStr i))"
  by (simp add: json_at_def k6_of_def body_json_def js_get_def member_def)

lemma reads_status: "r_status (k6_of W r) = rs_status r"
  by (simp add: k6_of_def)

lemmas script_reads = reads_token reads_build_id reads_status in_template_def

definition smoke_mail :: "nat \<Rightarrow> string" where
  "smoke_mail t = ''smoke-'' @ string_of_nat t @ ''@example.com''"

definition load_mail :: "nat \<Rightarrow> string" where
  "load_mail t = ''loadtest-'' @ string_of_nat t @ ''@example.com''"

lemma script_bodies:
  "json_ok (JObj [(''name'', JStr ''smoke-fn'')])" "json_ok (JObj [(''name'', JStr ''loadtest-fn''), (''timeoutMs'', JNum 3000)])"
  "RegisterFunctionDto fracInt (JObj [(''name'', JStr ''smoke-fn'')]) = Inr \<lparr>rf_name = ''smoke-fn'', rf_memoryMb = None, rf_timeoutMs = None\<rparr>"
  "RegisterFunctionDto fracInt (JObj [(''name'', JStr ''loadtest-fn''), (''timeoutMs'', JNum 3000)]) =
     Inr \<lparr>rf_name = ''loadtest-fn'', rf_memoryMb = None, rf_timeoutMs = Some 3000\<rparr>"
  by (simp_all add: RegisterFunctionDto_def member_def optional_int_def name_pattern_def name_char_def)

lemma script_urls:
  assumes "clean_start R mail env st"
  shows "post_file ''/functions/smoke-fn/versions'' (Some auth) source = upload_request ''smoke-fn'' auth source"
    and "post_file ''/functions/loadtest-fn/versions'' (Some auth) source = upload_request ''loadtest-fn'' auth source"
    and "get_url (''/functions/smoke-fn/builds/'' @ e_newId (env 3)) (Some auth) = status_request ''smoke-fn'' (e_newId (env 3)) auth"
    and "get_url (''/functions/loadtest-fn/builds/'' @ e_newId (env 3)) (Some auth) = status_request ''loadtest-fn'' (e_newId (env 3)) auth"
proof -
  have "CHR ''/'' \<notin> set (e_newId (env 3))" "e_newId (env 3) \<noteq> []" using assms by (simp_all add: clean_start_def)
  note paths = url_paths url_path_builds [OF this]
  show "post_file ''/functions/smoke-fn/versions'' (Some auth) source = upload_request ''smoke-fn'' auth source"
    "post_file ''/functions/loadtest-fn/versions'' (Some auth) source = upload_request ''loadtest-fn'' auth source"
    "get_url (''/functions/smoke-fn/builds/'' @ e_newId (env 3)) (Some auth) = status_request ''smoke-fn'' (e_newId (env 3)) auth"
    "get_url (''/functions/loadtest-fn/builds/'' @ e_newId (env 3)) (Some auth) = status_request ''loadtest-fn'' (e_newId (env 3)) auth"
    by (simp_all only: post_file_def upload_request_def get_url_def status_request_def paths)
qed

text \<open>The build is brought to its end during the sleep before poll \<open>k\<close>, of at most 40; nothing happens in the sleeps before.\<close>

definition built_at :: "nat \<Rightarrow> (nat \<Rightarrow> db \<times> 'r \<Rightarrow> db \<times> 'r) \<Rightarrow> (db \<times> 'r \<Rightarrow> db \<times> 'r) \<Rightarrow> bool" where
  "built_at k bg queue \<longleftrightarrow> k < 40 \<and> (\<forall>j < k. bg (4 + 2 * j) = (\<lambda>x. x)) \<and> bg (4 + 2 * k) = queue"

text \<open>Everything a script needs to get its function built.\<close>

definition can_deploy where
  "can_deploy C R env mail name source st cx exec ref objs \<longleftrightarrow>
     script_envs C R mail env \<and> clean_start R mail env st \<and> live_streams R \<and> undisturbed cx (st_db st) \<and>
     putObject (e_s3 (env 3)) (e_cfg (env 3)) (source_object_key (e_newId (env 2)) (e_uuid (env 3))) source (st_objects st) = (Inr (), objs) \<and>
     exec \<lparr>bp_sourceObjectKey = source_object_key (e_newId (env 2)) (e_uuid (env 3)), bp_functionName = name, bp_versionNumber = 1\<rparr> = Inr ref"

text \<open>The state a script leaves when its build has succeeded.\<close>

definition deployed_state where
  "deployed_state R env mail name msg exec cx now c objs st =
     (let (db', s') = background R msg exec cx now c (uploaded_db env mail name (st_db st), st_redis st)
      in st\<lparr>st_db := db', st_objects := objs, st_redis := s'\<rparr>)"

lemma deployed:
  assumes can: "can_deploy C R env mail name source st cx exec ref objs" and name: "name \<noteq> []" and at: "built_at k bg (background R msg exec cx now c)"
    and st3: "st3 = st\<lparr>st_db := uploaded_db env mail name (st_db st), st_objects := objs\<rparr>" and st4: "st4 = deployed_state R env mail name msg exec cx now c objs st"
  obtains f v where "await_build (api_k6 W env bg) (status_request name (e_newId (env 3)) (''Bearer '' @ script_token env)) (Some (JStr ''PENDING'')) 40 (4, st3) =
      (Inr (Some (JStr ''SUCCESS'')), (6 + 2 * k, st4))"
    and "get_function no_faults (e_newId (env 0)) name (st_db st4) = Inr f" and "latestVersion (fn_id f) (st_db st4) = Some v" and "ver_imageTag v = ref"
    and "hashes (view R (st_redis st4)) = hashes (view R (st_redis st))"
proof -
  obtain db' s' where run: "background R msg exec cx now c (st_db st3, st_redis st3) = (db', s')" by fastforce
  have st4': "st4 = st3\<lparr>st_db := db', st_redis := s'\<rparr>" using run by (simp add: st4 st3 deployed_state_def)
  have sc: "script_envs C R mail env" "clean_start R mail env st" "live_streams R" "undisturbed cx (st_db st)"
    "exec \<lparr>bp_sourceObjectKey = source_object_key (e_newId (env 2)) (e_uuid (env 3)), bp_functionName = name, bp_versionNumber = 1\<rparr> = Inr ref"
    using can by (simp_all add: can_deploy_def)
  from script_builds [OF sc(1-3) name sc(4) st3 sc(5) run st4'] obtain b b' f v where
    b: "build_status b = PENDING" "build_status b' = SUCCESS"
    and shows3: "\<And>n. api (env n) (status_request name (e_newId (env 3)) (''Bearer '' @ script_token env)) st3 = (\<lparr>rs_status = 200, rs_functionError = None, rs_body = Build_body b\<rparr>, st3)"
    and shows4: "\<And>n. api (env n) (status_request name (e_newId (env 3)) (''Bearer '' @ script_token env)) st4 = (\<lparr>rs_status = 200, rs_functionError = None, rs_body = Build_body b'\<rparr>, st4)"
    and rest: "get_function no_faults (e_newId (env 0)) name (st_db st4) = Inr f" "latestVersion (fn_id f) (st_db st4) = Some v" "ver_imageTag v = ref"
      "hashes (view R (st_redis st4)) = hashes (view R (st_redis st))" by metis
  have "bg (4 + 2 * k) (st_db st3, st_redis st3) = (db', s')" using at run by (simp add: built_at_def)
  from await_succeeds [of k bg 4 40 env _ st3 b db' s' st4 b' W, OF _ _ shows3 b(1) this st4' shows4 b(2)] at
  have "await_build (api_k6 W env bg) (status_request name (e_newId (env 3)) (''Bearer '' @ script_token env)) (Some (JStr ''PENDING'')) 40 (4, st3) =
      (Inr (Some (JStr ''SUCCESS'')), (6 + 2 * k, st4))" by (simp add: built_at_def)
  then show thesis using that rest by blast
qed

lemma script_deploys:
  assumes can: "can_deploy C R env mail name source st cx exec ref objs" and name: "name \<noteq> []" and at: "built_at k bg (background R msg exec cx now c)"
    and v: "json_ok v" "\<exists>ms. v = JObj ms"
      "\<exists>t \<in> {None, Some 3000}. RegisterFunctionDto (e_fracInt (env 2)) v = Inr \<lparr>rf_name = name, rf_memoryMb = None, rf_timeoutMs = t\<rparr>"
    and st4: "st4 = deployed_state R env mail name msg exec cx now c objs st"
  obtains w1 w2 w3 w4 r1 r3 f ver where
    "k_http (api_k6 W env bg) (post_json ''/auth/register'' None (credentials mail)) (0, st) = (r1, w1)" "r_status r1 = 201"
    "k_http (api_k6 W env bg) (post_json ''/auth/login'' None (credentials mail)) w1 =
      (k6_of W \<lparr>rs_status = 200, rs_functionError = None, rs_body = Token_body (script_token env)\<rparr>, w2)"
    "k_http (api_k6 W env bg) (post_json ''/functions'' (Some (''Bearer '' @ script_token env)) v) w2 = (r3, w3)" "r_status r3 = 201"
    "k_http (api_k6 W env bg) (upload_request name (''Bearer '' @ script_token env) source) w3 =
      (k6_of W \<lparr>rs_status = 201, rs_functionError = None, rs_body = Build_accepted_body (e_newId (env 3), PENDING)\<rparr>, w4)"
    "await_build (api_k6 W env bg) (status_request name (e_newId (env 3)) (''Bearer '' @ script_token env)) (Some (JStr ''PENDING'')) 40 w4 =
      (Inr (Some (JStr ''SUCCESS'')), (6 + 2 * k, st4))"
    "get_function no_faults (e_newId (env 0)) name (st_db st4) = Inr f" "latestVersion (fn_id f) (st_db st4) = Some ver" "ver_imageTag ver = ref"
    "hashes (view R (st_redis st4)) = hashes (view R (st_redis st))"
proof -
  let ?st3 = "st\<lparr>st_db := uploaded_db env mail name (st_db st), st_objects := objs\<rparr>"
  have sc: "script_envs C R mail env" "clean_start R mail env st"
    "putObject (e_s3 (env 3)) (e_cfg (env 3)) (source_object_key (e_newId (env 2)) (e_uuid (env 3))) source (st_objects st) = (Inr (), objs)"
    using can by (simp_all add: can_deploy_def)
  from script_uploads [OF sc(1,2) name v sc(3)] obtain st1 st2 r1 r3 where up:
    "api (env 0) (post_json ''/auth/register'' None (credentials mail)) st = (r1, st1)" "rs_status r1 = 201"
    "api (env 1) (post_json ''/auth/login'' None (credentials mail)) st1 = (\<lparr>rs_status = 200, rs_functionError = None, rs_body = Token_body (script_token env)\<rparr>, st1)"
    "api (env 2) (post_json ''/functions'' (Some (''Bearer '' @ script_token env)) v) st1 = (r3, st2)" "rs_status r3 = 201"
    "api (env 3) (upload_request name (''Bearer '' @ script_token env) source) st2 =
       (\<lparr>rs_status = 201, rs_functionError = None, rs_body = Build_accepted_body (e_newId (env 3), PENDING)\<rparr>, ?st3)" by metis
  obtain f ver where rest: "await_build (api_k6 W env bg) (status_request name (e_newId (env 3)) (''Bearer '' @ script_token env)) (Some (JStr ''PENDING'')) 40 (4, ?st3) =
      (Inr (Some (JStr ''SUCCESS'')), (6 + 2 * k, st4))"
    "get_function no_faults (e_newId (env 0)) name (st_db st4) = Inr f" "latestVersion (fn_id f) (st_db st4) = Some ver" "ver_imageTag ver = ref"
    "hashes (view R (st_redis st4)) = hashes (view R (st_redis st))"
    using deployed [OF can name at HOL.refl st4, of W] by metis
  have http: "k_http (api_k6 W env bg) rq (n, x) = (k6_of W r, (n', y))" if "api (env n) rq x = (r, y)" "n' = Suc n" for rq n x r y n'
    using that by (simp add: api_k6_simps)
  show thesis
    by (rule that [OF http [OF up(1), of 1] _ http [OF up(3), of 2] http [OF up(4), of 3] _ http [OF up(6), of 4] rest])
      (use up in \<open>simp_all add: k6_of_def\<close>)
qed

definition invoke_request :: "string \<Rightarrow> string \<Rightarrow> request" where
  "invoke_request name auth =
     \<lparr>rq_method = POST, rq_path = [''functions'', name, ''invoke''], rq_authorization = Some auth, rq_body = Json_body (JObj []), rq_file = None\<rparr>"

lemma invoke_urls:
  "post_json ''/functions/smoke-fn/invoke'' (Some auth) (JObj []) = invoke_request ''smoke-fn'' auth"
  "post_json ''/functions/loadtest-fn/invoke'' (Some auth) (JObj []) = invoke_request ''loadtest-fn'' auth"
  by (simp_all add: post_json_def invoke_request_def url_paths json_text_body_ok)

text \<open>A worker is registered that was heard of in the last ten seconds and has room; the registry can be read.\<close>

definition worker_available :: "'r redis \<Rightarrow> int \<Rightarrow> 'r \<Rightarrow> bool" where
  "worker_available R now s \<longleftrightarrow> redis_hash R \<and> registry_ok R s \<and> (\<forall>s. \<exists>raw s'. hgetall R REGISTRY_KEY s = (Inr raw, s')) \<and>
     (\<exists>w hb. registry R s w = Some hb \<and> now - hb_lastHeartbeatAt hb \<le> 10000 \<and> hb_inFlight hb < hb_capacity hb)"

lemma available_room:
  assumes "worker_available R now s" and "hashes (view R s') = hashes (view R s)"
  shows "fst (hasSpareCapacity R now s') = Inr True"
proof -
  have "registry_ok R s'" and reg: "registry R s' w = registry R s w" for w
    using assms by (simp_all add: worker_available_def registry_ok_def registry_def)
  moreover obtain raw s'' where "hgetall R REGISTRY_KEY s' = (Inr raw, s'')" using assms(1) unfolding worker_available_def by blast
  ultimately show ?thesis using redis_hash.spare_capacity [of R s' raw s'' now] assms(1) by (simp add: worker_available_def)
qed

section \<open>Properties\<close>


text \<open>
  C40. The load test measures what it says. Under the same conditions its set-up succeeds, and an
  iteration right after it makes its check hold exactly if the worker registry could be read -- a
  failure there is the surprise it looks for; it then counts either one success or one rejection, and
  a success exactly if a worker had room and answered with something other than null.
\<close>

theorem load_test_measures:
  assumes can: "can_deploy C R env (load_mail (e_nowMs (env 0))) ''loadtest-fn'' (handler_source ''load test ok'') st cx exec ref objs"
    and at: "built_at k bg (background R msg exec cx now c)"
  shows "\<exists>auth st4 ok m' w spare j. load_setup (api_k6 W env bg) (0, st) = (Inr auth, (6 + 2 * k, st4))
    \<and> load_iteration (api_k6 W env bg) auth m (6 + 2 * k, st4) = ((ok, m'), w)
    \<and> spare = fst (hasSpareCapacity R (e_nowDate (env (6 + 2 * k))) (st_redis st4)) \<and> job_imageTag j = ref
    \<and> (ok \<longleftrightarrow> \<not> isl spare)
    \<and> (ok \<longleftrightarrow> successes m' + backpressureRejections m' = Suc (successes m + backpressureRejections m))
    \<and> (successes m' = Suc (successes m) \<longleftrightarrow> spare = Inr True \<and> (\<exists>out. e_dispatch (env (6 + 2 * k)) j = Inr out \<and> out \<noteq> JNull))"
proof -
  let ?mail = "load_mail (e_nowMs (env 0))" and ?auth = "''Bearer '' @ script_token env"
    and ?v = "JObj [(''name'', JStr ''loadtest-fn''), (''timeoutMs'', JNum 3000)]" and ?E = "env (6 + 2 * k)"
  define st4 where "st4 = deployed_state R env ?mail ''loadtest-fn'' msg exec cx now c objs st"
  have sc: "script_envs C R ?mail env" "clean_start R ?mail env st" using can by (simp_all add: can_deploy_def)
  obtain w1 w2 w3 w4 r1 r3 f ver where up:
    "k_http (api_k6 W env bg) (post_json ''/auth/register'' None (credentials ?mail)) (0, st) = (r1, w1)" "r_status r1 = 201"
    "k_http (api_k6 W env bg) (post_json ''/auth/login'' None (credentials ?mail)) w1 =
      (k6_of W \<lparr>rs_status = 200, rs_functionError = None, rs_body = Token_body (script_token env)\<rparr>, w2)"
    "k_http (api_k6 W env bg) (post_json ''/functions'' (Some ?auth) ?v) w2 = (r3, w3)" "r_status r3 = 201"
    "k_http (api_k6 W env bg) (upload_request ''loadtest-fn'' ?auth (handler_source ''load test ok'')) w3 =
      (k6_of W \<lparr>rs_status = 201, rs_functionError = None, rs_body = Build_accepted_body (e_newId (env 3), PENDING)\<rparr>, w4)"
    "await_build (api_k6 W env bg) (status_request ''loadtest-fn'' (e_newId (env 3)) ?auth) (Some (JStr ''PENDING'')) 40 w4 =
      (Inr (Some (JStr ''SUCCESS'')), (6 + 2 * k, st4))"
    and f: "get_function no_faults (e_newId (env 0)) ''loadtest-fn'' (st_db st4) = Inr f" "latestVersion (fn_id f) (st_db st4) = Some ver" "ver_imageTag ver = ref"
    by (rule script_deploys [OF can _ at script_bodies(2) _ _ st4_def, of W]) (auto simp: script_bodies)
  define spare where "spare = fst (hasSpareCapacity R (e_nowDate ?E) (st_redis st4))"
  define j where "j = job_of f ver (Some (JObj []))"
  have prep: "load_setup (api_k6 W env bg) (0, st) = (Inr ?auth, (6 + 2 * k, st4))"
    unfolding load_setup_def api_k6_simps(3) load_mail_def [symmetric]
    by (simp add: Let_def script_reads up script_urls [OF sc(2)] del: append.simps append_Cons append_Nil)
  have "calm ?E" "fst (hasSpareCapacity (e_redis ?E) (e_nowDate ?E) (st_redis st4)) = spare" using sc(1) by (simp_all add: script_envs_def spare_def)
  note answer = api_runs_function [OF this(1) script_token_lets_in [OF sc(1)] f(1) _ invoke_request_def f(2) this(2)]
  have status: "rs_status (fst (api ?E (invoke_request ''loadtest-fn'' ?auth) st4)) =
      (case spare of Inl _ \<Rightarrow> 500 | Inr b \<Rightarrow> if b \<and> (\<exists>out. e_dispatch ?E j = Inr out \<and> out \<noteq> JNull) then 200 else 503)"
    unfolding j_def by (subst answer) (simp_all only: answer_status, simp_all add: parser_refuses_def)
  obtain ok m' w where it: "load_iteration (api_k6 W env bg) ?auth m (6 + 2 * k, st4) = ((ok, m'), w)" by (metis prod.collapse)
  have "(ok \<longleftrightarrow> \<not> isl spare) \<and> (ok \<longleftrightarrow> successes m' + backpressureRejections m' = Suc (successes m + backpressureRejections m))
    \<and> (successes m' = Suc (successes m) \<longleftrightarrow> spare = Inr True \<and> (\<exists>out. e_dispatch ?E j = Inr out \<and> out \<noteq> JNull))"
    using it by (cases spare) (auto simp: load_iteration_def invoke_urls api_k6_simps(1) reads_status status Let_def simp del: append.simps split: if_splits)
  moreover have "job_imageTag j = ref" by (simp add: j_def job_of_def f(3))
  ultimately show ?thesis using prep it unfolding spare_def by blast
qed

section \<open>Witnesses\<close>

text \<open>Workers that answer with the given message, whatever the job; one worker has room.\<close>

definition demo_script_env :: "string \<Rightarrow> (string \<Rightarrow> string \<rightharpoonup> string, mem) env" where
  "demo_script_env m = (demo_api ''x'')\<lparr>e_dispatch := (\<lambda>_. Inr (JObj (outcome_success (JObj [(''message'', JStr m)]) 7)))\<rparr>"

definition demo_fleet :: mem where
  "demo_fleet = snd (heartbeat mem_redis (demo_beat ''w1'' 9000) demo_ready)"

definition demo_clean :: "(string \<Rightarrow> string \<rightharpoonup> string, mem) api_state" where
  "demo_clean = (demo_state empty_db)\<lparr>st_redis := demo_fleet\<rparr>"

definition demo_queue_bg :: "db \<times> mem \<Rightarrow> db \<times> mem" where
  "demo_queue_bg = background mem_redis (\<lambda>_. []) demo_exec (\<lambda>_. demo_run_cx) 9 ''c''"

definition demo_writer :: writer where
  "demo_writer = \<lparr>w_date = string_of_nat, w_other = (\<lambda>_. None), w_took = (\<lambda>_. 5), w_number = (\<lambda>t. t)\<rparr>"

lemma demo_fleet_idle: "queue_idle (view mem_redis demo_fleet)"
proof -
  have "streams (view mem_redis demo_fleet) = streams (view mem_redis demo_ready)"
    by (simp add: demo_fleet_def heartbeat_def mem_redis_def)
  then show ?thesis using demo_ready_idle by (simp add: queue_idle_def)
qed

lemma demo_available: "worker_available mem_redis 9000 demo_fleet"
proof -
  have "hashes (view mem_redis demo_fleet) REGISTRY_KEY w = (if w = ''w1'' then Some (stringify (heartbeat_json (demo_beat ''w1'' 9000))) else None)" for w
    by (simp add: demo_fleet_def demo_ready_def heartbeat_def mem_redis_def mem_view_def mem_xgroup_def mem_stream_def empty_mem_def demo_beat_def)
  note h = this
  have reg: "registry mem_redis demo_fleet ''w1'' = Some (demo_beat ''w1'' 9000)" by (simp add: registry_def h)
  have "hb_workerId (demo_beat ''w1'' 9000) = ''w1''" by (simp add: demo_beat_def)
  then have "registry_ok mem_redis demo_fleet" by (auto simp: registry_ok_def h split: if_splits)
  moreover have "\<exists>raw s'. hgetall mem_redis REGISTRY_KEY s = (Inr raw, s')" for s by (simp add: mem_redis_def)
  ultimately show ?thesis
    unfolding worker_available_def using mem_hash_ok reg by (auto intro!: exI [of _ "''w1''"] simp: demo_beat_def)
qed

lemma demo_can_deploy:
  "can_deploy demo_crypto mem_redis (\<lambda>_. demo_script_env m) mail name source demo_clean (\<lambda>_. demo_run_cx) demo_exec (local_image_ref name 1)
     (store_object (bucket (storage_config None None)) (source_object_key ''x'' ''u'') source (\<lambda>_ _. None))"
proof -
  have "script_envs demo_crypto mem_redis mail (\<lambda>_. demo_script_env m)"
    using demo_bcrypt_ok demo_jwt_ok by (simp add: script_envs_def calm_def demo_script_env_def demo_api_def)
  moreover have "clean_start mem_redis mail (\<lambda>_. demo_script_env m) demo_clean"
    using demo_fleet_idle by (simp add: clean_start_def demo_script_env_def demo_api_def demo_clean_def demo_state_def empty_db_def db_wf_def wf_defs)
  ultimately show ?thesis
    using memlive.live_streams_axioms
    by (simp add: can_deploy_def undisturbed_def demo_run_cx_def demo_clean_def demo_state_def empty_db_def demo_script_env_def demo_api_def
        putObject_def mem_s3_def demo_exec_def)
qed

lemma demo_built_at: "built_at 0 (\<lambda>_. demo_queue_bg) (background mem_redis (\<lambda>_. []) demo_exec (\<lambda>_. demo_run_cx) 9 ''c'')"
  by (simp add: built_at_def demo_queue_bg_def)


text \<open>Witness of C40: the same services; the first iteration is a success.\<close>

theorem load_test_measures_witness:
  "\<exists>auth st4 m' w. load_setup (api_k6 demo_writer (\<lambda>_. demo_script_env ''load test ok'') (\<lambda>_. demo_queue_bg)) (0, demo_clean) = (Inr auth, (6, st4))
     \<and> load_iteration (api_k6 demo_writer (\<lambda>_. demo_script_env ''load test ok'') (\<lambda>_. demo_queue_bg)) auth
         \<lparr>successes = 0, backpressureRejections = 0, successLatency = []\<rparr> (6, st4) = ((\<not> isl (fst (hasSpareCapacity mem_redis 9000 (st_redis st4))), m'), w)"
  using load_test_measures [OF demo_can_deploy demo_built_at, of demo_writer "''load test ok''" "\<lparr>successes = 0, backpressureRejections = 0, successLatency = []\<rparr>"]
  by (auto simp: demo_script_env_def demo_api_def)

end
