(* ===== verification/Fleet.thy ===== *)
theory Fleet
  imports Pipeline Runtime Worker
begin

text \<open>
  What becomes of a job whose worker has died (\<open>reclaimFromDeadWorkers\<close> of \<open>src/worker/worker.service.ts\<close>): another worker
  takes it over and the caller gets its reply; unless it was the job that killed the worker, which then kills the
  next one, and the one after it.
\<close>

section \<open>A Redis that answers the workers\<close>

text \<open>
  Every command the workers use is answered, and a list of idle entries that is shorter than the
  limit given to \<open>XPENDING\<close> is complete.
\<close>

locale live_fleet = redis_service R + live_streams R for R :: "'r redis" +
  assumes hgetall_answers: "\<exists>kvs s'. hgetall R k s = (Inr kvs, s')"
    and publish_answers: "\<exists>s'. publish R ch m s = (Inr (), s')"
    and xclaim_answers: "\<exists>ms s'. xclaim R now k g c idle i s = (Inr ms, s')"
    and xpending_answers: "\<exists>es s'. xpending R now k g idle n s = (Inr es, s') \<and>
      (length es < n \<longrightarrow> (\<forall>i \<in> fst ` set (entries (streams (view R s) k)).
         idle_for now g idle i (streams (view R s) k) \<longrightarrow> i \<in> fst ` set es))"

interpretation memfleet: live_fleet mem_redis
proof
  show "\<exists>kvs s'. hgetall mem_redis k s = (Inr kvs, s')" for k s by (simp add: mem_redis_def)
  show "\<exists>s'. publish mem_redis ch m s = (Inr (), s')" for ch m s by (simp add: mem_redis_def)
  show "\<exists>ms s'. xclaim mem_redis now k g c idle i s = (Inr ms, s')" for now k g c idle i s
    by (simp add: mem_redis_def mem_xclaim_def)
  show "\<exists>es s'. xpending mem_redis now k g idle n s = (Inr es, s') \<and>
      (length es < n \<longrightarrow> (\<forall>i \<in> fst ` set (entries (streams (view mem_redis s) k)).
         idle_for now g idle i (streams (view mem_redis s) k) \<longrightarrow> i \<in> fst ` set es))" for now k g idle n s
    by (auto simp: mem_redis_def mem_xpending_def image_image in_idle_ids)
qed

section \<open>Handling messages when Redis answers\<close>

text \<open>Entries stay in the stream and what was published stays published.\<close>

definition extends :: "redis_view \<Rightarrow> redis_view \<Rightarrow> bool" where
  "extends V V' \<longleftrightarrow> set (published V) \<subseteq> set (published V') \<and>
     entries (streams V' INVOCATION_STREAM_KEY) = entries (streams V INVOCATION_STREAM_KEY)"

lemma extends_refl [simp]: "extends V V"
  by (simp add: extends_def)

lemma extends_trans: "extends U V \<Longrightarrow> extends V W \<Longrightarrow> extends U W"
  by (auto simp: extends_def)

lemma extends_simps [simp]:
  "extends V (acked m (say ch t V))"
  "extends V (upd_stream INVOCATION_STREAM_KEY (own g c now i) V)"
  by (auto simp: extends_def acked_def say_def upd_stream_def acknowledge_def own_def)

text \<open>A runner under which no job ends the process, whatever its fields and the files.\<close>

definition never_dies :: "(string option \<Rightarrow> string) \<Rightarrow> (string \<Rightarrow> runner) \<Rightarrow> bool" where
  "never_dies sm runner \<longleftrightarrow> (\<forall>i flds fs. job_outcome (fst (run_job sm (runner i) flds fs)) \<noteq> None)"

text \<open>The reply to message \<open>i\<close> is out: the outcome of a run of its job, on its channel.\<close>

definition replied :: "(string option \<Rightarrow> string) \<Rightarrow> (string \<Rightarrow> runner) \<Rightarrow> string \<Rightarrow> string list \<Rightarrow> redis_view \<Rightarrow> bool" where
  "replied sm runner i flds V \<longleftrightarrow> (\<exists>fs out. job_outcome (fst (run_job sm (runner i) flds fs)) = Some out
     \<and> (reply_channel flds, stringify (JObj out)) \<in> set (published V))"

lemma replied_extends: "replied sm runner i flds V \<Longrightarrow> extends V V' \<Longrightarrow> replied sm runner i flds V'"
  by (auto simp: replied_def extends_def)

context live_fleet
begin

lemma reply_done:
  "\<exists>w' s'. reply_and_ack R m ch out w fs s = (Done, w', fs, s') \<and> w_id w' = w_id w
     \<and> view R s' = acked m (say ch (stringify (JObj out)) (view R s))"
proof -
  obtain s1 where p: "publish R ch (stringify (JObj out)) s = (Inr (), s1)" using publish_answers by blast
  obtain s2 where a: "xack R INVOCATION_STREAM_KEY INVOCATION_CONSUMER_GROUP m s1 = (Inr (), s2)" using xack_answers by blast
  have r: "reply_and_ack R m ch out w fs s = (Done, count_outcome out w, fs, s2)"
    using p a by (simp add: reply_and_ack_def Let_def del: stringify.simps)
  from reply_view(2) [OF this] r show ?thesis by (simp del: stringify.simps)
qed

lemma handle_done:
  assumes "never_dies sm runner"
  obtains w' fs' s' where "worker_handleMessage R sm (runner m) m flds (w, fs, s) = (Done, w', fs', s')" and "w_id w' = w_id w"
    and "extends (view R s) (view R s')" and "pending_of (view R s') m = None" and "replied sm runner m flds (view R s')"
proof -
  obtain out where out: "job_outcome (fst (run_job sm (runner m) flds fs)) = Some out" using assms unfolding never_dies_def by force
  obtain w' s' where r: "reply_and_ack R m (reply_channel flds) out (in_flight (w_inFlight w) w) (snd (run_job sm (runner m) flds fs)) s
      = (Done, w', snd (run_job sm (runner m) flds fs), s')" and w: "w_id w' = w_id (in_flight (w_inFlight w) w)"
    and v: "view R s' = acked m (say (reply_channel flds) (stringify (JObj out)) (view R s))"
    using reply_done by blast
  have "replied sm runner m flds (view R s')" using out by (auto simp: replied_def v acked_def say_def upd_stream_def)
  then show thesis using that r w v by (simp add: handle_outcome [OF out])
qed

lemma handle_all_done:
  assumes "never_dies sm runner"
  shows "\<exists>w' fs' s'. worker_handle_all R sm runner ms (w, fs, s) = (Done, w', fs', s') \<and> w_id w' = w_id w \<and> extends (view R s) (view R s')"
proof (induction ms arbitrary: w fs s)
  case (Cons mf ms)
  obtain m flds where mf: "mf = (m, flds)" by fastforce
  obtain w1 fs1 s1 where h: "worker_handleMessage R sm (runner m) m flds (w, fs, s) = (Done, w1, fs1, s1)" "w_id w1 = w_id w"
    "extends (view R s) (view R s1)" by (rule handle_done [OF assms])
  from Cons.IH [of w1 fs1 s1] h show ?case by (auto simp: mf intro: extends_trans)
qed simp

text \<open>Claiming one idle entry and handling what the claim returned.\<close>

lemma claim_serves:
  assumes alive: "never_dies sm runner" and p: "pending_of (view R s) j = Some (c, t)" "t + idle \<le> clock j"
  obtains ms s1 w' fs' s' where "xclaim R (clock j) INVOCATION_STREAM_KEY INVOCATION_CONSUMER_GROUP (w_id w) idle j s = (Inr ms, s1)"
    and "worker_handle_all R sm runner ms (w, fs, s1) = (Done, w', fs', s')" and "w_id w' = w_id w"
    and "extends (view R s) (view R s')" and "\<forall>k. k \<noteq> j \<longrightarrow> pending_of (view R s') k = pending_of (view R s) k"
    and "\<forall>flds. map_of (entries (streams (view R s) INVOCATION_STREAM_KEY)) j = Some flds \<longrightarrow>
      pending_of (view R s') j = None \<and> replied sm runner j flds (view R s')"
proof -
  obtain ms s1 where x: "xclaim R (clock j) INVOCATION_STREAM_KEY INVOCATION_CONSUMER_GROUP (w_id w) idle j s = (Inr ms, s1)"
    using xclaim_answers by blast
  have "idle_for (clock j) INVOCATION_CONSUMER_GROUP idle j (streams (view R s) INVOCATION_STREAM_KEY)"
    using p by (auto simp: idle_for_def pending_of_def)
  with xclaim_Inr [OF x] have v1: "view R s1 = upd_stream INVOCATION_STREAM_KEY (own INVOCATION_CONSUMER_GROUP (w_id w) (clock j) j) (view R s)"
    and ms: "case map_of (entries (streams (view R s) INVOCATION_STREAM_KEY)) j of None \<Rightarrow> ms = [] | Some fs \<Rightarrow> ms = [(j, fs)]"
    by simp_all
  obtain w' fs' s' where h: "worker_handle_all R sm runner ms (w, fs, s1) = (Done, w', fs', s')" "w_id w' = w_id w" "extends (view R s1) (view R s')"
    using handle_all_done [OF alive] by blast
  have served: "pending_of (view R s') j = None \<and> replied sm runner j flds (view R s')"
    if "map_of (entries (streams (view R s) INVOCATION_STREAM_KEY)) j = Some flds" for flds
    by (rule handle_done [OF alive, of j flds w fs s1]) (use that ms h(1) in simp)
  have "extends (view R s) (view R s')" using h(3) v1 extends_trans extends_simps(2) by metis
  moreover have "pending_of (view R s') k = pending_of (view R s) k" if "k \<noteq> j" for k
    using that handle_all_pending [OF h(1), of k] xclaim_pending(2) [OF x HOL.refl] v1 by auto
  ultimately show thesis using that x h(1,2) served by blast
qed

text \<open>
  Taking over from a list of idle entries comes to its end, and serves every entry whose owner is
  gone.
\<close>

lemma reclaim_all_serves:
  assumes alive: "never_dies sm runner" and later: "\<And>j. now \<le> clock j"
  shows "distinct (map fst es) \<Longrightarrow>
    \<forall>(j, c) \<in> set es. \<exists>t. pending_of (view R s) j = Some (c, t) \<and> t + idle \<le> now \<Longrightarrow>
    \<exists>w' fs' s'. reclaim_all R sm runner clock idle healthy es (w, fs, s) = (Done, w', fs', s')
      \<and> extends (view R s) (view R s')
      \<and> (\<forall>i owner flds. (i, owner) \<in> set es \<longrightarrow> owner \<noteq> w_id w \<longrightarrow> Some owner \<notin> healthy \<longrightarrow>
            map_of (entries (streams (view R s) INVOCATION_STREAM_KEY)) i = Some flds \<longrightarrow>
            pending_of (view R s') i = None \<and> replied sm runner i flds (view R s'))"
proof (induction es arbitrary: w fs s)
  case (Cons jc es)
  obtain j c where jc: "jc = (j, c)" by fastforce
  have fresh: "j \<notin> fst ` set es" and rest: "distinct (map fst es)" using Cons.prems(1) by (auto simp: jc)
  show ?case
  proof (cases "c = w_id w \<or> Some c \<in> healthy")
    case True
    with Cons.IH [OF rest, of s w fs] Cons.prems(2) show ?thesis by (fastforce simp: jc)
  next
    case False
    from Cons.prems(2) obtain t where p: "pending_of (view R s) j = Some (c, t)" "t + idle \<le> now" by (auto simp: jc)
    obtain ms s1 w2 fs2 s2 where x: "xclaim R (clock j) INVOCATION_STREAM_KEY INVOCATION_CONSUMER_GROUP (w_id w) idle j s = (Inr ms, s1)"
      and h: "worker_handle_all R sm runner ms (w, fs, s1) = (Done, w2, fs2, s2)" "w_id w2 = w_id w" "extends (view R s) (view R s2)"
      and others: "\<forall>k. k \<noteq> j \<longrightarrow> pending_of (view R s2) k = pending_of (view R s) k"
      and served: "\<forall>flds. map_of (entries (streams (view R s) INVOCATION_STREAM_KEY)) j = Some flds \<longrightarrow>
        pending_of (view R s2) j = None \<and> replied sm runner j flds (view R s2)"
      by (rule claim_serves [where clock = clock, OF alive p(1) order_trans [OF p(2) later [of j]], of w fs])
    have "\<forall>(k, d) \<in> set es. \<exists>t. pending_of (view R s2) k = Some (d, t) \<and> t + idle \<le> now"
    proof safe
      fix k d
      assume "(k, d) \<in> set es"
      then show "\<exists>t. pending_of (view R s2) k = Some (d, t) \<and> t + idle \<le> now"
        using others fresh bspec [OF Cons.prems(2), of "(k, d)"] by (force simp: image_iff)
    qed
    from Cons.IH [OF rest this, of w2 fs2] obtain w' fs' s' where
      r: "reclaim_all R sm runner clock idle healthy es (w2, fs2, s2) = (Done, w', fs', s')" "extends (view R s2) (view R s')"
      and all: "\<forall>i owner flds. (i, owner) \<in> set es \<longrightarrow> owner \<noteq> w_id w2 \<longrightarrow> Some owner \<notin> healthy \<longrightarrow>
        map_of (entries (streams (view R s2) INVOCATION_STREAM_KEY)) i = Some flds \<longrightarrow>
        pending_of (view R s') i = None \<and> replied sm runner i flds (view R s')" by blast
    have whole: "reclaim_all R sm runner clock idle healthy (jc # es) (w, fs, s) = (Done, w', fs', s')"
      using False x h(1) r(1) by (simp add: jc)
    have "pending_of (view R s') j = pending_of (view R s2) j" by (rule reclaim_all_pending [OF r(1)]) (use fresh in force)
    then have "pending_of (view R s') j = None \<and> replied sm runner j flds (view R s')"
      if "map_of (entries (streams (view R s) INVOCATION_STREAM_KEY)) j = Some flds" for flds
      using served that replied_extends [OF _ r(2)] by simp
    moreover have "entries (streams (view R s2) INVOCATION_STREAM_KEY) = entries (streams (view R s) INVOCATION_STREAM_KEY)"
      using h(3) by (simp add: extends_def)
    ultimately show ?thesis using whole all extends_trans [OF h(3) r(2)] h(2) by (auto simp: jc)
  qed
qed simp

end

section \<open>A job whose worker is gone\<close>

text \<open>
  Message \<open>i\<close> with fields \<open>flds\<close> has been pending for \<open>owner\<close> longer than the claim time, \<open>owner\<close> has not sent a
  heartbeat for ten seconds, and fewer than ten messages (the limit of \<open>XPENDING\<close>) are idle.
\<close>

definition abandoned :: "'r redis \<Rightarrow> nat \<Rightarrow> int \<Rightarrow> nat \<Rightarrow> string \<Rightarrow> string \<Rightarrow> string list \<Rightarrow> 'r \<Rightarrow> bool" where
  "abandoned R now nowDate idle i owner flds s \<longleftrightarrow>
     registry_ok R s
     \<and> (\<forall>hb. registry R s owner = Some hb \<longrightarrow> 10000 < nowDate - hb_lastHeartbeatAt hb)
     \<and> (\<exists>t. pending_of (view R s) i = Some (owner, t) \<and> t + idle \<le> now)
     \<and> map_of (entries (streams (view R s) INVOCATION_STREAM_KEY)) i = Some flds
     \<and> (\<exists>I. finite I \<and> card I < 10 \<and>
          {j. idle_for now INVOCATION_CONSUMER_GROUP idle j (streams (view R s) INVOCATION_STREAM_KEY)} \<subseteq> I)"

context live_fleet
begin

lemma abandoned_listed:
  assumes "abandoned R now nowDate idle i owner flds s"
  obtains es s1 ws s2 where "xpending R now INVOCATION_STREAM_KEY INVOCATION_CONSUMER_GROUP idle 10 s = (Inr es, s1)"
    and "listWorkers R nowDate s1 = (Inr ws, s2)" and "view R s2 = view R s" and "(i, owner) \<in> set es" and "distinct (map fst es)"
    and "\<forall>(j, c) \<in> set es. \<exists>t. pending_of (view R s) j = Some (c, t) \<and> t + idle \<le> now"
    and "Some owner \<notin> ws_workerId ` set (filter ws_healthy ws)"
proof -
  let ?S = "streams (view R s) INVOCATION_STREAM_KEY"
  let ?idle = "{j. idle_for now INVOCATION_CONSUMER_GROUP idle j ?S}"
  obtain es s1 where x: "xpending R now INVOCATION_STREAM_KEY INVOCATION_CONSUMER_GROUP idle 10 s = (Inr es, s1)"
    and full: "length es < 10 \<longrightarrow> (\<forall>i \<in> fst ` set (entries ?S). idle_for now INVOCATION_CONSUMER_GROUP idle i ?S \<longrightarrow> i \<in> fst ` set es)"
    using xpending_answers by blast
  note v1 = xpending_view [OF x]
  have d: "distinct (map fst es)" and all: "\<forall>(j, c) \<in> set es. \<exists>t. pending_of (view R s) j = Some (c, t) \<and> t + idle \<le> now"
    using xpending_Inr [OF x] by (simp_all add: pending_of_def)
  then have own: "\<exists>t. pending_of (view R s) j = Some (c, t) \<and> t + idle \<le> now" if "(j, c) \<in> set es" for j c using that by blast
  obtain I where "finite I" "card I < 10" "?idle \<subseteq> I" using assms by (auto simp: abandoned_def)
  moreover have "fst ` set es \<subseteq> ?idle" using own by (force simp: idle_for_def pending_of_def)
  ultimately have "card (fst ` set es) < 10" by (meson card_mono order.strict_trans1 subset_trans)
  then have "length es < 10" using distinct_card [OF d] by simp
  moreover have "i \<in> fst ` set (entries ?S)" and "idle_for now INVOCATION_CONSUMER_GROUP idle i ?S"
    using assms by (auto simp: abandoned_def idle_for_def pending_of_def dest: map_of_SomeD intro: rev_image_eqI)
  ultimately obtain c where "(i, c) \<in> set es" using full by force
  moreover have "c = owner" using own [OF calculation] assms by (auto simp: abandoned_def)
  ultimately have i: "(i, owner) \<in> set es" by simp
  have reg: "registry_ok R s1" "registry R s1 = registry R s" using assms v1 by (auto simp: abandoned_def registry_ok_def registry_def fun_eq_iff)
  obtain kvs s2 where "hgetall R REGISTRY_KEY s1 = (Inr kvs, s2)" using hgetall_answers by blast
  from listWorkers_answers [OF reg(1) this] obtain ws where l: "listWorkers R nowDate s1 = (Inr ws, s2)" by blast
  have "hb_workerId hb = owner \<longrightarrow> 10000 < nowDate - hb_lastHeartbeatAt hb" if "hb \<in> ran (registry R s)" for hb
    using that assms registry_ok_id by (fastforce simp: abandoned_def ran_def)
  then have "Some owner \<notin> ws_workerId ` set (filter ws_healthy ws)"
    using wr.healthy_iff [OF reg(1) l, of owner] reg(2) by force
  then show thesis using that [OF x l _ i d all] listWorkers_view [OF l] v1 by simp
qed

lemma abandoned_served:
  assumes "abandoned R now nowDate idle i owner flds s" and "never_dies sm runner" and "\<And>j. now \<le> clock j" and "owner \<noteq> w_id w"
  shows "\<exists>w' fs' s'. reclaimFromDeadWorkers R sm runner clock now nowDate idle (w, fs, s) = (Done, w', fs', s')
    \<and> pending_of (view R s') i = None \<and> replied sm runner i flds (view R s')"
proof (rule abandoned_listed [OF assms(1)])
  fix es s1 ws s2
  assume x: "xpending R now INVOCATION_STREAM_KEY INVOCATION_CONSUMER_GROUP idle 10 s = (Inr es, s1)"
    and l: "listWorkers R nowDate s1 = (Inr ws, s2)" and v: "view R s2 = view R s" and i: "(i, owner) \<in> set es" and d: "distinct (map fst es)"
    and own: "\<forall>(j, c) \<in> set es. \<exists>t. pending_of (view R s) j = Some (c, t) \<and> t + idle \<le> now"
    and gone: "Some owner \<notin> ws_workerId ` set (filter ws_healthy ws)"
  have "map_of (entries (streams (view R s2) INVOCATION_STREAM_KEY)) i = Some flds" using assms(1) v by (simp add: abandoned_def)
  moreover have "reclaimFromDeadWorkers R sm runner clock now nowDate idle (w, fs, s) =
      reclaim_all R sm runner clock idle (ws_workerId ` set (filter ws_healthy ws)) es (w, fs, s2)"
    using x l i by (auto simp: reclaimFromDeadWorkers_def)
  moreover from reclaim_all_serves [where healthy = "ws_workerId ` set (filter ws_healthy ws)" and w = w and fs = fs and clock = clock,
      OF assms(2,3) d own [folded v]] obtain w' fs' s' where
    "reclaim_all R sm runner clock idle (ws_workerId ` set (filter ws_healthy ws)) es (w, fs, s2) = (Done, w', fs', s')"
    "\<forall>i owner flds. (i, owner) \<in> set es \<longrightarrow> owner \<noteq> w_id w \<longrightarrow> Some owner \<notin> ws_workerId ` set (filter ws_healthy ws) \<longrightarrow>
      map_of (entries (streams (view R s2) INVOCATION_STREAM_KEY)) i = Some flds \<longrightarrow>
      pending_of (view R s') i = None \<and> replied sm runner i flds (view R s')" by blast
  ultimately show ?thesis using i gone assms(4) by auto
qed

end

section \<open>A job that ends the process\<close>

text \<open>
  One attempt of a worker to take over: who, with which files, when (by the clock of Redis, by its own, and at each
  claim), and what has happened to Redis before.
\<close>

record 'r takeover =
  tk_worker :: worker
  tk_files :: files
  tk_now :: nat
  tk_date :: int
  tk_clock :: "string \<Rightarrow> nat"
  tk_before :: "'r \<Rightarrow> 'r"

definition take_over where
  "take_over R sm runner idle k s =
     reclaimFromDeadWorkers R sm runner (tk_clock k) (tk_now k) (tk_date k) idle (tk_worker k, tk_files k, tk_before k s)"

text \<open>Attempts one after the other, with their endings.\<close>

fun succession where
  "succession R sm runner idle [] s = ([], s)"
| "succession R sm runner idle (k # ks) s =
     (let (e, w, fs, s') = take_over R sm runner idle k s;
          (es, s'') = succession R sm runner idle ks s'
      in (e # es, s''))"

text \<open>
  Each attempt comes when the last owner of message \<open>i\<close> -- \<open>owner\<close>, since time \<open>t\<close> -- has been silent for ten seconds and the
  message idle for the claim time, from another worker; before it, only the registry may have changed.
\<close>

fun due where
  "due R sm runner idle i owner t [] s = True"
| "due R sm runner idle i owner t (k # ks) s \<longleftrightarrow>
     streams (view R (tk_before k s)) = streams (view R s) \<and> published (view R (tk_before k s)) = published (view R s)
     \<and> registry_ok R (tk_before k s)
     \<and> (\<forall>hb. registry R (tk_before k s) owner = Some hb \<longrightarrow> 10000 < tk_date k - hb_lastHeartbeatAt hb)
     \<and> t + idle \<le> tk_now k \<and> (\<forall>j. tk_now k \<le> tk_clock k j) \<and> owner \<noteq> w_id (tk_worker k)
     \<and> due R sm runner idle i (w_id (tk_worker k)) (tk_clock k i) ks (snd (snd (snd (take_over R sm runner idle k s))))"

text \<open>Only message \<open>i\<close>, with fields \<open>flds\<close>, is pending.\<close>

definition sole_pending :: "redis_view \<Rightarrow> string \<Rightarrow> string \<Rightarrow> nat \<Rightarrow> string list \<Rightarrow> bool" where
  "sole_pending V i owner t flds \<longleftrightarrow> pending_of V i = Some (owner, t) \<and> (\<forall>j. j \<noteq> i \<longrightarrow> pending_of V j = None)
     \<and> map_of (entries (streams V INVOCATION_STREAM_KEY)) i = Some flds"

lemma sole_pending_streams: "streams V = streams V' \<Longrightarrow> sole_pending V i owner t flds = sole_pending V' i owner t flds"
  by (simp add: sole_pending_def pending_of_def)

context live_fleet
begin

lemma sole_abandoned:
  assumes "sole_pending (view R s) i owner t flds" and "registry_ok R s" and "t + idle \<le> now"
    and "\<forall>hb. registry R s owner = Some hb \<longrightarrow> 10000 < nowDate - hb_lastHeartbeatAt hb"
  shows "abandoned R now nowDate idle i owner flds s"
proof -
  have "{j. idle_for now INVOCATION_CONSUMER_GROUP idle j (streams (view R s) INVOCATION_STREAM_KEY)} \<subseteq> {i}"
    using assms(1) by (auto simp: sole_pending_def idle_for_def pending_of_def)
  then show ?thesis using assms unfolding abandoned_def sole_pending_def by (intro conjI exI [of _ "{i}"]) auto
qed

text \<open>The worker that takes the message over dies of it and has become its owner.\<close>

lemma poison_takeover:
  assumes sole: "sole_pending (view R s) i owner t flds" and "abandoned R now nowDate idle i owner flds s"
    and dies: "\<And>fs. job_outcome (fst (run_job sm (runner i) flds fs)) = None"
    and clock: "now \<le> clock i" and "owner \<noteq> w_id w"
  shows "\<exists>w' fs' s'. reclaimFromDeadWorkers R sm runner clock now nowDate idle (w, fs, s) = (Dead, w', fs', s')
    \<and> sole_pending (view R s') i (w_id w) (clock i) flds \<and> published (view R s') = published (view R s)"
proof (rule abandoned_listed [OF assms(2)])
  fix es s1 ws s2
  assume x: "xpending R now INVOCATION_STREAM_KEY INVOCATION_CONSUMER_GROUP idle 10 s = (Inr es, s1)"
    and l: "listWorkers R nowDate s1 = (Inr ws, s2)" and v: "view R s2 = view R s" and i: "(i, owner) \<in> set es" and d: "distinct (map fst es)"
    and own: "\<forall>(j, c) \<in> set es. \<exists>t. pending_of (view R s) j = Some (c, t) \<and> t + idle \<le> now"
    and gone: "Some owner \<notin> ws_workerId ` set (filter ws_healthy ws)"
  have "x = (i, owner)" if mem: "x \<in> set es" for x
  proof -
    obtain j c u where x: "x = (j, c)" "pending_of (view R s) j = Some (c, u)" using bspec [OF own mem] by (auto split: prod.splits)
    then have "j = i" using sole unfolding sole_pending_def by (cases "j = i") simp_all
    with x sole show ?thesis by (simp add: sole_pending_def)
  qed
  note only = this
  obtain y ys where ys: "es = y # ys" using i by (cases es) auto
  then have "ys = []" using only [of y] only [of "hd ys"] d by (cases ys) auto
  then have es: "es = [(i, owner)]" using only [of y] ys by simp
  obtain ms s3 where c: "xclaim R (clock i) INVOCATION_STREAM_KEY INVOCATION_CONSUMER_GROUP (w_id w) idle i s2 = (Inr ms, s3)"
    using xclaim_answers by blast
  have "idle_for (clock i) INVOCATION_CONSUMER_GROUP idle i (streams (view R s2) INVOCATION_STREAM_KEY)"
    using assms(2) clock v by (auto simp: abandoned_def idle_for_def pending_of_def)
  with xclaim_Inr [OF c] sole v have ms: "ms = [(i, flds)]"
    and v3: "view R s3 = upd_stream INVOCATION_STREAM_KEY (own INVOCATION_CONSUMER_GROUP (w_id w) (clock i) i) (view R s)"
    by (simp_all add: sole_pending_def)
  have "worker_handleMessage R sm (runner i) i flds (w, fs, s3) = (Dead, in_flight (w_inFlight w + 1) w, snd (run_job sm (runner i) flds fs), s3)"
    by (rule handle_crash [OF dies])
  then have "reclaimFromDeadWorkers R sm runner clock now nowDate idle (w, fs, s) =
      (Dead, in_flight (w_inFlight w + 1) w, snd (run_job sm (runner i) flds fs), s3)"
    using x l gone assms(5) c ms by (simp add: reclaimFromDeadWorkers_def es)
  moreover have "sole_pending (view R s3) i (w_id w) (clock i) flds" "published (view R s3) = published (view R s)"
    using sole by (simp_all add: sole_pending_def v3) (simp_all add: upd_stream_def own_def)
  ultimately show ?thesis by blast
qed

lemma poison_succession:
  assumes dies: "\<And>fs. job_outcome (fst (run_job sm (runner i) flds fs)) = None"
  shows "sole_pending (view R s) i owner t flds \<Longrightarrow> due R sm runner idle i owner t ks s \<Longrightarrow>
    succession R sm runner idle ks s = (es, s') \<Longrightarrow>
    es = replicate (length ks) Dead \<and> pending_of (view R s') i \<noteq> None \<and> published (view R s') = published (view R s)"
proof (induction ks arbitrary: s owner t es)
  case (Cons k ks)
  let ?s = "tk_before k s"
  have due: "streams (view R ?s) = streams (view R s)" "published (view R ?s) = published (view R s)" "registry_ok R ?s"
    "\<forall>hb. registry R ?s owner = Some hb \<longrightarrow> 10000 < tk_date k - hb_lastHeartbeatAt hb" "t + idle \<le> tk_now k"
    "tk_now k \<le> tk_clock k i" "owner \<noteq> w_id (tk_worker k)"
    "due R sm runner idle i (w_id (tk_worker k)) (tk_clock k i) ks (snd (snd (snd (take_over R sm runner idle k s))))"
    using Cons.prems(2) by simp_all
  have sole: "sole_pending (view R ?s) i owner t flds" using Cons.prems(1) sole_pending_streams [OF due(1)] by simp
  obtain w fs s1 where t: "take_over R sm runner idle k s = (Dead, w, fs, s1)"
    and s1: "sole_pending (view R s1) i (w_id (tk_worker k)) (tk_clock k i) flds" "published (view R s1) = published (view R ?s)"
    using poison_takeover [where clock = "tk_clock k" and runner = runner, OF sole sole_abandoned [OF sole due(3,5,4)] dies due(6,7), of "tk_files k"] by (auto simp: take_over_def)
  obtain es1 where es: "es = Dead # es1" "succession R sm runner idle ks s1 = (es1, s')"
    using Cons.prems(3) t by (auto split: prod.splits)
  show ?case using Cons.IH [OF s1(1) _ es(2)] due(2,8) s1(2) t es(1) by simp
qed (simp add: sole_pending_def)

end

section \<open>A dispatched job in a container\<close>

abbreviation job_options :: "job \<Rightarrow> execute_options" where
  "job_options j \<equiv> \<lparr>opt_timeoutMs = Some (job_timeoutMs j), opt_memoryMb = Some (job_memoryMb j), opt_cpus = None\<rparr>"

lemma container_job:
  assumes "c \<notin> set field_names" and "job_imageTag j \<notin> set field_names" and "json_ok (event_or_empty (job_event j))"
  shows "fst (run_job sm (container_runner malformed docker workDir uuid start) (job_fields c j) fs) =
      Inr (fst (executeVersionedFunction docker workDir uuid start (job_imageTag j) (Some (event_or_empty (job_event j))) (job_options j) fs))"
    and "reply_channel (job_fields c j) = invocationResultChannel c"
proof -
  show "fst (run_job sm (container_runner malformed docker workDir uuid start) (job_fields c j) fs) =
      Inr (fst (executeVersionedFunction docker workDir uuid start (job_imageTag j) (Some (event_or_empty (job_event j))) (job_options j) fs))"
    using run_job_decode [OF assms, of sm "container_runner malformed docker workDir uuid start" fs]
    by (simp add: container_runner_def split: prod.split)
  show "reply_channel (job_fields c j) = invocationResultChannel c"
    using job_fields_decode(1) [OF assms] by (simp add: reply_channel_def undefined_text_def)
qed

lemma container_outcome_ok:
  assumes "job_outcome (Inr (fst (executeVersionedFunction docker workDir uuid start img ev options fs))) = Some out"
  shows "fst (executeVersionedFunction docker workDir uuid start img ev options fs) = Resolved out" and "json_ok (JObj out)"
proof -
  show exec: "fst (executeVersionedFunction docker workDir uuid start img ev options fs) = Resolved out"
    using assms by (simp add: job_outcome_def split: settled.splits)
  show "json_ok (JObj out)" by (rule on_close_ok [OF exec [unfolded execute_fst]])
qed

section \<open>Properties\<close>

text \<open>
  C3. A job survives the death of its worker. Its message is abandoned: pending for a worker that has been silent for ten
  seconds, and idle for the claim time. If Redis answers and no job ends the process, one look of any other
  worker for such messages comes to its end, the message is no longer pending, the job has run in a
  container, and the call that has been waiting all along returns the very outcome of that run.
\<close>

theorem dead_worker_job_served:
  assumes "live_fleet R" and "abandoned R now nowDate claimIdleMs i owner (job_fields c j) s" and "owner \<noteq> w_id w"
    and "never_dies sm runner" and "\<forall>k. now \<le> clock k" and "runner i = container_runner malformed docker workDir uuid start"
    and "c \<notin> set field_names" and "job_imageTag j \<notin> set field_names" and "json_ok (event_or_empty (job_event j))"
    and "reachable d" and "\<not> crashed d" and "positions d c = Some Awaiting" and "promises d c = Some Pending"
  shows "\<exists>w' fs' s' out fs1 d'. reclaimFromDeadWorkers R sm runner clock now nowDate claimIdleMs (w, fs, s) = (Done, w', fs', s')
    \<and> pending_of (view R s') i = None
    \<and> fst (executeVersionedFunction docker workDir uuid start (job_imageTag j) (Some (event_or_empty (job_event j)))
           (job_options j) fs1) = Resolved out
    \<and> (invocationResultChannel c, stringify (JObj out)) \<in> set (published (view R s'))
    \<and> run (Message (invocationResultChannel c) (stringify (JObj out)) # finish c) d = Some d'
    \<and> positions d' c = Some (Returned (Inr (JObj out)))"
proof -
  obtain w' fs' s' where r: "reclaimFromDeadWorkers R sm runner clock now nowDate claimIdleMs (w, fs, s) = (Done, w', fs', s')"
    "pending_of (view R s') i = None" "replied sm runner i (job_fields c j) (view R s')"
    using live_fleet.abandoned_served [OF assms(1,2,4) _ assms(3), of clock fs] assms(5) by blast
  then obtain fs1 out where out: "job_outcome (fst (run_job sm (runner i) (job_fields c j) fs1)) = Some out"
    and sent: "(reply_channel (job_fields c j), stringify (JObj out)) \<in> set (published (view R s'))" by (auto simp: replied_def)
  note run = container_job [OF assms(7-9)]
  from container_outcome_ok [OF out [unfolded assms(6) run(1)]] reply_returns [OF assms(10-13)] r(1,2) sent [unfolded run(2)]
  show ?thesis by metis
qed

text \<open>
  C35. A function can take down every worker. Let the containers of an image leave a result file that is not JSON. The
  worker that runs such a job dies and leaves its message pending; each time the message has become abandoned, the
  worker that takes it over dies as well -- all of them in turn, however many there are; the message stays pending, and
  nobody ever replies to the caller.
\<close>

theorem poison_job_kills_fleet:
  assumes "live_fleet R" and "parse garbage = None"
    and "\<And>args limit fs. last args = job_imageTag j \<Longrightarrow> result_file (docker args limit fs) = Some garbage"
    and "c \<notin> set field_names" and "job_imageTag j \<notin> set field_names" and "json_ok (event_or_empty (job_event j))"
    and "sole_pending (view R s) i owner t (job_fields c j)"
    and "due R sm (\<lambda>_. container_runner malformed docker workDir uuid start) claimIdleMs i owner t ks s"
    and "succession R sm (\<lambda>_. container_runner malformed docker workDir uuid start) claimIdleMs ks s = (endings, s')"
  shows "endings = replicate (length ks) Dead \<and> pending_of (view R s') i \<noteq> None \<and> published (view R s') = published (view R s)"
proof -
  have "job_outcome (fst (run_job sm (container_runner malformed docker workDir uuid start) (job_fields c j) fs)) = None" for fs
    unfolding container_job(1) [OF assms(4-6)] using assms(2,3) by (simp add: execute_fst job_outcome_def on_close_def container_last)
  then show ?thesis using live_fleet.poison_succession [OF assms(1) _ assms(7-9)] by blast
qed

section \<open>Witnesses\<close>

lemma demo_unregistered: "registry_ok mem_redis demo_queue" "registry mem_redis demo_queue w = None"
  by (simp_all add: registry_ok_def registry_def mem_redis_def mem_view_def demo_queue_def mem_stream_def empty_mem_def)

lemma demo_sole: "sole_pending (view mem_redis demo_queue) ''1'' ''w1'' 0 (job_fields ''c1'' demo_job)"
  by (simp add: sole_pending_def pending_of_def mem_redis_def demo_queue_def mem_stream_def deliver_def own_def append_entry_def
      empty_mem_def empty_stream_def del: stringify.simps)

lemma demo_container_lives:
  "never_dies sm (\<lambda>_. container_runner (\<lambda>_ _ _ _ fs. (Inl ''no image'', fs)) demo_docker ''/t/w'' ''u'' 100)"
proof -
  have "r = Resolved (outcome_success (JNum 7) 20)"
    if "executeVersionedFunction demo_docker ''/t/w'' ''u'' 100 img ev options fs = (r, fs')" for img ev options fs r fs'
    using execute_fst [of demo_docker "''/t/w''" "''u''" 100 img ev options fs] that by (simp add: demo_docker_def demo_on_close)
  note resolves = this
  show ?thesis
    by (auto simp: never_dies_def run_job_def container_runner_def job_outcome_def dest!: resolves split: option.splits prod.splits)
qed

text \<open>Witness of C3: worker \<open>w1\<close> has never sent a heartbeat and has had the job of call \<open>c1\<close> for nine seconds.\<close>

theorem dead_worker_job_served_witness:
  "\<exists>d w' fs' s' d' out. run (demo_sending @ [XaddOk ''c1'']) init_dispatcher = Some d
     \<and> reclaimFromDeadWorkers mem_redis undefined_text
         (\<lambda>_. container_runner (\<lambda>_ _ _ _ fs. (Inl ''no image'', fs)) demo_docker ''/t/w'' ''u'' 100)
         (\<lambda>_. 9000) 9000 9000 8000 (demo_worker, Map.empty, demo_queue) = (Done, w', fs', s')
     \<and> pending_of (view mem_redis s') ''1'' = None
     \<and> run (Message (invocationResultChannel ''c1'') (stringify (JObj out)) # finish ''c1'') d = Some d'
     \<and> positions d' ''c1'' = Some (Returned (Inr (JObj out)))"
proof -
  obtain d where d: "run (demo_sending @ [XaddOk ''c1'']) init_dispatcher = Some d" "positions d ''c1'' = Some Awaiting"
    "\<not> crashed d" "promises d ''c1'' = Some Pending" using demo_awaiting_run by blast
  have "abandoned mem_redis 9000 9000 8000 ''1'' ''w1'' (job_fields ''c1'' demo_job) demo_queue"
    by (rule memfleet.sole_abandoned [OF demo_sole]) (simp_all add: demo_unregistered)
  moreover have "''w1'' \<noteq> w_id demo_worker" "\<forall>k :: string. (9000 :: nat) \<le> 9000" by (simp_all add: demo_worker_def)
  ultimately show ?thesis
    using dead_worker_job_served [where clock = "\<lambda>_. 9000" and w = demo_worker and sm = undefined_text and fs = Map.empty,
        OF memfleet.live_fleet_axioms _ _ demo_container_lives _ HOL.refl demo_job_ok reachable_run [OF reachable.init d(1)] d(3,2,4)] d(1)
    by blast
qed

text \<open>Two workers, ten seconds apart; nobody is registered.\<close>

definition demo_heir :: "string \<Rightarrow> nat \<Rightarrow> mem takeover" where
  "demo_heir i t = \<lparr>tk_worker = demo_worker\<lparr>w_id := i\<rparr>, tk_files = Map.empty, tk_now = t, tk_date = int t, tk_clock = (\<lambda>_. t),
     tk_before = (\<lambda>s. s\<lparr>mem_hash := (\<lambda>_. [])\<rparr>)\<rparr>"

definition demo_poison :: docker where
  "demo_poison args limit fs = \<lparr>exitCode = Some 0, stderr_text = [], result_file = Some ''oops'', closed_at = 7\<rparr>"

lemma demo_forgets:
  "streams (view mem_redis (s\<lparr>mem_hash := (\<lambda>_. [])\<rparr>)) = streams (view mem_redis s)"
  "published (view mem_redis (s\<lparr>mem_hash := (\<lambda>_. [])\<rparr>)) = published (view mem_redis s)"
  "registry_ok mem_redis (s\<lparr>mem_hash := (\<lambda>_. [])\<rparr>)" "registry mem_redis (s\<lparr>mem_hash := (\<lambda>_. [])\<rparr>) w = None"
  by (simp_all add: mem_redis_def mem_view_def registry_ok_def registry_def)

text \<open>Witness of C35: the job of call \<open>c1\<close> kills \<open>w2\<close>, then \<open>w3\<close>.\<close>

theorem poison_job_kills_fleet_witness:
  "\<exists>s'. succession mem_redis undefined_text (\<lambda>_. container_runner demo_runner demo_poison ''/t/w'' ''u'' 0) 8000
      [demo_heir ''w2'' 20000, demo_heir ''w3'' 40000] demo_queue = ([Dead, Dead], s')
    \<and> pending_of (view mem_redis s') ''1'' \<noteq> None \<and> published (view mem_redis s') = published (view mem_redis demo_queue)"
proof -
  let ?runner = "\<lambda>_. container_runner demo_runner demo_poison ''/t/w'' ''u'' 0" and ?ks = "[demo_heir ''w2'' 20000, demo_heir ''w3'' 40000]"
  obtain es s' where s: "succession mem_redis undefined_text ?runner 8000 ?ks demo_queue = (es, s')" by fastforce
  have "due mem_redis undefined_text ?runner 8000 ''1'' ''w1'' 0 ?ks demo_queue"
    by (simp add: demo_heir_def demo_forgets)
  moreover have "parse ''oops'' = None" by code_simp
  ultimately have "es = replicate (length ?ks) Dead \<and> pending_of (view mem_redis s') ''1'' \<noteq> None
      \<and> published (view mem_redis s') = published (view mem_redis demo_queue)"
    using poison_job_kills_fleet [OF memfleet.live_fleet_axioms _ _ demo_job_ok demo_sole _ s, of "''oops''"]
    by (simp add: demo_poison_def)
  with s show ?thesis by (simp add: numeral_2_eq_2)
qed

end
