(* ===== verification/Invocation.thy ===== *)
theory Invocation
  imports Client Fleet
begin

text \<open>
  An invocation over HTTP with nothing left abstract between the request and the handler: the API
  (\<open>Api\<close>) calls the dispatcher (\<open>Dispatch\<close>), which puts the job into the stream; a worker (\<open>Worker\<close>) reads it and runs it in a
  container with the shim (\<open>Container_Executor\<close>, \<open>Runtime\<close>); the reply comes back the same way.
\<close>

section \<open>The dispatcher with a worker behind it\<close>

text \<open>What a call returned, once it has.\<close>

definition returned :: "string \<Rightarrow> dispatcher option \<Rightarrow> string + json" where
  "returned c d = (case Option.bind d (\<lambda>d. positions d c) of Some (Returned r) \<Rightarrow> r | _ \<Rightarrow> Inl ''the call has not returned'')"

text \<open>
  \<open>dispatch\<close> of a job as call \<open>c\<close>: it subscribes and adds the job to the stream; a worker goes once round its loop; what it
  published on the channel of the call arrives. Without such a message the timer of the call goes off.
\<close>

definition dispatch_through ::
  "'r redis \<Rightarrow> (string option \<Rightarrow> string) \<Rightarrow> (string \<Rightarrow> runner) \<Rightarrow> (string \<Rightarrow> nat) \<Rightarrow> nat \<Rightarrow> int \<Rightarrow> nat \<Rightarrow> nat \<Rightarrow> worker \<times> files \<Rightarrow>
   string \<Rightarrow> dispatcher \<Rightarrow> 'r \<Rightarrow> job \<Rightarrow> string + json" where
  "dispatch_through R sm runner clock now nowDate now' claimIdleMs wk c d s j =
     (case xadd R INVOCATION_STREAM_KEY (job_fields c j) s of
        (Inl m, s1) \<Rightarrow> returned c (run [Call c j, SubscribeOk c, XaddFails c m, UnsubscribeOk c] d)
      | (Inr _, s1) \<Rightarrow>
          (let (e, w', fs', s2) = worker_iteration R sm runner clock now nowDate now' claimIdleMs (fst wk, snd wk, s1);
               fresh = drop (length (published (view R s1))) (published (view R s2));
               arrived = filter (\<lambda>x. fst x = invocationResultChannel c) fresh
           in returned c (run ([Call c j, SubscribeOk c, XaddOk c] @ map (\<lambda>x. Message (fst x) (snd x)) arrived
                @ (if arrived = [] then [Timer c] else []) @ finish c) d)))"

text \<open>Every message in the stream has been delivered and acknowledged.\<close>

definition jobs_idle :: "redis_view \<Rightarrow> bool" where
  "jobs_idle V \<longleftrightarrow> delivered (streams V INVOCATION_STREAM_KEY) INVOCATION_CONSUMER_GROUP = fst ` set (entries (streams V INVOCATION_STREAM_KEY))
     \<and> (\<forall>i. pending_of V i = None)"

lemma call_sent:
  assumes "reachable d" and "\<not> crashed d" and "positions d c = None"
  obtains d' where "run [Call c j, SubscribeOk c, XaddOk c] d = Some d'" and "reachable d'" and "\<not> crashed d'"
    and "positions d' c = Some Awaiting" and "promises d' c = Some Pending"
proof -
  obtain d' where d': "run [Call c j, SubscribeOk c, XaddOk c] d = Some d'" "\<not> crashed d'" "positions d' c = Some Awaiting" "promises d' c = Some Pending"
    using assms(2,3) by (simp add: dispatch_call_def at_position_def)
  then show thesis using that reachable_run [OF assms(1)] by blast
qed

context live_fleet
begin

text \<open>With an idle queue, the next iteration of a worker serves the job that has just been added.\<close>

lemma new_job_served:
  assumes "jobs_idle (view R s)" and x: "xadd R INVOCATION_STREAM_KEY flds s = (Inr i, s1)"
    and out: "job_outcome (fst (run_job sm (runner i) flds fs)) = Some out"
  shows "\<exists>w' fs' s2. worker_iteration R sm runner clock now nowDate now' claimIdleMs (w, fs, s1) = (Done, w', fs', s2)
    \<and> published (view R s1) = published (view R s)
    \<and> published (view R s2) = published (view R s) @ [(reply_channel flds, stringify (JObj out))]"
proof -
  let ?K = INVOCATION_STREAM_KEY and ?G = INVOCATION_CONSUMER_GROUP
  have v1: "view R s1 = upd_stream ?K (append_entry i flds) (view R s)" and i: "i \<notin> fst ` set (entries (streams (view R s) ?K))"
    using xadd_Inr [OF x] by auto
  have none: "pending_of (view R s1) j = None" for j
    using assms(1) by (simp add: jobs_idle_def v1 pending_of_def upd_stream_def append_entry_def)
  obtain es s2 where p: "xpending R now ?K ?G claimIdleMs 10 s1 = (Inr es, s2)" using xpending_answers by blast
  have "es = []" using xpending_Inr [OF p] none by (cases es) (auto simp: pending_of_def)
  then have r: "reclaimFromDeadWorkers R sm runner clock now nowDate claimIdleMs (w, fs, s1) = (Done, w, fs, s2)"
    using p by (simp add: reclaimFromDeadWorkers_def)
  note v2 = xpending_view [OF p]
  have d: "delivered (streams (view R s2) ?K) ?G = fst ` set (entries (streams (view R s) ?K))"
    and e: "entries (streams (view R s2) ?K) = entries (streams (view R s) ?K) @ [(i, flds)]"
    using assms(1) by (simp_all add: v2 v1 upd_stream_def append_entry_def jobs_idle_def)
  have "find (\<lambda>x. fst x \<notin> fst ` set es) es = None" for es :: "entry list" by (force simp: find_None_iff)
  then have f: "find (\<lambda>x. fst x \<notin> delivered (streams (view R s2) ?K) ?G) (entries (streams (view R s2) ?K)) = Some (i, flds)"
    using i by (simp add: d e find_append)
  have u: "undelivered ?G (streams (view R s2) ?K) \<noteq> []" using i by (auto simp: undelivered_def d e)
  obtain ms s3 where g: "xreadgroup R now' ?K ?G (w_id w) s2 = (Inr ms, s3)" "ms \<noteq> []" using xreadgroup_answers u by blast
  then have ms: "ms = [(i, flds)]" and v3: "view R s3 = upd_stream ?K (deliver ?G (w_id w) now' i) (view R s2)"
    using xreadgroup_Inr [OF g(1)] f by auto
  obtain w' s4 where h: "worker_handleMessage R sm (runner i) i flds (w, fs, s3) = (Done, w', snd (run_job sm (runner i) flds fs), s4)"
    and v4: "view R s4 = acked i (say (reply_channel flds) (stringify (JObj out)) (view R s3))"
    unfolding handle_outcome [OF out] using reply_done by blast
  have "worker_iteration R sm runner clock now nowDate now' claimIdleMs (w, fs, s1) = (Done, w', snd (run_job sm (runner i) flds fs), s4)"
    using r g(1) ms h by (simp add: worker_iteration_def worker_readAndProcessOnce_def)
  moreover have "published (view R s1) = published (view R s)" by (simp add: v1 upd_stream_def)
  moreover have "published (view R s4) = published (view R s) @ [(reply_channel flds, stringify (JObj out))]"
    by (simp add: v4 v3 v2 v1 acked_def say_def upd_stream_def del: stringify.simps)
  ultimately show ?thesis by blast
qed

lemma dispatch_through_returns:
  assumes "jobs_idle (view R s)" and "reachable d" and "\<not> crashed d" and "positions d c = None"
    and out: "\<And>i. job_outcome (fst (run_job sm (runner i) (job_fields c j) fs)) = Some out" and "json_ok (JObj out)"
    and "reply_channel (job_fields c j) = invocationResultChannel c"
  shows "dispatch_through R sm runner clock now nowDate now' claimIdleMs (w, fs) c d s j = Inr (JObj out)"
proof -
  let ?m = "(invocationResultChannel c, stringify (JObj out))"
  obtain i s1 where x: "xadd R INVOCATION_STREAM_KEY (job_fields c j) s = (Inr i, s1)" using xadd_answers by blast
  from new_job_served [where clock = clock and now = now and nowDate = nowDate and now' = now' and claimIdleMs = claimIdleMs and w = w and runner = runner,
      OF assms(1) x out, unfolded assms(7)] obtain w' fs' s2 where
    it: "worker_iteration R sm runner clock now nowDate now' claimIdleMs (w, fs, s1) = (Done, w', fs', s2)"
    and p: "published (view R s1) = published (view R s)" "published (view R s2) = published (view R s) @ [?m]"
    by blast
  obtain d1 where d1: "run [Call c j, SubscribeOk c, XaddOk c] d = Some d1" "reachable d1" "\<not> crashed d1" "positions d1 c = Some Awaiting"
    "promises d1 c = Some Pending" by (rule call_sent [OF assms(2-4)])
  from reply_returns [OF d1(2-5) assms(6)] obtain d2 where
    d2: "run (Message (fst ?m) (snd ?m) # finish c) d1 = Some d2" "positions d2 c = Some (Returned (Inr (JObj out)))" by auto
  have "dispatch_through R sm runner clock now nowDate now' claimIdleMs (w, fs) c d s j =
      returned c (run ([Call c j, SubscribeOk c, XaddOk c] @ (Message (fst ?m) (snd ?m) # finish c)) d)"
    by (simp add: dispatch_through_def x it p del: stringify.simps run.simps)
  also have "\<dots> = returned c (run (Message (fst ?m) (snd ?m) # finish c) d1)"
    unfolding run_append d1(1) by simp
  finally show ?thesis unfolding d2(1) by (simp add: returned_def d2(2))
qed

end

section \<open>From the outcome to the response\<close>

text \<open>What the caller of a function is answered, for each way its handler can end.\<close>

definition handler_response :: "settlement option \<Rightarrow> int \<Rightarrow> response" where
  "handler_response res d =
     (case res of
        Some (Resolves (Json v)) \<Rightarrow>
          \<lparr>rs_status = 200, rs_functionError = None, rs_body = Invoke_body [(''result'', v), (''durationMs'', JNum d)]\<rparr>
      | Some (Resolves _) \<Rightarrow>
          \<lparr>rs_status = 200, rs_functionError = None, rs_body = Invoke_body [(''durationMs'', JNum d)]\<rparr>
      | Some (Rejects err) \<Rightarrow>
          \<lparr>rs_status = 200, rs_functionError = Some ''Unhandled'',
           rs_body = Invoke_body [(''errorMessage'', JStr (error_message err)), (''durationMs'', JNum d)]\<rparr>
      | None \<Rightarrow>
          \<lparr>rs_status = 200, rs_functionError = Some ''Timeout'',
           rs_body = Invoke_body [(''errorMessage'', JStr ''Function timed out''), (''durationMs'', JNum d)]\<rparr>)"

lemma member_verdict: "k \<noteq> ''durationMs'' \<Longrightarrow> member k out = member k (verdict out)"
  by (induction out) (auto simp: member_def verdict_def)

lemma response_of_verdict:
  assumes "verdict out = settled_verdict res" and "member ''durationMs'' out = Some (JNum d)"
  shows "(let r = invoke_response (JObj out) in
     \<lparr>rs_status = resp_status r, rs_functionError = resp_functionError r, rs_body = Invoke_body (resp_body r)\<rparr>) = handler_response res d"
proof -
  have m: "js_get k (JObj out) = member k (settled_verdict res)" if "k \<noteq> ''durationMs''" for k
    using member_verdict [OF that, of out] assms(1) by (simp add: js_get_def)
  have "js_get ''durationMs'' (JObj out) = Some (JNum d)" using assms(2) by (simp add: js_get_def)
  then show ?thesis
    by (auto simp: invoke_response_def m settled_verdict_def of_settlement_def member_def json_body_def handler_response_def Let_def
        split: option.split settlement.split js_value.split)
qed

section \<open>Properties\<close>


section \<open>Witnesses\<close>

text \<open>The worker \<open>w2\<close> behind the dispatcher, with containers in which an echo answers after 200 ms.\<close>

definition demo_served :: "(string \<Rightarrow> string \<rightharpoonup> string, mem) env" where
  "demo_served = (demo_api ''x'')\<lparr>e_dispatch := dispatch_through mem_redis undefined_text
     (\<lambda>_. container_runner demo_runner (shim_docker demo_shim_host) ''/t/w'' ''u'' 0) (\<lambda>_. 0) 0 9000 0 8000
     (demo_worker, Map.empty) ''c1'' init_dispatcher demo_fleet\<rparr>"

lemma demo_fleet_jobs: "jobs_idle (view mem_redis demo_fleet)"
  by (simp add: jobs_idle_def pending_of_def demo_fleet_def demo_ready_def heartbeat_def mem_redis_def mem_view_def mem_xgroup_def
      mem_stream_def start_group_def empty_mem_def empty_stream_def)


end
