(* ===== verification/Wiring.thy ===== *)
theory Wiring
  imports MC_Prelude
begin

text \<open>
  How the two processes are put together: the modules of Nest with what they import, provide, export
  and serve (\<open>*.module.ts\<close>), the parameters of the constructors, and the roots that \<open>main.ts\<close> and
  \<open>worker-main.ts\<close> start. Nest itself is not modelled; what is used of it is its documented rule that a
  class gets its dependencies from its own module, from what the imported modules export, and from what the
  global modules of the same application export.
\<close>

section \<open>Classes, tokens and modules\<close>

datatype token =
    PrismaService
  | REDIS_CLIENT
  | ObjectStorageService
  | WorkerRegistryService
  | MetricsService
  | JwtService
  | Reflector
  | AuthService
  | AuthGuard_class
  | ScopesGuard_class
  | InvocationDispatchService
  | FunctionsService
  | BuildService
  | BuildOutboxRelayService
  | BuildStreamConsumerService
  | LocalDockerBuildExecutor
  | CodeBuildExecutor
  | BUILD_EXECUTOR
  | WorkerService
  | WorkerMetricsServerService
  | AuthController
  | FunctionsController
  | BuildController
  | WorkersController
  | MetricsController
  | HealthController

datatype nest_name =
    AppModule
  | PrismaModule
  | RedisModule
  | StorageModule
  | WorkerRegistryModule
  | MetricsModule
  | JwtModule
  | AuthModule
  | InvocationDispatchModule
  | FunctionsModule
  | BuildModule
  | WorkersModule
  | MetricsHttpModule
  | HealthModule
  | WorkerModule

record nest_module =
  m_global :: bool
  m_imports :: "nest_name list"
  m_controllers :: "token list"
  m_providers :: "token list"
  m_exports :: "token list"

text \<open>A global module that imports nothing and exports the one service it provides.\<close>

definition global_service :: "token \<Rightarrow> nest_module" where
  "global_service t = \<lparr>m_global = True, m_imports = [], m_controllers = [], m_providers = [t], m_exports = [t]\<rparr>"

text \<open>A module that only serves the routes of one controller.\<close>

definition routes_only :: "token \<Rightarrow> nest_module" where
  "routes_only c = \<lparr>m_global = False, m_imports = [], m_controllers = [c], m_providers = [], m_exports = []\<rparr>"

definition app_module :: nest_module where
  "app_module = \<lparr>m_global = False,
     m_imports = [PrismaModule, RedisModule, StorageModule, WorkerRegistryModule, MetricsModule, AuthModule,
       FunctionsModule, BuildModule, WorkersModule, MetricsHttpModule, HealthModule],
     m_controllers = [], m_providers = [], m_exports = []\<rparr>"

definition prisma_module :: nest_module where
  "prisma_module = global_service PrismaService"

definition redis_module :: nest_module where
  "redis_module = global_service REDIS_CLIENT"

definition storage_module :: nest_module where
  "storage_module = global_service ObjectStorageService"

definition worker_registry_module :: nest_module where
  "worker_registry_module = (global_service WorkerRegistryService)\<lparr>m_imports := [RedisModule]\<rparr>"

definition metrics_module :: nest_module where
  "metrics_module = global_service MetricsService"

text \<open>The module that \<open>JwtModule.register\<close> of \<open>@nestjs/jwt\<close> returns.\<close>

definition jwt_module :: nest_module where
  "jwt_module = (global_service JwtService)\<lparr>m_global := False\<rparr>"

definition auth_module :: nest_module where
  "auth_module = \<lparr>m_global = True, m_imports = [JwtModule], m_controllers = [AuthController],
     m_providers = [AuthService, AuthGuard_class, ScopesGuard_class],
     m_exports = [AuthService, AuthGuard_class, ScopesGuard_class]\<rparr>"

definition invocation_dispatch_module :: nest_module where
  "invocation_dispatch_module = (global_service InvocationDispatchService)\<lparr>m_global := False\<rparr>"

definition functions_module :: nest_module where
  "functions_module = \<lparr>m_global = False, m_imports = [InvocationDispatchModule],
     m_controllers = [FunctionsController], m_providers = [FunctionsService], m_exports = [FunctionsService]\<rparr>"

definition build_module :: nest_module where
  "build_module = \<lparr>m_global = False, m_imports = [FunctionsModule], m_controllers = [BuildController],
     m_providers = [BuildService, BuildOutboxRelayService, BuildStreamConsumerService, LocalDockerBuildExecutor,
       CodeBuildExecutor, BUILD_EXECUTOR],
     m_exports = []\<rparr>"

definition workers_module :: nest_module where
  "workers_module = routes_only WorkersController"

definition metrics_http_module :: nest_module where
  "metrics_http_module = routes_only MetricsController"

definition health_module :: nest_module where
  "health_module = routes_only HealthController"

definition worker_module :: nest_module where
  "worker_module = \<lparr>m_global = False, m_imports = [RedisModule, WorkerRegistryModule, MetricsModule],
     m_controllers = [], m_providers = [WorkerService, WorkerMetricsServerService], m_exports = []\<rparr>"

fun module_of :: "nest_name \<Rightarrow> nest_module" where
  "module_of AppModule = app_module"
| "module_of PrismaModule = prisma_module"
| "module_of RedisModule = redis_module"
| "module_of StorageModule = storage_module"
| "module_of WorkerRegistryModule = worker_registry_module"
| "module_of MetricsModule = metrics_module"
| "module_of JwtModule = jwt_module"
| "module_of AuthModule = auth_module"
| "module_of InvocationDispatchModule = invocation_dispatch_module"
| "module_of FunctionsModule = functions_module"
| "module_of BuildModule = build_module"
| "module_of WorkersModule = workers_module"
| "module_of MetricsHttpModule = metrics_http_module"
| "module_of HealthModule = health_module"
| "module_of WorkerModule = worker_module"

lemmas module_defs = global_service_def routes_only_def app_module_def prisma_module_def redis_module_def
  storage_module_def worker_registry_module_def metrics_module_def jwt_module_def auth_module_def
  invocation_dispatch_module_def functions_module_def build_module_def workers_module_def
  metrics_http_module_def health_module_def worker_module_def

text \<open>The parameters of a class's constructor; for \<open>BUILD_EXECUTOR\<close> those of its factory.\<close>

fun inject :: "token \<Rightarrow> token list" where
  "inject WorkerRegistryService = [REDIS_CLIENT]"
| "inject AuthService = [PrismaService, JwtService]"
| "inject AuthGuard_class = [AuthService]"
| "inject ScopesGuard_class = [Reflector]"
| "inject InvocationDispatchService = [REDIS_CLIENT]"
| "inject FunctionsService = [PrismaService, InvocationDispatchService, WorkerRegistryService]"
| "inject BuildService = [PrismaService, ObjectStorageService, BUILD_EXECUTOR]"
| "inject BuildOutboxRelayService = [PrismaService, REDIS_CLIENT]"
| "inject BuildStreamConsumerService = [REDIS_CLIENT, PrismaService, BuildService]"
| "inject LocalDockerBuildExecutor = [ObjectStorageService]"
| "inject BUILD_EXECUTOR = [LocalDockerBuildExecutor, CodeBuildExecutor]"
| "inject WorkerService = [REDIS_CLIENT, WorkerRegistryService, MetricsService]"
| "inject WorkerMetricsServerService = [MetricsService]"
| "inject AuthController = [AuthService]"
| "inject FunctionsController = [FunctionsService]"
| "inject BuildController = [FunctionsService, BuildService]"
| "inject WorkersController = [WorkerRegistryService]"
| "inject MetricsController = [MetricsService, WorkerRegistryService, REDIS_CLIENT]"
| "inject _ = []"

text \<open>The guards of \<open>@UseGuards\<close>; they are constructed in the module of the controller.\<close>

fun guards_of :: "token \<Rightarrow> token list" where
  "guards_of AuthController = [AuthGuard_class]"
| "guards_of FunctionsController = [AuthGuard_class, ScopesGuard_class]"
| "guards_of BuildController = [AuthGuard_class, ScopesGuard_class]"
| "guards_of WorkersController = [AuthGuard_class]"
| "guards_of _ = []"

text \<open>The classes with an \<open>onModuleInit\<close> hook.\<close>

fun has_onModuleInit :: "token \<Rightarrow> bool" where
  "has_onModuleInit PrismaService = True"
| "has_onModuleInit ObjectStorageService = True"
| "has_onModuleInit InvocationDispatchService = True"
| "has_onModuleInit BuildOutboxRelayService = True"
| "has_onModuleInit BuildStreamConsumerService = True"
| "has_onModuleInit WorkerService = True"
| "has_onModuleInit WorkerMetricsServerService = True"
| "has_onModuleInit _ = False"

text \<open>What the entry points start: \<open>main.ts\<close> an HTTP application, \<open>worker-main.ts\<close> a context without one.\<close>

definition api_root :: nest_name where
  "api_root = AppModule"

definition worker_root :: nest_name where
  "worker_root = WorkerModule"

text \<open>Where the API listens (\<^term>\<open>None\<close> is \<open>NaN\<close>), and which Redis both processes use.\<close>

definition PORT :: "string option \<Rightarrow> int option" where
  "PORT env = (case env of Some v \<Rightarrow> if v = [] then Some 3000 else number_of_string v | None \<Rightarrow> Some 3000)"

definition REDIS_URL :: "string option \<Rightarrow> string" where
  "REDIS_URL env = (case env of Some v \<Rightarrow> v | None \<Rightarrow> ''redis://localhost:6379'')"

section \<open>Loading an application\<close>

lemma nest_name_UNIV: "(UNIV :: nest_name set) =
  {AppModule, PrismaModule, RedisModule, StorageModule, WorkerRegistryModule, MetricsModule, JwtModule, AuthModule,
   InvocationDispatchModule, FunctionsModule, BuildModule, WorkersModule, MetricsHttpModule, HealthModule, WorkerModule}"
  by (auto intro: nest_name.exhaust)

lemma finite_modules [simp]: "finite (A :: nest_name set)"
  by (rule finite_subset [OF subset_UNIV]) (simp add: nest_name_UNIV)

text \<open>Imports are followed depth first; a module that is already loaded is not loaded again.\<close>

function load :: "nest_name list \<Rightarrow> nest_name list \<Rightarrow> nest_name list" where
  "load seen [] = seen"
| "load seen (m # ms) =
     (if m \<in> set seen then load seen ms else load (seen @ [m]) (m_imports (module_of m) @ ms))"
  by pat_completeness auto
termination
  by (relation "inv_image (finite_psubset <*lex*> measure length) (\<lambda>(seen, ms). (- set seen, ms))") auto

definition modules_of :: "nest_name \<Rightarrow> nest_name list" where
  "modules_of root = load [] [root]"

text \<open>The instances an application holds: the providers, controllers and guards of its modules.\<close>

definition constructed :: "nest_name \<Rightarrow> token list" where
  "constructed m = m_providers (module_of m) @ m_controllers (module_of m) @ concat (map guards_of (m_controllers (module_of m)))"

definition instances :: "nest_name \<Rightarrow> token list" where
  "instances root = concat (map constructed (modules_of root))"

text \<open>What can be injected within a module. \<open>Reflector\<close> comes with Nest.\<close>

definition visible :: "nest_name \<Rightarrow> nest_name \<Rightarrow> token list" where
  "visible root m =
     Reflector # m_providers (module_of m) @ concat (map (\<lambda>i. m_exports (module_of i)) (m_imports (module_of m)))
     @ concat (map (\<lambda>g. m_exports (module_of g)) (filter (\<lambda>g. m_global (module_of g)) (modules_of root)))"

text \<open>The parameters that would stop Nest at start-up.\<close>

definition unresolved :: "nest_name \<Rightarrow> (nest_name \<times> token) list" where
  "unresolved root =
     concat (map (\<lambda>m. map (Pair m) (filter (\<lambda>t. t \<notin> set (visible root m)) (concat (map inject (constructed m))))) (modules_of root))"

section \<open>Properties\<close>

definition imports_rel :: "(nest_name \<times> nest_name) set" where
  "imports_rel = {(m, i). i \<in> set (m_imports (module_of m))}"

definition needs_rel :: "(token \<times> token) set" where
  "needs_rel = {(t, d). d \<in> set (inject t)}"

text \<open>
  Loading keeps what it has, loads the modules it is given and everything they import, and nothing
  else.
\<close>

lemma load_sound: "set (load seen ms) \<subseteq> set seen \<union> imports_rel\<^sup>* `` set ms"
proof (induction seen ms rule: load.induct)
  case (2 seen m ms)
  have "imports_rel\<^sup>* `` set (m_imports (module_of m)) \<subseteq> imports_rel\<^sup>* `` {m}"
    by (auto simp: imports_rel_def intro: converse_rtrancl_into_rtrancl)
  then show ?case using 2 by (auto simp: Image_Un split: if_splits) blast+
qed simp

lemma load_complete:
  assumes "imports_rel `` set seen \<subseteq> set seen \<union> set ms"
  shows "set seen \<union> set ms \<subseteq> set (load seen ms) \<and> imports_rel `` set (load seen ms) \<subseteq> set (load seen ms)"
  using assms
proof (induction seen ms rule: load.induct)
  case (2 seen m ms)
  show ?case
  proof (cases "m \<in> set seen")
    case True
    with 2(1) 2(3) show ?thesis by auto
  next
    case False
    have "imports_rel `` set (seen @ [m]) \<subseteq> set (seen @ [m]) \<union> set (m_imports (module_of m) @ ms)"
      using 2(3) by (auto simp: imports_rel_def)
    from 2(2) [OF False this] False show ?thesis by auto
  qed
qed simp

lemma modules_of_reachable: "set (modules_of root) = imports_rel\<^sup>* `` {root}"
proof -
  have c: "root \<in> set (modules_of root)" "imports_rel `` set (modules_of root) \<subseteq> set (modules_of root)"
    using load_complete [of "[]" "[root]"] by (auto simp: modules_of_def)
  have "m \<in> set (modules_of root)" if "(root, m) \<in> imports_rel\<^sup>*" for m
    using that by induction (use c in auto)
  then show ?thesis using load_sound [of "[]" "[root]"] by (auto simp: modules_of_def)
qed

lemma load_distinct: "distinct seen \<Longrightarrow> distinct (load seen ms)"
  by (induction seen ms rule: load.induct) auto

lemma modules_of_distinct: "distinct (modules_of root)"
  by (simp add: modules_of_def load_distinct)

text \<open>How far a class is from those without parameters.\<close>

fun rank_of :: "token \<Rightarrow> nat" where
  "rank_of BUILD_EXECUTOR = 2"
| "rank_of BuildService = 3"
| "rank_of BuildStreamConsumerService = 4"
| "rank_of BuildController = 4"
| "rank_of FunctionsService = 2"
| "rank_of FunctionsController = 3"
| "rank_of AuthGuard_class = 2"
| "rank_of AuthController = 2"
| "rank_of WorkersController = 2"
| "rank_of MetricsController = 2"
| "rank_of WorkerService = 2"
| "rank_of t = (if inject t = [] then 0 else 1)"

lemma inject_rank: "d \<in> set (inject t) \<Longrightarrow> rank_of d < rank_of t"
  by (cases t) auto

lemma needs_acyclic: "wf (needs_rel\<inverse>)"
  by (rule wf_subset [OF wf_measure [of rank_of]]) (auto simp: needs_rel_def inject_rank)

lemma api_modules: "modules_of AppModule =
  [AppModule, PrismaModule, RedisModule, StorageModule, WorkerRegistryModule, MetricsModule, AuthModule, JwtModule,
   FunctionsModule, InvocationDispatchModule, BuildModule, WorkersModule, MetricsHttpModule, HealthModule]"
  by (simp add: modules_of_def module_defs)

lemma worker_modules: "modules_of WorkerModule = [WorkerModule, RedisModule, WorkerRegistryModule, MetricsModule]"
  by (simp add: modules_of_def module_defs)

lemmas wiring_defs = api_modules worker_modules instances_def constructed_def visible_def unresolved_def
  api_root_def worker_root_def module_defs

text \<open>
  Both processes can start, and do only their own work. In each application the loaded modules are
  exactly those reachable by imports, every constructor parameter and every parameter of a guard is
  within reach of its module, and no class needs itself, so an order of construction exists. The API
  process never holds the service that runs containers; the worker process holds neither
  database nor object store, guards nor routes, and the hooks that run at its start are the loop and the
  listener for metrics.
\<close>

theorem processes_wired:
  "set (modules_of r) = imports_rel\<^sup>* `` {r} \<and> distinct (modules_of r) \<and> wf (needs_rel\<inverse>)
   \<and> unresolved api_root = [] \<and> unresolved worker_root = []
   \<and> set (instances api_root) \<inter> {WorkerService, WorkerMetricsServerService} = {}
   \<and> set (instances worker_root) = {REDIS_CLIENT, WorkerRegistryService, MetricsService, WorkerService, WorkerMetricsServerService}
   \<and> filter has_onModuleInit (instances worker_root) = [WorkerService, WorkerMetricsServerService]
   \<and> filter has_onModuleInit (instances api_root)
     = [PrismaService, ObjectStorageService, InvocationDispatchService, BuildOutboxRelayService, BuildStreamConsumerService]"
proof (intro conjI)
  show "unresolved api_root = []" by (simp add: wiring_defs)
  show "set (instances api_root) \<inter> {WorkerService, WorkerMetricsServerService} = {}" by (simp add: wiring_defs)
  show "set (instances worker_root) = {REDIS_CLIENT, WorkerRegistryService, MetricsService, WorkerService, WorkerMetricsServerService}"
    by (auto simp: wiring_defs)
qed (simp_all add: modules_of_reachable modules_of_distinct needs_acyclic wiring_defs)

end
