(* ===== verification/Lifecycle.thy ===== *)
theory Lifecycle
  imports Worker Build_Queue
begin

text \<open>
  How the background services start and stop: the hooks \<open>onModuleInit\<close> and \<open>onModuleDestroy\<close> of
  \<open>src/worker/worker.service.ts\<close>, \<open>src/build/build-stream-consumer.service.ts\<close> and
  \<open>src/build/build-outbox-relay.service.ts\<close>, with the timers they arm. Messages, timers and hooks
  interleave; each service is a step relation over its fields. What the loops do with a message is
  in the theories \<open>Worker\<close> and \<open>Build_Queue\<close>.
\<close>

section \<open>Consumer groups\<close>

definition ensureConsumerGroup :: "'r redis \<Rightarrow> string \<Rightarrow> string \<Rightarrow> 'r \<Rightarrow> (string + unit) \<times> 'r" where
  "ensureConsumerGroup R key grp s =
     (case xgroup_create R key grp s of
        (Inr _, s') \<Rightarrow> (Inr (), s')
      | (Inl m, s') \<Rightarrow> if \<not> str_includes m ''BUSYGROUP'' then (Inl m, s') else (Inr (), s'))"

definition worker_ensureConsumerGroup where
  "worker_ensureConsumerGroup R = ensureConsumerGroup R INVOCATION_STREAM_KEY INVOCATION_CONSUMER_GROUP"

definition build_ensureConsumerGroup where
  "build_ensureConsumerGroup R = ensureConsumerGroup R BUILD_STREAM_KEY BUILD_CONSUMER_GROUP"

text \<open>\<open>onModuleInit\<close> of the build consumer: with the new value of \<open>running\<close>, which starts the loop.\<close>

definition consumer_onModuleInit :: "'r redis \<Rightarrow> 'r \<Rightarrow> (string + unit) \<times> bool \<times> 'r" where
  "consumer_onModuleInit R s =
     (case build_ensureConsumerGroup R s of
        (Inl m, s') \<Rightarrow> (Inl m, False, s')
      | (Inr _, s') \<Rightarrow> (Inr (), True, s'))"

section \<open>The worker\<close>

text \<open>
  Where the two hooks are: before each \<open>await\<close> of \<open>onModuleInit\<close>, up and running, waiting for the loop
  to end, deregistering, done; or ended by an exception, or with the process.
\<close>

datatype phase =
    LoggingIn
  | CreatingGroup
  | Announcing
  | Up
  | Draining
  | Deregistering
  | Stopped
  | StartFailed string
  | StopFailed string
  | Died

text \<open>
  \<open>lf_timer\<close>: the heartbeat interval is armed, and goes off at \<open>lf_due\<close>; \<open>lf_loop\<close>: \<open>loopPromise\<close> is pending.
  \<open>lf_now\<close> is \<open>Date.now()\<close>.
\<close>

record life =
  lf_phase :: phase
  lf_running :: bool
  lf_timer :: bool
  lf_loop :: bool
  lf_inFlight :: int
  lf_now :: int
  lf_due :: int

definition init_life :: "int \<Rightarrow> life" where
  "init_life now = \<lparr>lf_phase = LoggingIn, lf_running = False, lf_timer = False, lf_loop = False,
     lf_inFlight = 0, lf_now = now, lf_due = 0\<rparr>"

definition to_phase :: "phase \<Rightarrow> life \<Rightarrow> life" where
  "to_phase p L = L\<lparr>lf_phase := p\<rparr>"

text \<open>\<open>sendHeartbeat\<close> with the fields of this record.\<close>

definition life_beat :: "'r redis \<Rightarrow> string \<Rightarrow> life \<Rightarrow> 'r \<Rightarrow> (string + unit) \<times> 'r" where
  "life_beat R wid L s =
     sendHeartbeat R (lf_now L) \<lparr>w_id = wid, w_inFlight = lf_inFlight L, m_inFlight = lf_inFlight L, m_total = (\<lambda>_. 0), m_durations = []\<rparr> s"

definition next_beat :: "life \<Rightarrow> life" where
  "next_beat L = L\<lparr>lf_due := lf_now L + int HEARTBEAT_INTERVAL_MS\<rparr>"

text \<open>The end of \<open>onModuleInit\<close>, the beginning of \<open>onModuleDestroy\<close>.\<close>

definition worker_up :: "life \<Rightarrow> life" where
  "worker_up L = to_phase Up (next_beat (L\<lparr>lf_timer := True, lf_running := True, lf_loop := True\<rparr>))"

definition worker_stopping :: "life \<Rightarrow> life" where
  "worker_stopping L = to_phase Draining (L\<lparr>lf_running := False, lf_timer := False\<rparr>)"

text \<open>
  The steps. Everyone else, and the loop with its stream commands, may change Redis at any time, but
  only this process writes its entry of the registry. Time passes; the timer goes off not before it
  is due, and at most \<open>late\<close> milliseconds after (which includes the time a heartbeat takes to arrive).
  The promise of the heartbeat the timer sends is not handled: its rejection ends the process.
  The first two steps are the results of \<open>ensureEcrLogin\<close> (theory \<open>Ecr_Login\<close>).
  An iteration of the loop that has begun may still take a job after \<open>running\<close> is false.
\<close>

inductive life_step :: "'r redis \<Rightarrow> string \<Rightarrow> int \<Rightarrow> life \<times> 'r \<Rightarrow> life \<times> 'r \<Rightarrow> bool" for R wid late where
  Login_ok: "lf_phase L = LoggingIn \<Longrightarrow> life_step R wid late (L, s) (to_phase CreatingGroup L, s)"
| Login_fails: "lf_phase L = LoggingIn \<Longrightarrow> life_step R wid late (L, s) (to_phase (StartFailed m) L, s)"
| Group_ok: "lf_phase L = CreatingGroup \<Longrightarrow> worker_ensureConsumerGroup R s = (Inr u, s') \<Longrightarrow>
    life_step R wid late (L, s) (to_phase Announcing L, s')"
| Group_fails: "lf_phase L = CreatingGroup \<Longrightarrow> worker_ensureConsumerGroup R s = (Inl m, s') \<Longrightarrow>
    life_step R wid late (L, s) (to_phase (StartFailed m) L, s')"
| Announce_ok: "lf_phase L = Announcing \<Longrightarrow> life_beat R wid L s = (Inr u, s') \<Longrightarrow>
    life_step R wid late (L, s) (worker_up L, s')"
| Announce_fails: "lf_phase L = Announcing \<Longrightarrow> life_beat R wid L s = (Inl m, s') \<Longrightarrow>
    life_step R wid late (L, s) (to_phase (StartFailed m) L, s')"
| Beat_ok: "lf_timer L \<Longrightarrow> lf_due L \<le> lf_now L \<Longrightarrow> lf_phase L \<noteq> Died \<Longrightarrow> life_beat R wid L s = (Inr u, s') \<Longrightarrow>
    life_step R wid late (L, s) (next_beat L, s')"
| Beat_fails: "lf_timer L \<Longrightarrow> lf_due L \<le> lf_now L \<Longrightarrow> lf_phase L \<noteq> Died \<Longrightarrow> life_beat R wid L s = (Inl m, s') \<Longrightarrow>
    life_step R wid late (L, s) (to_phase Died L, s')"
| Job_starts: "lf_loop L \<Longrightarrow> lf_inFlight L = 0 \<Longrightarrow> lf_phase L \<noteq> Died \<Longrightarrow>
    life_step R wid late (L, s) (L\<lparr>lf_inFlight := lf_inFlight L + 1\<rparr>, s)"
| Job_ends: "lf_loop L \<Longrightarrow> 0 < lf_inFlight L \<Longrightarrow> lf_phase L \<noteq> Died \<Longrightarrow>
    life_step R wid late (L, s) (L\<lparr>lf_inFlight := lf_inFlight L - 1\<rparr>, s)"
| Loop_ends: "lf_phase L = Draining \<Longrightarrow> lf_loop L \<Longrightarrow> \<not> lf_running L \<Longrightarrow> lf_inFlight L = 0 \<Longrightarrow>
    life_step R wid late (L, s) (to_phase Deregistering (L\<lparr>lf_loop := False\<rparr>), s)"
| Shutdown: "lf_phase L = Up \<Longrightarrow> life_step R wid late (L, s) (worker_stopping L, s)"
| Deregister_ok: "lf_phase L = Deregistering \<Longrightarrow> deregister R wid s = (Inr u, s') \<Longrightarrow>
    life_step R wid late (L, s) (to_phase Stopped L, s')"
| Deregister_fails: "lf_phase L = Deregistering \<Longrightarrow> deregister R wid s = (Inl m, s') \<Longrightarrow>
    life_step R wid late (L, s) (to_phase (StopFailed m) L, s')"
| Crash: "life_step R wid late (L, s) (to_phase Died L, s)"
| Elapse: "0 \<le> d \<Longrightarrow> (lf_timer L \<Longrightarrow> lf_now L + d \<le> lf_due L + late) \<Longrightarrow>
    life_step R wid late (L, s) (L\<lparr>lf_now := lf_now L + d\<rparr>, s)"
| Others: "registry_ok R s' \<Longrightarrow> hashes (view R s') REGISTRY_KEY wid = hashes (view R s) REGISTRY_KEY wid \<Longrightarrow>
    life_step R wid late (L, s) (L, s')"

inductive life_run :: "'r redis \<Rightarrow> string \<Rightarrow> int \<Rightarrow> life \<times> 'r \<Rightarrow> life \<times> 'r \<Rightarrow> bool" for R wid late where
  refl: "life_run R wid late x x"
| step: "life_run R wid late x y \<Longrightarrow> life_step R wid late y z \<Longrightarrow> life_run R wid late x z"

inductive_cases life_stepE: "life_step R wid late (L, s) (L', s')"

lemma life_run_trans: "life_run R wid late y z \<Longrightarrow> life_run R wid late x y \<Longrightarrow> life_run R wid late x z"
  by (induction rule: life_run.induct) (auto intro: life_run.step)

section \<open>The relay of builds\<close>

text \<open>
  \<open>BuildOutboxRelayService\<close>: every tick of the interval starts a \<open>relayOnce\<close> and stores its promise in
  \<open>currentTick\<close>; \<open>rs_flying\<close> are the calls that have not ended. \<open>onModuleDestroy\<close> clears the interval and
  awaits \<open>currentTick\<close>.
\<close>

record relay_service =
  rs_timer :: bool
  rs_current :: "nat option"
  rs_flying :: "nat set"
  rs_started :: nat
  rs_destroying :: bool
  rs_closed :: bool

definition relay_onModuleInit :: relay_service where
  "relay_onModuleInit = \<lparr>rs_timer = True, rs_current = None, rs_flying = {}, rs_started = 0, rs_destroying = False, rs_closed = False\<rparr>"

definition relay_tick :: "relay_service \<Rightarrow> relay_service" where
  "relay_tick r = r\<lparr>rs_current := Some (rs_started r), rs_flying := insert (rs_started r) (rs_flying r), rs_started := Suc (rs_started r)\<rparr>"

definition relay_onModuleDestroy :: "relay_service \<Rightarrow> relay_service" where
  "relay_onModuleDestroy r = r\<lparr>rs_timer := False, rs_destroying := True\<rparr>"

inductive relay_life :: "relay_service \<Rightarrow> bool" where
  Init: "relay_life relay_onModuleInit"
| Tick: "relay_life r \<Longrightarrow> rs_timer r \<Longrightarrow> relay_life (relay_tick r)"
| Tick_ends: "relay_life r \<Longrightarrow> i \<in> rs_flying r \<Longrightarrow> relay_life (r\<lparr>rs_flying := rs_flying r - {i}\<rparr>)"
| Destroy: "relay_life r \<Longrightarrow> \<not> rs_destroying r \<Longrightarrow> relay_life (relay_onModuleDestroy r)"
| Closed: "relay_life r \<Longrightarrow> rs_destroying r \<Longrightarrow> (\<And>i. rs_current r = Some i \<Longrightarrow> i \<notin> rs_flying r) \<Longrightarrow>
    relay_life (r\<lparr>rs_closed := True\<rparr>)"

section \<open>The consumer of builds\<close>

text \<open>
  \<open>BuildStreamConsumerService\<close> once \<open>onModuleInit\<close> has succeeded: \<open>cs_loop\<close> says that \<open>loopPromise\<close> is pending,
  \<open>cs_iterating\<close> that an iteration of the loop is in progress, \<open>cs_closed\<close> that \<open>onModuleDestroy\<close> has returned.
\<close>

record consumer_service =
  cs_running :: bool
  cs_loop :: bool
  cs_iterating :: bool
  cs_destroying :: bool
  cs_closed :: bool

definition consumer_up :: consumer_service where
  "consumer_up = \<lparr>cs_running = True, cs_loop = True, cs_iterating = False, cs_destroying = False, cs_closed = False\<rparr>"

definition consumer_onModuleDestroy :: "consumer_service \<Rightarrow> consumer_service" where
  "consumer_onModuleDestroy c = c\<lparr>cs_running := False, cs_destroying := True\<rparr>"

inductive consumer_life :: "consumer_service \<Rightarrow> bool" where
  Up: "consumer_life consumer_up"
| Begins: "consumer_life c \<Longrightarrow> cs_loop c \<Longrightarrow> \<not> cs_iterating c \<Longrightarrow> cs_running c \<Longrightarrow> consumer_life (c\<lparr>cs_iterating := True\<rparr>)"
| Ends: "consumer_life c \<Longrightarrow> cs_iterating c \<Longrightarrow> consumer_life (c\<lparr>cs_iterating := False\<rparr>)"
| Exits: "consumer_life c \<Longrightarrow> cs_loop c \<Longrightarrow> \<not> cs_iterating c \<Longrightarrow> \<not> cs_running c \<Longrightarrow> consumer_life (c\<lparr>cs_loop := False\<rparr>)"
| Destroy: "consumer_life c \<Longrightarrow> consumer_life (consumer_onModuleDestroy c)"
| Closed: "consumer_life c \<Longrightarrow> cs_destroying c \<Longrightarrow> \<not> cs_loop c \<Longrightarrow> consumer_life (c\<lparr>cs_closed := True\<rparr>)"

text \<open>When the hook has returned, no iteration is in progress and none can begin.\<close>

lemma consumer_life_ok:
  "consumer_life c \<Longrightarrow> (cs_iterating c \<longrightarrow> cs_loop c) \<and> (cs_closed c \<longrightarrow> \<not> cs_loop c \<and> \<not> cs_running c) \<and>
     (cs_destroying c \<longrightarrow> \<not> cs_running c)"
  by (induction rule: consumer_life.induct) (auto simp: consumer_up_def consumer_onModuleDestroy_def)

lemma consumer_closes_clean: "consumer_life c \<Longrightarrow> cs_closed c \<Longrightarrow> \<not> cs_iterating c \<and> \<not> cs_loop c \<and> \<not> cs_running c"
  using consumer_life_ok by blast

section \<open>Consumer groups: lemmas\<close>

context redis_groups
begin

lemma ensure_view:
  assumes "ensureConsumerGroup R k g s = (r, s')"
  shows "view R s' = view R s \<or> g \<notin> groups (view R s) k \<and> view R s' = add_group k g (view R s)"
  using assms xgroup_create_Inr [of k g s] xgroup_create_Inl [of k g s]
  by (auto simp: ensureConsumerGroup_def split: prod.splits sum.splits if_splits)

lemma ensure_hashes: "ensureConsumerGroup R k g s = (r, s') \<Longrightarrow> hashes (view R s') = hashes (view R s)"
  using ensure_view [of k g s r s'] by (auto simp: add_group_def upd_stream_def)

lemma ensure_Inr:
  assumes "ensureConsumerGroup R k g s = (Inr u, s')"
  shows "view R s' = (if g \<in> groups (view R s) k then view R s else add_group k g (view R s))"
  using assms xgroup_create_Inr [of k g s] xgroup_create_busy [of k g s]
  by (auto simp: ensureConsumerGroup_def split: prod.splits sum.splits if_splits)

end

section \<open>The worker: invariant\<close>

definition life_heartbeat :: "string \<Rightarrow> life \<Rightarrow> worker_heartbeat" where
  "life_heartbeat wid L = \<lparr>hb_workerId = wid, hb_capacity = CAPACITY, hb_inFlight = lf_inFlight L, hb_lastHeartbeatAt = lf_now L\<rparr>"

lemma life_beat_heartbeat: "life_beat R wid L s = heartbeat R (life_heartbeat wid L) s"
  by (simp add: life_beat_def sendHeartbeat_def life_heartbeat_def)

text \<open>What the fields are in each phase, and what the registry says of the worker.\<close>

definition idle_life :: "life \<Rightarrow> bool" where
  "idle_life L \<longleftrightarrow> \<not> lf_timer L \<and> \<not> lf_loop L \<and> lf_inFlight L = 0"

definition life_ok :: "'r redis \<Rightarrow> string \<Rightarrow> int \<Rightarrow> life \<times> 'r \<Rightarrow> bool" where
  "life_ok R wid late x \<longleftrightarrow> (case x of (L, s) \<Rightarrow>
     registry_ok R s \<and> 0 \<le> lf_inFlight L \<and> lf_inFlight L \<le> CAPACITY \<and>
     (case lf_phase L of
        LoggingIn \<Rightarrow> idle_life L \<and> registry R s wid = None
      | CreatingGroup \<Rightarrow> idle_life L \<and> registry R s wid = None
      | Announcing \<Rightarrow> idle_life L \<and> registry R s wid = None
      | Up \<Rightarrow> lf_timer L \<and> lf_loop L \<and> lf_running L \<and> lf_now L \<le> lf_due L + late \<and>
          (\<exists>hb. registry R s wid = Some hb \<and> hb_lastHeartbeatAt hb = lf_due L - int HEARTBEAT_INTERVAL_MS \<and>
             hb_capacity hb = CAPACITY \<and> 0 \<le> hb_inFlight hb \<and> hb_inFlight hb \<le> CAPACITY)
      | Draining \<Rightarrow> \<not> lf_timer L \<and> \<not> lf_running L \<and> lf_loop L
      | Deregistering \<Rightarrow> idle_life L
      | Stopped \<Rightarrow> idle_life L \<and> registry R s wid = None
      | StartFailed m \<Rightarrow> idle_life L
      | StopFailed m \<Rightarrow> idle_life L
      | Died \<Rightarrow> True))"

lemma registry_same:
  "hashes (view R s') REGISTRY_KEY w = hashes (view R s) REGISTRY_KEY w \<Longrightarrow> registry R s' w = registry R s w"
  by (simp add: registry_def)

lemmas life_defs = life_ok_def idle_life_def to_phase_def next_beat_def worker_up_def worker_stopping_def
  life_beat_heartbeat CAPACITY_def HEARTBEAT_INTERVAL_MS_def

lemma life_step_ok:
  assumes "redis_hash R" and "redis_groups R" and "0 \<le> late" and "life_step R wid late x y" and "life_ok R wid late x"
  shows "life_ok R wid late y"
  using assms(4,5)
proof (cases rule: life_step.cases)
  case (Group_ok L s u s')
  have "hashes (view R s') = hashes (view R s)"
    using redis_groups.ensure_hashes [OF assms(2)] Group_ok(4) unfolding worker_ensureConsumerGroup_def by blast
  then show ?thesis using Group_ok assms(5) by (simp add: life_defs registry_def registry_ok_def)
next
  case (Group_fails L s m s')
  have "hashes (view R s') = hashes (view R s)"
    using redis_groups.ensure_hashes [OF assms(2)] Group_fails(4) unfolding worker_ensureConsumerGroup_def by blast
  then show ?thesis using Group_fails assms(5) by (simp add: life_defs registry_def registry_ok_def)
next
  case (Announce_ok L s u s')
  then have "registry R s' wid = Some (life_heartbeat wid L)" "registry_ok R s'"
    using redis_hash.heartbeat_reg [OF assms(1)] redis_hash.heartbeat_ok [OF assms(1)] assms(5)
    by (auto simp: life_defs life_heartbeat_def)
  then show ?thesis using Announce_ok assms(3,5) by (simp add: life_defs life_heartbeat_def)
next
  case (Announce_fails L s m s')
  then show ?thesis using redis_hash.heartbeat_ok [OF assms(1)] assms(5) by (auto simp: life_defs)
next
  case (Beat_ok L s u s')
  then have "registry R s' wid = Some (life_heartbeat wid L)" "registry_ok R s'"
    using redis_hash.heartbeat_reg [OF assms(1)] redis_hash.heartbeat_ok [OF assms(1)] assms(5)
    by (auto simp: life_defs life_heartbeat_def)
  then show ?thesis using Beat_ok assms(3,5) by (auto simp: life_defs life_heartbeat_def split: phase.splits)
next
  case (Beat_fails L s m s')
  then show ?thesis using redis_hash.heartbeat_ok [OF assms(1)] assms(5) by (auto simp: life_defs)
next
  case (Deregister_ok L s u s')
  then have "registry R s' wid = None" "registry_ok R s'"
    using redis_hash.deregister_reg [OF assms(1)] redis_hash.deregister_ok [OF assms(1)] assms(5) by (auto simp: life_defs)
  then show ?thesis using Deregister_ok assms(5) by (simp add: life_defs)
next
  case (Deregister_fails L s m s')
  then show ?thesis using redis_hash.deregister_ok [OF assms(1)] assms(5) by (auto simp: life_defs)
next
  case (Others s' s L)
  then show ?thesis using registry_same [OF Others(4)] assms(5) by (auto simp: life_defs split: phase.splits)
qed (use assms(5) in \<open>auto simp: life_defs split: phase.splits\<close>)

lemma life_run_ok:
  assumes "redis_hash R" and "redis_groups R" and "0 \<le> late" and "life_run R wid late x y" and "life_ok R wid late x"
  shows "life_ok R wid late y"
  using assms(4,5) by (induction rule: life_run.induct) (auto intro: life_step_ok [OF assms(1-3)])

lemma init_life_ok: "registry_ok R s \<Longrightarrow> registry R s wid = None \<Longrightarrow> life_ok R wid late (init_life now, s)"
  by (simp add: life_defs init_life_def)

text \<open>The registered heartbeat of a worker that is up is never older than the interval and the lateness.\<close>

lemma up_heartbeat:
  assumes "redis_service R" and "0 \<le> late" and "registry_ok R s0" and "registry R s0 wid = None"
    and "life_run R wid late (init_life t0, s0) (L, s)" and "lf_phase L = Up"
  obtains hb where "registry_ok R s" and "registry R s wid = Some hb" and "lf_now L - hb_lastHeartbeatAt hb \<le> 3000 + late"
    and "hb_capacity hb = 1" and "0 \<le> hb_inFlight hb" and "hb_inFlight hb \<le> 1"
proof -
  have hash: "redis_hash R" and grps: "redis_groups R" using assms(1) by (auto simp: redis_service_def)
  from life_run_ok [OF hash grps assms(2,5) init_life_ok [OF assms(3,4)]] assms(6) that show thesis
    by (auto simp: life_ok_def CAPACITY_def HEARTBEAT_INTERVAL_MS_def)
qed

text \<open>A worker that has stopped takes no further part.\<close>

definition gone :: "'r redis \<Rightarrow> string \<Rightarrow> life \<times> 'r \<Rightarrow> bool" where
  "gone R wid x \<longleftrightarrow> (case x of (L, s) \<Rightarrow> lf_phase L \<in> {Stopped, Died} \<and> idle_life L \<and> registry R s wid = None)"

lemma gone_step:
  assumes "life_step R wid late x y" and "gone R wid x"
  shows "gone R wid y"
  using assms(1)
proof (cases rule: life_step.cases)
  case (Others s' s L)
  then show ?thesis using registry_same [OF Others(4)] assms(2) by (simp add: gone_def)
qed (use assms(2) in \<open>auto simp: gone_def idle_life_def to_phase_def\<close>)

lemma gone_run: "life_run R wid late x y \<Longrightarrow> gone R wid x \<Longrightarrow> gone R wid y"
  by (induction rule: life_run.induct) (auto intro: gone_step)

text \<open>Shutting down: the job in progress ends, then the loop, then the entry is removed.\<close>

lemma stopping_run:
  assumes "lf_phase L = Up" and "lf_loop L" and "lf_inFlight L \<in> {0, 1}" and "deregister R wid s = (Inr u, s')"
  shows "\<exists>L'. life_run R wid late (L, s) (L', s') \<and> lf_phase L' = Stopped"
proof -
  let ?L1 = "worker_stopping L" and ?L2 = "(worker_stopping L)\<lparr>lf_inFlight := 0\<rparr>"
  let ?L3 = "to_phase Deregistering (?L2\<lparr>lf_loop := False\<rparr>)"
  have 1: "life_step R wid late (L, s) (?L1, s)" using assms(1) by (rule life_step.Shutdown)
  have "life_run R wid late (?L1, s) (?L2, s)"
  proof (cases "lf_inFlight L = 0")
    case True
    then have "?L2 = ?L1" by (simp add: worker_stopping_def to_phase_def)
    then show ?thesis by (simp add: life_run.refl)
  next
    case False
    then have "life_step R wid late (?L1, s) (?L1\<lparr>lf_inFlight := lf_inFlight ?L1 - 1\<rparr>, s)"
      using assms(2,3) by (intro life_step.Job_ends) (auto simp: worker_stopping_def to_phase_def)
    moreover have "?L1\<lparr>lf_inFlight := lf_inFlight ?L1 - 1\<rparr> = ?L2"
      using False assms(3) by (auto simp: worker_stopping_def to_phase_def)
    ultimately show ?thesis by (metis life_run.refl life_run.step)
  qed
  moreover have "life_step R wid late (?L2, s) (?L3, s)"
    using assms(2) by (intro life_step.Loop_ends) (auto simp: worker_stopping_def to_phase_def)
  moreover have "life_step R wid late (?L3, s) (to_phase Stopped ?L3, s')"
    by (rule life_step.Deregister_ok [OF _ assms(4)]) (simp add: to_phase_def)
  ultimately have "life_run R wid late (L, s) (to_phase Stopped ?L3, s')"
    using 1 by (meson life_run.refl life_run.step life_run_trans)
  then show ?thesis by (auto simp: to_phase_def)
qed

section \<open>The relay: invariant\<close>

lemma relay_life_ok:
  "relay_life r \<Longrightarrow> (rs_closed r \<longrightarrow> rs_destroying r \<and> (\<forall>i. rs_current r = Some i \<longrightarrow> i \<notin> rs_flying r)) \<and>
     (rs_destroying r \<longrightarrow> \<not> rs_timer r) \<and> rs_flying r \<subseteq> {..<rs_started r} \<and>
     rs_current r = (if rs_started r = 0 then None else Some (rs_started r - 1))"
  by (induction rule: relay_life.induct)
     (auto simp: relay_onModuleInit_def relay_tick_def relay_onModuleDestroy_def split: if_splits)

text \<open>Two ticks overlap, the second ends, the service is closed.\<close>

definition demo_overlap :: relay_service where
  "demo_overlap = \<lparr>rs_timer = False, rs_current = Some 1, rs_flying = {0}, rs_started = 2, rs_destroying = True, rs_closed = True\<rparr>"

lemma demo_overlap_life: "relay_life demo_overlap"
proof -
  let ?two = "relay_tick (relay_tick relay_onModuleInit)"
  have "relay_life ?two"
    by (intro relay_life.Tick relay_life.Init) (simp_all add: relay_onModuleInit_def relay_tick_def)
  then have "relay_life (?two\<lparr>rs_flying := rs_flying ?two - {1}\<rparr>)"
    by (rule relay_life.Tick_ends) (simp add: relay_onModuleInit_def relay_tick_def)
  also have "?two\<lparr>rs_flying := rs_flying ?two - {1}\<rparr> = ?two\<lparr>rs_flying := {0}\<rparr>"
    by (auto simp: relay_onModuleInit_def relay_tick_def)
  finally have "relay_life (relay_onModuleDestroy (?two\<lparr>rs_flying := {0}\<rparr>))"
    by (rule relay_life.Destroy) (simp add: relay_onModuleInit_def relay_tick_def)
  then have "relay_life ((relay_onModuleDestroy (?two\<lparr>rs_flying := {0}\<rparr>))\<lparr>rs_closed := True\<rparr>)"
    by (rule relay_life.Closed) (auto simp: relay_onModuleInit_def relay_tick_def relay_onModuleDestroy_def)
  then show ?thesis by (simp add: numeral_2_eq_2 demo_overlap_def relay_onModuleInit_def relay_tick_def relay_onModuleDestroy_def)
qed

section \<open>Properties\<close>

text \<open>
  A worker that is up is never taken for dead: as long as the heartbeat timer goes off, and its
  heartbeat arrives, at most seven seconds after it is due, every list of workers drawn up while the
  worker is up contains it as healthy, with a capacity of one and at most one job in flight,
  whatever else happens in Redis and however the jobs come and go.
\<close>

theorem worker_up_is_healthy:
  assumes "redis_service R" and "0 \<le> late" and "late \<le> 7000"
    and "registry_ok R s0" and "registry R s0 wid = None"
    and "life_run R wid late (init_life t0, s0) (L, s)" and "lf_phase L = Up"
    and "listWorkers R (lf_now L) s = (Inr ws, s')"
  shows "\<exists>x \<in> set ws. ws_workerId x = Some wid \<and> ws_healthy x \<and> ws_capacity x = Some 1
    \<and> (\<exists>n. ws_inFlight x = Some n \<and> 0 \<le> n \<and> n \<le> 1)"
proof -
  obtain hb where hb: "registry_ok R s" "registry R s wid = Some hb" "lf_now L - hb_lastHeartbeatAt hb \<le> 3000 + late"
    and room: "hb_capacity hb = 1" "0 \<le> hb_inFlight hb" "hb_inFlight hb \<le> 1"
    by (rule up_heartbeat [OF assms(1,2,4-7)])
  have "hb_workerId hb = wid" using registry_ok_id [OF hb(1,2)] .
  moreover have "lf_now L - hb_lastHeartbeatAt hb \<le> STALE_AFTER_MS" using hb(3) assms(3) by (simp add: STALE_AFTER_MS_def)
  moreover have "status_of (lf_now L) hb \<in> set ws"
    using redis_hash.registered_workers [OF _ hb(1) assms(8)] assms(1) ranI [of "registry R s", OF hb(2)]
    by (auto simp: redis_service_def)
  ultimately show ?thesis using room by (intro bexI [of _ "status_of (lf_now L) hb"]) (auto simp: status_of_def)
qed

text \<open>
  C18. A graceful shutdown is complete: once \<open>onModuleDestroy\<close> has returned, no job is in progress and the
  worker is not in the registry, and it stays out of it whatever happens later: no heartbeat
  that was still due brings it back.
\<close>

theorem worker_stops_clean:
  assumes "redis_service R" and "0 \<le> late" and "registry_ok R s0" and "registry R s0 wid = None"
    and "life_run R wid late (init_life t0, s0) (L, s)" and "lf_phase L = Stopped"
    and "life_run R wid late (L, s) (L', s')"
  shows "lf_inFlight L = 0 \<and> registry R s' wid = None \<and> lf_phase L' \<in> {Stopped, Died}"
proof -
  have hash: "redis_hash R" and grps: "redis_groups R" using assms(1) by (auto simp: redis_service_def)
  from life_run_ok [OF hash grps assms(2,5) init_life_ok [OF assms(3,4)]] assms(6)
  have "gone R wid (L, s)" "lf_inFlight L = 0" by (auto simp: life_ok_def gone_def idle_life_def)
  with gone_run [OF assms(7)] show ?thesis by (auto simp: gone_def)
qed

text \<open>
  A shutdown can always be completed: from every state in which the worker is up, with a job in
  progress or without, the hook, the end of that job and of the loop and the removal of the entry lead
  to the end of \<open>onModuleDestroy\<close>, if Redis executes the removal.
\<close>

theorem worker_can_stop:
  assumes "redis_service R" and "0 \<le> late" and "registry_ok R s0" and "registry R s0 wid = None"
    and "life_run R wid late (init_life t0, s0) (L, s)" and "lf_phase L = Up" and "deregister R wid s = (Inr u, s')"
  shows "\<exists>L'. life_run R wid late (L, s) (L', s') \<and> lf_phase L' = Stopped"
proof -
  have hash: "redis_hash R" and grps: "redis_groups R" using assms(1) by (auto simp: redis_service_def)
  from life_run_ok [OF hash grps assms(2,5) init_life_ok [OF assms(3,4)]] assms(6)
  have "lf_loop L" "lf_inFlight L \<in> {0, 1}" by (auto simp: life_ok_def CAPACITY_def)
  from stopping_run [OF assms(6) this assms(7)] show ?thesis .
qed

text \<open>
  Restarting a consumer keeps its queue: if \<open>ensureConsumerGroup\<close> succeeds, the group exists; if it
  existed before, nothing at all has changed, so that the jobs not yet delivered and those not yet
  acknowledged are still there; otherwise the group begins after the entries that are in the stream.
\<close>

theorem ensureConsumerGroup_keeps_queue:
  assumes "redis_groups R" and "ensureConsumerGroup R key grp s = (Inr u, s')"
  shows "grp \<in> groups (view R s') key \<and>
    (grp \<in> groups (view R s) key \<longrightarrow> view R s' = view R s) \<and>
    (grp \<notin> groups (view R s) key \<longrightarrow> entries (streams (view R s') key) = entries (streams (view R s) key) \<and>
       undelivered grp (streams (view R s') key) = [] \<and> pel (streams (view R s') key) grp = Map.empty)"
  using redis_groups.ensure_Inr [OF assms]
  by (auto simp: add_group_def upd_stream_def start_group_def undelivered_def)

text \<open>
  C29. What the relay leaves behind: when its \<open>onModuleDestroy\<close> has returned, no tick will start and the
  last one has ended; but a tick that started earlier and took longer than the interval
  may still be running, because \<open>currentTick\<close> holds the last promise only.
\<close>

theorem relay_close_leaves_ticks:
  "(\<forall>r. relay_life r \<and> rs_closed r \<longrightarrow> \<not> rs_timer r \<and> rs_flying r \<subseteq> {i. i + 1 < rs_started r})
   \<and> (\<exists>r. relay_life r \<and> rs_closed r \<and> rs_flying r \<noteq> {})"
proof
  have "rs_flying r \<subseteq> {i. i + 1 < rs_started r}" "\<not> rs_timer r" if "relay_life r" "rs_closed r" for r
  proof -
    have ok: "\<forall>i. rs_current r = Some i \<longrightarrow> i \<notin> rs_flying r" "rs_flying r \<subseteq> {..<rs_started r}"
      "rs_current r = (if rs_started r = 0 then None else Some (rs_started r - 1))"
      using relay_life_ok [OF that(1)] that(2) by blast+
    show "rs_flying r \<subseteq> {i. i + 1 < rs_started r}"
    proof
      fix i assume i: "i \<in> rs_flying r"
      then have "i < rs_started r" using ok(2) by auto
      moreover have "i \<noteq> rs_started r - 1" using ok(1,3) i calculation by auto
      ultimately show "i \<in> {i. i + 1 < rs_started r}" by auto
    qed
    show "\<not> rs_timer r" using relay_life_ok [OF that(1)] that(2) by blast
  qed
  then show "\<forall>r. relay_life r \<and> rs_closed r \<longrightarrow> \<not> rs_timer r \<and> rs_flying r \<subseteq> {i. i + 1 < rs_started r}" by blast
  show "\<exists>r. relay_life r \<and> rs_closed r \<and> rs_flying r \<noteq> {}"
    using demo_overlap_life by (intro exI [of _ demo_overlap]) (simp add: demo_overlap_def)
qed

section \<open>Witnesses\<close>

text \<open>Worker \<open>w1\<close> starts at time 0, sends the heartbeat that is due at 3000 two seconds late, and takes a job.\<close>

definition demo_started :: mem where
  "demo_started = snd (worker_ensureConsumerGroup mem_redis empty_mem)"

definition demo_announced :: mem where
  "demo_announced = snd (life_beat mem_redis ''w1'' (init_life 0) demo_started)"

definition demo_life :: "int \<Rightarrow> life" where
  "demo_life n = \<lparr>lf_phase = Up, lf_running = True, lf_timer = True, lf_loop = True, lf_inFlight = n, lf_now = 5000, lf_due = 8000\<rparr>"

definition demo_alive :: mem where
  "demo_alive = snd (life_beat mem_redis ''w1'' (demo_life 0) demo_announced)"

lemma mem_beat: "life_beat mem_redis wid L s = (Inr (), snd (life_beat mem_redis wid L s))"
  by (simp add: life_beat_heartbeat heartbeat_def mem_redis_def)

lemma empty_mem_registry: "registry_ok mem_redis empty_mem" "registry mem_redis empty_mem = Map.empty"
  by (auto simp: registry_ok_def registry_def mem_redis_def mem_view_def empty_mem_def)

lemma demo_life_run: "life_run mem_redis ''w1'' 7000 (init_life 0, empty_mem) (demo_life 1, demo_alive)"
proof -
  let ?run = "life_run mem_redis ''w1'' 7000 (init_life 0, empty_mem)"
  let ?up = "\<lambda>t. \<lparr>lf_phase = Up, lf_running = True, lf_timer = True, lf_loop = True, lf_inFlight = 0, lf_now = t, lf_due = 3000\<rparr>"
  have "?run (to_phase CreatingGroup (init_life 0), empty_mem)"
    by (rule life_run.step [OF life_run.refl life_step.Login_ok]) (simp add: init_life_def)
  moreover have "worker_ensureConsumerGroup mem_redis empty_mem = (Inr (), demo_started)"
    by (simp add: demo_started_def worker_ensureConsumerGroup_def ensureConsumerGroup_def mem_redis_def mem_xgroup_def empty_mem_def)
  ultimately have "?run (to_phase Announcing (to_phase CreatingGroup (init_life 0)), demo_started)"
    by (elim life_run.step life_step.Group_ok [rotated]) (simp add: to_phase_def)
  moreover have "life_beat mem_redis ''w1'' (to_phase Announcing (to_phase CreatingGroup (init_life 0))) demo_started = (Inr (), demo_announced)"
    using mem_beat [of "''w1''" "init_life 0" demo_started]
    by (simp add: demo_announced_def life_beat_def to_phase_def)
  ultimately have "?run (worker_up (to_phase Announcing (to_phase CreatingGroup (init_life 0))), demo_announced)"
    by (elim life_run.step life_step.Announce_ok [rotated]) (simp add: to_phase_def)
  also have "worker_up (to_phase Announcing (to_phase CreatingGroup (init_life 0))) = ?up 0"
    by (simp add: worker_up_def to_phase_def next_beat_def init_life_def HEARTBEAT_INTERVAL_MS_def)
  finally have "?run (?up 0, demo_announced)" .
  from life_run.step [OF this life_step.Elapse [of 5000]]
  have "?run ((?up 0)\<lparr>lf_now := lf_now (?up 0) + 5000\<rparr>, demo_announced)" by simp
  then have "?run (?up 5000, demo_announced)" by simp
  moreover have "life_beat mem_redis ''w1'' (?up 5000) demo_announced = (Inr (), demo_alive)"
    using mem_beat [of "''w1''" "demo_life 0" demo_announced]
    by (simp add: demo_alive_def life_beat_def demo_life_def)
  ultimately have "?run (next_beat (?up 5000), demo_alive)"
    by (elim life_run.step life_step.Beat_ok [rotated 3]) simp_all
  also have "next_beat (?up 5000) = demo_life 0" by (simp add: next_beat_def demo_life_def HEARTBEAT_INTERVAL_MS_def)
  finally have "?run (demo_life 0, demo_alive)" .
  from life_run.step [OF this life_step.Job_starts] show ?thesis by (simp add: demo_life_def)
qed

lemma demo_alive_list: "\<exists>ws. listWorkers mem_redis 5000 demo_alive = (Inr ws, demo_alive)"
proof -
  have "life_ok mem_redis ''w1'' 7000 (demo_life 1, demo_alive)"
    using life_run_ok [OF memr.redis_hash_axioms memr.redis_groups_axioms _ demo_life_run init_life_ok] empty_mem_registry by simp
  then have ok: "registry_ok mem_redis demo_alive" by (simp add: life_ok_def)
  obtain raw where "hgetall mem_redis REGISTRY_KEY demo_alive = (Inr raw, demo_alive)" by (simp add: mem_redis_def)
  from memr.listWorkers_answers [OF ok this] show ?thesis by metis
qed

text \<open>Witness of \<open>worker_up_is_healthy\<close>: worker \<open>w1\<close> at time 5000.\<close>

theorem worker_up_is_healthy_witness:
  "\<exists>ws s'. listWorkers mem_redis 5000 demo_alive = (Inr ws, s') \<and> (\<exists>x \<in> set ws. ws_workerId x = Some ''w1'' \<and> ws_healthy x)"
proof -
  obtain ws where "listWorkers mem_redis 5000 demo_alive = (Inr ws, demo_alive)" using demo_alive_list by blast
  moreover have "lf_now (demo_life 1) = 5000" "lf_phase (demo_life 1) = Up" by (simp_all add: demo_life_def)
  ultimately show ?thesis
    using worker_up_is_healthy [OF memr.redis_service_axioms _ _ empty_mem_registry(1) _ demo_life_run] empty_mem_registry(2) by auto
qed

text \<open>Witness of \<open>worker_can_stop\<close>: the same worker is shut down while its job runs.\<close>

theorem worker_can_stop_witness:
  "\<exists>L' s'. life_run mem_redis ''w1'' 7000 (demo_life 1, demo_alive) (L', s') \<and> lf_phase L' = Stopped"
proof -
  obtain s' where "deregister mem_redis ''w1'' demo_alive = (Inr (), s')" by (simp add: deregister_def mem_redis_def)
  moreover have "lf_phase (demo_life 1) = Up" by (simp add: demo_life_def)
  ultimately show ?thesis
    using worker_can_stop [OF memr.redis_service_axioms _ empty_mem_registry(1) _ demo_life_run] empty_mem_registry(2) by auto
qed

lemma demo_stopped_run: "\<exists>L s. life_run mem_redis ''w1'' 7000 (init_life 0, empty_mem) (L, s) \<and> lf_phase L = Stopped"
proof -
  obtain s' where d: "deregister mem_redis ''w1'' demo_alive = (Inr (), s')" by (simp add: deregister_def mem_redis_def)
  have "lf_phase (demo_life 1) = Up" "lf_loop (demo_life 1)" "lf_inFlight (demo_life 1) \<in> {0, 1}" by (simp_all add: demo_life_def)
  from stopping_run [OF this d] life_run_trans [OF _ demo_life_run] show ?thesis by blast
qed

text \<open>Witness of C18: the state after that shutdown.\<close>

theorem worker_stops_clean_witness:
  "\<exists>L s. life_run mem_redis ''w1'' 7000 (init_life 0, empty_mem) (L, s) \<and> lf_phase L = Stopped
     \<and> lf_inFlight L = 0 \<and> registry mem_redis s ''w1'' = None"
proof -
  obtain L s where r: "life_run mem_redis ''w1'' 7000 (init_life 0, empty_mem) (L, s)" and p: "lf_phase L = Stopped"
    using demo_stopped_run by blast
  from worker_stops_clean [OF memr.redis_service_axioms _ empty_mem_registry(1) _ r p life_run.refl] empty_mem_registry(2) r p
  show ?thesis by auto
qed

text \<open>Witness of \<open>ensureConsumerGroup_keeps_queue\<close>: a worker starts for the first time, and again.\<close>

theorem ensureConsumerGroup_keeps_queue_witness:
  "view mem_redis (snd (worker_ensureConsumerGroup mem_redis demo_started)) = view mem_redis demo_started
   \<and> INVOCATION_CONSUMER_GROUP \<in> groups (view mem_redis demo_started) INVOCATION_STREAM_KEY"
proof -
  have 1: "ensureConsumerGroup mem_redis INVOCATION_STREAM_KEY INVOCATION_CONSUMER_GROUP empty_mem = (Inr (), demo_started)"
    by (simp add: demo_started_def worker_ensureConsumerGroup_def ensureConsumerGroup_def mem_redis_def mem_xgroup_def empty_mem_def)
  have 2: "ensureConsumerGroup mem_redis INVOCATION_STREAM_KEY INVOCATION_CONSUMER_GROUP demo_started =
      (Inr (), snd (worker_ensureConsumerGroup mem_redis demo_started))"
    by (simp add: demo_started_def worker_ensureConsumerGroup_def ensureConsumerGroup_def mem_redis_def mem_xgroup_def
        mem_stream_def empty_mem_def)
  from ensureConsumerGroup_keeps_queue [OF memr.redis_groups_axioms 1] ensureConsumerGroup_keeps_queue [OF memr.redis_groups_axioms 2]
  show ?thesis by blast
qed

text \<open>Witness of C29: the closed relay with a tick in flight.\<close>

theorem relay_close_leaves_ticks_witness:
  "relay_life demo_overlap \<and> rs_closed demo_overlap \<and> \<not> rs_timer demo_overlap \<and> rs_flying demo_overlap \<subseteq> {0}"
proof -
  have c: "rs_closed demo_overlap" by (simp add: demo_overlap_def)
  have "{i. i + 1 < rs_started demo_overlap} \<subseteq> {0}" by (auto simp: demo_overlap_def)
  then show ?thesis using relay_close_leaves_ticks demo_overlap_life c by blast
qed

end
