(* ===== verification/Ecr_Login.thy ===== *)
theory Ecr_Login
  imports MC_Prelude
begin

text \<open>
  The worker's login to the image registry, \<open>src/worker/ecr-login.ts\<close>. The answer of ECR and the process
  \<open>docker login\<close> are parameters; the base64 text of the token is decoded here.
\<close>

section \<open>Base64\<close>

definition base64_chars :: string where
  "base64_chars = ''ABCDEFGHIJKLMNOPQRSTUVWXYZabcdefghijklmnopqrstuvwxyz0123456789+/''"

text \<open>The value of a character; both alphabets are accepted, other characters (the padding, white space) are skipped.\<close>

definition sextet :: "char \<Rightarrow> nat option" where
  "sextet c =
     (let i = indexOf (if c = CHR ''-'' then CHR ''+'' else if c = CHR ''_'' then CHR ''/'' else c) base64_chars
      in if i < 0 then None else Some (nat i))"

fun bytes_of_sextets :: "nat list \<Rightarrow> nat list" where
  "bytes_of_sextets (a # b # c # d # r) =
     (4 * a + b div 16) # (16 * (b mod 16) + c div 4) # (64 * (c mod 4) + d) # bytes_of_sextets r"
| "bytes_of_sextets [a, b, c] = [4 * a + b div 16, 16 * (b mod 16) + c div 4]"
| "bytes_of_sextets [a, b] = [4 * a + b div 16]"
| "bytes_of_sextets [a] = []"
| "bytes_of_sextets [] = []"

text \<open>\<open>Buffer.from(t, 'base64').toString('utf8')\<close>, for text that is ASCII.\<close>

definition base64_decode :: "string \<Rightarrow> string" where
  "base64_decode t = map char_of (bytes_of_sextets (List.map_filter sextet t))"

text \<open>The encoding (RFC 4648), which the service applies.\<close>

fun sextets_of_bytes :: "nat list \<Rightarrow> nat list" where
  "sextets_of_bytes (x # y # z # r) =
     (x div 4) # (16 * (x mod 4) + y div 16) # (4 * (y mod 16) + z div 64) # (z mod 64) # sextets_of_bytes r"
| "sextets_of_bytes [x, y] = [x div 4, 16 * (x mod 4) + y div 16, 4 * (y mod 16)]"
| "sextets_of_bytes [x] = [x div 4, 16 * (x mod 4)]"
| "sextets_of_bytes [] = []"

definition base64_encode :: "string \<Rightarrow> string" where
  "base64_encode s =
     map (\<lambda>i. base64_chars ! i) (sextets_of_bytes (map of_char s)) @
     (case length s mod 3 of 0 \<Rightarrow> [] | Suc 0 \<Rightarrow> ''=='' | _ \<Rightarrow> ''='')"

section \<open>The login\<close>

text \<open>\<open>s.split(':')[1]\<close>\<close>

definition second_part :: "string \<Rightarrow> string option" where
  "second_part s =
     (case dropWhile (\<lambda>c. c \<noteq> CHR '':'') s of
        [] \<Rightarrow> None
      | _ # rest \<Rightarrow> Some (takeWhile (\<lambda>c. c \<noteq> CHR '':'') rest))"

text \<open>
  The promise is fulfilled, rejected, or a process that cannot be started ends the worker, since the
  child has no listener for \<open>error\<close>.
\<close>

datatype login_result = Logged_in | Login_error string | Login_crash

text \<open>
  \<open>ecr\<close>: the call fails, or gives the token of the first entry, if there is one; \<open>docker_login\<close>: arguments
  and standard input to exit code and error output, \<^term>\<open>None\<close> if there is no such program;
  \<open>writeError\<close>: the message of the exception that writing \<open>undefined\<close> to a stream raises.
\<close>

definition docker_login_args :: "string \<Rightarrow> string list" where
  "docker_login_args registry = [''login'', ''--username'', ''AWS'', ''--password-stdin'', registry]"

definition ensureEcrLogin ::
  "string \<Rightarrow> (string + string option) \<Rightarrow> (string list \<Rightarrow> string \<Rightarrow> (int option \<times> string) option) \<Rightarrow> string option \<Rightarrow> login_result" where
  "ensureEcrLogin writeError ecr docker_login ecrRegistry =
     (case ecrRegistry of
        None \<Rightarrow> Logged_in
      | Some registry \<Rightarrow>
          if registry = [] then Logged_in
          else (case ecr of
            Inl m \<Rightarrow> Login_error m
          | Inr authToken \<Rightarrow>
              if authToken = None \<or> authToken = Some [] then Login_error ''ECR did not return an authorization token''
              else (case second_part (base64_decode (the authToken)) of
                None \<Rightarrow> Login_error writeError
              | Some password \<Rightarrow>
                  (case docker_login (docker_login_args registry) password of
                     None \<Rightarrow> Login_crash
                   | Some (code, err) \<Rightarrow>
                       if code = Some 0 then Logged_in else Login_error (''docker login failed: '' @ err)))))"

section \<open>Decoding what was encoded\<close>

lemma sextet_char: "i < 64 \<Longrightarrow> sextet (base64_chars ! i) = Some i"
proof -
  have "list_all (\<lambda>i. sextet (base64_chars ! i) = Some i) [0..<64]" by code_simp
  then show "i < 64 \<Longrightarrow> sextet (base64_chars ! i) = Some i" by (simp add: list_all_iff)
qed

lemma split_byte:
  fixes x y z :: nat
  assumes "y < 256" and "z < 256"
  shows "4 * (x div 4) + (16 * (x mod 4) + y div 16) div 16 = x"
    and "16 * ((16 * (x mod 4) + y div 16) mod 16) + (4 * (y mod 16) + z div 64) div 4 = y"
    and "64 * ((4 * (y mod 16) + z div 64) mod 4) + z mod 64 = z"
    and "16 * ((16 * (x mod 4) + y div 16) mod 16) + 4 * (y mod 16) div 4 = y"
    and "4 * (x div 4) + 16 * (x mod 4) div 16 = x"
proof -
  have q: "y div 16 < 16" "z div 64 < 4" using assms by auto
  have 1: "(16 * (x mod 4) + y div 16) div 16 = x mod 4" "(16 * (x mod 4) + y div 16) mod 16 = y div 16"
    "(4 * (y mod 16) + z div 64) div 4 = y mod 16" "(4 * (y mod 16) + z div 64) mod 4 = z div 64" using q by simp_all
  show "4 * (x div 4) + (16 * (x mod 4) + y div 16) div 16 = x"
    and "16 * ((16 * (x mod 4) + y div 16) mod 16) + (4 * (y mod 16) + z div 64) div 4 = y"
    and "64 * ((4 * (y mod 16) + z div 64) mod 4) + z mod 64 = z"
    and "16 * ((16 * (x mod 4) + y div 16) mod 16) + 4 * (y mod 16) div 4 = y"
    and "4 * (x div 4) + 16 * (x mod 4) div 16 = x"
    unfolding 1 by simp_all
qed

lemma byte_sextets:
  fixes x y z :: nat
  assumes "x < 256" and "y < 256" and "z < 256"
  shows "x div 4 < 64" and "16 * (x mod 4) + y div 16 < 64" and "4 * (y mod 16) + z div 64 < 64"
proof -
  show "x div 4 < 64" using assms by auto
  have "y div 16 < 16" "z div 64 < 4" "x mod 4 < 4" "y mod 16 < 16" using assms by auto
  then show "16 * (x mod 4) + y div 16 < 64" and "4 * (y mod 16) + z div 64 < 64" by linarith+
qed

lemma bytes_of_sextets_of_bytes: "\<forall>x \<in> set bs. x < 256 \<Longrightarrow> bytes_of_sextets (sextets_of_bytes bs) = bs"
proof (induction bs rule: sextets_of_bytes.induct)
  case (1 x y z r)
  then show ?case using split_byte(1,2) [of y z x] split_byte(3) [of y z] by (simp only: sextets_of_bytes.simps bytes_of_sextets.simps) simp
next
  case (2 x y)
  then show ?case using split_byte(1,4) [of y 0 x] by (simp only: sextets_of_bytes.simps bytes_of_sextets.simps) simp
next
  case (3 x)
  then show ?case using split_byte(5) [of 0 0 x] by (simp only: sextets_of_bytes.simps bytes_of_sextets.simps)
qed simp

lemma sextets_small: "\<forall>x \<in> set bs. x < 256 \<Longrightarrow> \<forall>i \<in> set (sextets_of_bytes bs). i < 64"
proof (induction bs rule: sextets_of_bytes.induct)
  case (1 x y z r)
  then show ?case using byte_sextets [of x y z] by simp
next
  case (2 x y)
  then show ?case using byte_sextets [of x y 0] by simp
next
  case (3 x)
  then show ?case using byte_sextets [of x 0 0] by simp
qed simp

lemma map_filter_sextets: "\<forall>i \<in> set xs. i < 64 \<Longrightarrow> List.map_filter sextet (map (\<lambda>i. base64_chars ! i) xs) = xs"
  by (induction xs) (simp_all add: List.map_filter_simps sextet_char)

lemma base64_roundtrip: "base64_decode (base64_encode s) = s"
proof -
  let ?bs = "map of_char s :: nat list"
  have small: "\<forall>x \<in> set ?bs. x < 256" by simp
  have "sextet CHR ''='' = None" by code_simp
  then have "List.map_filter sextet (case length s mod 3 of 0 \<Rightarrow> [] | Suc 0 \<Rightarrow> ''=='' | _ \<Rightarrow> ''='') = []"
    by (simp add: List.map_filter_simps split: nat.split)
  then have "List.map_filter sextet (base64_encode s) = sextets_of_bytes ?bs"
    using map_filter_sextets [OF sextets_small [OF small]] by (simp add: base64_encode_def List.map_filter_def)
  then show ?thesis
    by (simp add: base64_decode_def bytes_of_sextets_of_bytes [OF small] comp_def)
qed

section \<open>Properties\<close>

text \<open>
  The registry gets the password of the token: for a token that is the base64 text of \<open>AWS:\<close> and
  a password without a colon, \<open>docker login\<close> is given that password on its standard input, and
  not among its arguments, and the login succeeds exactly if that process ends with 0. Without a registry
  nothing is done.
\<close>

theorem ecr_login_password:
  assumes "CHR '':'' \<notin> set password"
  shows "ensureEcrLogin writeError ecr docker_login None = Logged_in \<and>
    ensureEcrLogin writeError (Inr (Some (base64_encode (''AWS:'' @ password)))) docker_login (Some (c # registry)) =
      (case docker_login [''login'', ''--username'', ''AWS'', ''--password-stdin'', c # registry] password of
         None \<Rightarrow> Login_crash
       | Some (code, err) \<Rightarrow> if code = Some 0 then Logged_in else Login_error (''docker login failed: '' @ err))"
proof -
  have "second_part (''AWS:'' @ password) = Some password"
    using assms by (simp add: second_part_def) (metis takeWhile_eq_all_conv)
  moreover have "base64_encode (''AWS:'' @ password) \<noteq> []"
    using base64_roundtrip [of "''AWS:'' @ password"] by (auto simp: base64_decode_def List.map_filter_simps)
  ultimately show ?thesis by (simp add: ensureEcrLogin_def base64_roundtrip docker_login_args_def)
qed

section \<open>Witnesses\<close>

text \<open>Witness of \<open>ecr_login_password\<close>.\<close>

theorem ecr_login_password_witness:
  "ensureEcrLogin [] (Inr (Some ''QVdTOnNlY3JldA=='')) (\<lambda>args pw. if pw = ''secret'' then Some (Some 0, []) else Some (Some 1, ''denied''))
     (Some ''r.example'') = Logged_in"
proof -
  have "base64_encode (''AWS:'' @ ''secret'') = ''QVdTOnNlY3JldA==''" by code_simp
  with ecr_login_password [of "''secret''" "[]" _ "\<lambda>args pw. if pw = ''secret'' then Some (Some 0, []) else Some (Some 1, ''denied'')"
      "CHR ''r''" "''.example''"] show ?thesis by simp
qed

end
