(* ===== verification/Spec2Isabelle.thy ===== *)
theory Spec2Isabelle
  imports Invocation Wiring Lifecycle Ecr_Login
begin

text \<open>
  A verification of the mini serverless cloud platform: accounts upload JavaScript functions, which are
  built into container images, versioned, and run on demand by a fleet of workers. Paths are below
  \<open>src/\<close> unless they begin with another directory.

  \<^bold>\<open>The program.\<close> The API process serves HTTP. \<open>auth/\<close> keeps accounts, sessions and API keys and guards
  the routes; \<open>functions/\<close> registers, lists, removes and invokes functions and sums up their
  invocations; \<open>build/\<close> takes uploads, puts them into the object store (\<open>storage/\<close>) and the table of
  builds. All of them keep their state in one database (\<open>prisma/schema.prisma\<close>). A relay publishes new builds to a
  Redis stream, a consumer runs them through one of two executors and commits a version. To invoke a
  function, the API checks the worker registry for room, puts a job into another stream and
  waits for the reply on a channel of its own (\<open>invocation/\<close>); a worker process (\<open>worker/\<close>) reads the job, runs the image
  in a container (\<open>containerExecutor.ts\<close>, with \<open>runtime/shim.js\<close> inside), publishes the outcome and
  acknowledges the job. Workers announce themselves by heartbeats, and take over jobs of workers
  that have fallen silent. \<open>metrics/\<close>, \<open>workers/\<close> and \<open>health/\<close> show the state of the system; \<open>executor.ts\<close> and
  \<open>run.ts\<close> run a function without a container.

  \<^bold>\<open>The theories.\<close>

  \<^item> \<open>MC_Prelude\<close>: strings, numbers, lists and options as JavaScript has them; the collections of
    rewrite rules that the proofs share.
  \<^item> \<open>Json\<close>: JSON values, \<open>stringify\<close> and \<open>parse\<close> with the round trip on well-formed values.
  \<^item> \<open>Database\<close>: the tables as records of lists, the constraints as guards of the writes, cascades, and
    \<open>faults\<close>, which says which calls the server refuses.
  \<^item> \<open>Redis_Service\<close>: the commands of Redis as a parameter, with locales for their documented
    effect on hashes, streams and groups, and an in-memory instance.
  \<^item> \<open>Auth\<close> (\<open>auth/\<close>): registration, login, keys, both guards, the validation of bodies, the routes; round
    trips, soundness of the guard, and a scope escalation.
  \<^item> \<open>Functions\<close> (\<open>functions/\<close>): all operations and routes; limits, tenancy, the version that is run, the
    rows that are recorded, the summary with its percentiles.
  \<^item> \<open>Object_Storage\<close> (\<open>storage/\<close>), \<open>Build\<close> (\<open>build/build.service.ts\<close>, its controller and the executors),
    \<open>Build_Queue\<close> (relay and consumer): what a build commits, the identity of images, polling,
    publication at most once by any number of relays.
  \<^item> \<open>Worker_Registry\<close>, \<open>Worker\<close>: heartbeats as leases, and the message loop of the worker with
    its reclaiming.
  \<^item> \<open>Dispatch\<close> (\<open>invocation/\<close>): request and reply as a machine of interleaved events.
  \<^item> \<open>Container_Executor\<close>, \<open>Runtime\<close>: the command line given to Docker and what is made of its result; the
    in-process executor, the shim, and the agreement of the two.
  \<^item> \<open>Platform\<close>: every write of every component to the database as one step relation, in which
    requests, builds and relays interleave; its invariant, tenant isolation, permanence of a
    revocation, and the refinement of that relation by the handlers.
  \<^item> \<open>Observability\<close> (\<open>metrics/\<close>, \<open>workers/\<close>, \<open>health/\<close>), \<open>Lifecycle\<close> (the hooks that start and stop the
    background services), \<open>Ecr_Login\<close> (\<open>worker/ecr-login.ts\<close>), \<open>Wiring\<close> (\<open>*.module.ts\<close>, \<open>main.ts\<close>,
    \<open>worker-main.ts\<close>): what each process loads, and that everything it constructs can be.
  \<^item> \<open>Api\<close>: the HTTP interface, all routes of all controllers behind body parser, guards and pipes as
    one function; complete mediation, isolation of accounts in sequences of requests, and
    their refinement of the relation of \<open>Platform\<close>.
  \<^item> \<open>Pipeline\<close>: an upload on its way through outbox, stream and consumer to a version. \<open>Samples\<close>
    (\<open>functions/\<close> of the repository): the sample handlers, and the shape of the outcomes. \<open>Client\<close> (\<open>loadtest/\<close>): both
    scripts, run against \<open>Api\<close> and \<open>Pipeline\<close>.
  \<^item> \<open>Fleet\<close>: jobs of workers that have died -- they are taken over and answered, except for the one that kills its
    worker, which kills the others in turn. \<open>Invocation\<close>: an invocation over HTTP with dispatcher, worker, container
    and shim in place of the parameters of \<open>Api\<close>; the response is what the handler did.
  \<^item> This theory: an invocation from the call to its return, and that a live worker keeps its jobs.

  \<^bold>\<open>How code becomes definitions.\<close> An operation is a function from its arguments and the state it
  touches (database, Redis, files) to a result and the new state; \<^term>\<open>Inl\<close> is an exception. Definitions keep
  the names of the code where they can. What waits and can be interleaved is a machine:
  \<open>Dispatch.step\<close> on events, \<open>Platform.platform_step\<close>, \<open>Build_Queue.relay_step\<close> and \<open>Lifecycle.life_step\<close>. Handlers that read, wait
  and write take as an argument what everyone else does meanwhile.

  \<^bold>\<open>What is assumed.\<close> Code outside the repository is a parameter: bcrypt, SHA-256 and JSON web tokens
  (\<open>Auth.bcrypt_ok\<close>, \<open>Auth.jwt_ok\<close>), Redis (the locales \<open>redis_hash\<close>, \<open>redis_stream\<close>, \<open>redis_groups\<close>, and \<open>live_streams\<close> and
  \<open>live_fleet\<close> where progress is claimed), S3, Docker (any function from
  command line and files to a run; \<open>Runtime.runs_shim\<close> where the shim matters), CodeBuild, ECR, the
  clock, generated identifiers, and user code. Every such hypothesis is discharged for a concrete instance
  by a witness.

  \<^bold>\<open>Bounds.\<close> Loops over lists are structural recursion. The loop that polls CodeBuild is bounded by the
  program itself (100 attempts), the one of the scripts that wait for a build likewise (40), and needs no other fuel; parsing terminates because every call consumes text.
  The endless loops of the worker, the consumer and the relay are given by one iteration, respectively
  by the steps of a machine; theorems about them hold for every number of iterations. Numbers are
  integers: times and limits stay far below the range in which JavaScript's doubles are exact.

  \<^bold>\<open>Not modelled.\<close> What Nest, Express and k6 do inside: the order in which a request meets parser, route,
  guards, pipes and handler, the strictness of the parser and the visibility of providers are taken from their
  documentation; the parser's limit of 100 kB, multipart uploads and the texts of the errors of router
  and parser are left out. The Prisma client and its connection; log lines; fractional and exponent notation of numbers in
  JSON, and how dates are written; the text format of Prometheus; sockets; deployment files.
\<close>

section \<open>Properties that span components\<close>

text \<open>
  C2. One invocation from end to end. A call waits for its reply, and the job it put into the stream
  is handed to a worker; the container of that worker produces an outcome. If the worker handles the message
  without an exception, it publishes exactly one message, on the channel of that call; and when that
  message arrives, the call returns the very outcome of the container: image, event, limits and
  result pass through the stream, two JSON texts and the channel unchanged.
\<close>

theorem invocation_end_to_end:
  assumes "redis_stream R" and "reachable d" and "\<not> crashed d"
    and "positions d c = Some Awaiting" and "promises d c = Some Pending" and "(c, job_fields c j) \<in> set (sent d)"
    and "c \<notin> set field_names" and "job_imageTag j \<notin> set field_names" and "json_ok (event_or_empty (job_event j))"
    and "executeVersionedFunction docker workDir uuid start (job_imageTag j) (Some (event_or_empty (job_event j)))
           \<lparr>opt_timeoutMs = Some (job_timeoutMs j), opt_memoryMb = Some (job_memoryMb j), opt_cpus = None\<rparr> fs = (Resolved out, fs1)"
    and "worker_handleMessage R sm (container_runner malformed docker workDir uuid start) m (job_fields c j) (w, fs, s) = (Done, w', fs', s')"
  shows "\<exists>body d'. published (view R s') = published (view R s) @ [(invocationResultChannel c, body)]
    \<and> run (Message (invocationResultChannel c) body # finish c) d = Some d'
    \<and> positions d' c = Some (Returned (Inr (JObj out)))"
proof -
  let ?runner = "container_runner malformed docker workDir uuid start" and ?body = "stringify (JObj out)"
  have "run_job sm ?runner (job_fields c j) fs = (Inr (Resolved out), fs1)"
    using run_job_decode [OF assms(7-9), of sm ?runner fs] assms(10) by (simp add: container_runner_def)
  then have "job_outcome (fst (run_job sm ?runner (job_fields c j) fs)) = Some out" by (simp add: job_outcome_def)
  from assms(11) [unfolded handle_outcome [OF this]] redis_stream.reply_view(2) [OF assms(1)]
  have "view R s' = acked m (say (reply_channel (job_fields c j)) ?body (view R s))" by blast
  moreover have "reply_channel (job_fields c j) = invocationResultChannel c"
    using job_fields_decode(1) [OF assms(7-9)] by (simp add: reply_channel_def undefined_text_def)
  ultimately have "published (view R s') = published (view R s) @ [(invocationResultChannel c, ?body)]"
    by (simp add: acked_def say_def upd_stream_def del: stringify.simps)
  moreover have "json_ok (JObj out)"
    using on_close_ok execute_fst [of docker workDir uuid start "job_imageTag j"] assms(10) by (metis fst_conv)
  from reply_returns [OF assms(2-5) this]
  have "\<exists>d'. run (Message (invocationResultChannel c) ?body # finish c) d = Some d' \<and> positions d' c = Some (Returned (Inr (JObj out)))" .
  ultimately show ?thesis by blast
qed


section \<open>Witnesses\<close>

text \<open>A container that reports success after seven milliseconds.\<close>

definition demo_daemon :: docker where
  "demo_daemon args limit fs =
     \<lparr>exitCode = Some 0, stderr_text = [], result_file = Some (stringify (JObj (outcome_success (JNum 7) 5))), closed_at = 7\<rparr>"

abbreviation "demo_job_options \<equiv>
  \<lparr>opt_timeoutMs = Some (job_timeoutMs demo_job), opt_memoryMb = Some (job_memoryMb demo_job), opt_cpus = None\<rparr>"

abbreviation "demo_container \<equiv> container_runner demo_runner demo_daemon ''/t/w'' ''u'' 0"

lemma demo_daemon_outcome:
  "\<exists>out. fst (executeVersionedFunction demo_daemon ''/t/w'' ''u'' 0 (job_imageTag demo_job)
     (Some (event_or_empty (job_event demo_job))) demo_job_options Map.empty) = Resolved out"
proof -
  have "parse (stringify (JObj (outcome_success (JNum 7) 5))) = Some (JObj (outcome_success (JNum 7) 5))"
    by (rule parse_stringify) (simp add: outcome_success_def)
  then show ?thesis by (simp add: execute_fst demo_daemon_def on_close_def Let_def)
qed

lemma demo_call_sent:
  "\<exists>d. run (demo_sending @ [XaddOk ''c1'']) init_dispatcher = Some d \<and> positions d ''c1'' = Some Awaiting \<and> \<not> crashed d
     \<and> promises d ''c1'' = Some Pending \<and> (''c1'', job_fields ''c1'' demo_job) \<in> set (sent d)"
  by (simp add: demo_run_defs del: stringify.simps)

text \<open>Witness of C2: call \<open>c1\<close>, served by worker \<open>w2\<close>.\<close>

theorem invocation_end_to_end_witness:
  "\<exists>d d' body out s'. run (demo_sending @ [XaddOk ''c1'']) init_dispatcher = Some d
     \<and> published (view mem_redis s') = published (view mem_redis demo_queue) @ [(invocationResultChannel ''c1'', body)]
     \<and> run (Message (invocationResultChannel ''c1'') body # finish ''c1'') d = Some d'
     \<and> positions d' ''c1'' = Some (Returned (Inr (JObj out)))"
proof -
  obtain d where d: "run (demo_sending @ [XaddOk ''c1'']) init_dispatcher = Some d" "positions d ''c1'' = Some Awaiting"
    "\<not> crashed d" "promises d ''c1'' = Some Pending" "(''c1'', job_fields ''c1'' demo_job) \<in> set (sent d)"
    using demo_call_sent by blast
  obtain out fs1 where x: "executeVersionedFunction demo_daemon ''/t/w'' ''u'' 0 (job_imageTag demo_job)
      (Some (event_or_empty (job_event demo_job))) demo_job_options Map.empty = (Resolved out, fs1)"
    using demo_daemon_outcome by (metis prod.collapse)
  have "job_outcome (fst (run_job undefined_text demo_container (job_fields ''c1'' demo_job) Map.empty)) = Some out"
    using run_job_decode [OF demo_job_ok, of undefined_text demo_container Map.empty] x
    by (simp add: container_runner_def job_outcome_def)
  then obtain w' fs' s' where h: "worker_handleMessage mem_redis undefined_text demo_container ''1'' (job_fields ''c1'' demo_job)
      (demo_worker, Map.empty, demo_queue) = (Done, w', fs', s')"
    by (simp add: handle_outcome reply_and_ack_def mem_redis_def del: stringify.simps)
  from invocation_end_to_end [OF memr.redis_stream_axioms reachable_run [OF reachable.init d(1)] d(3,2,4,5) demo_job_ok x h] d(1)
  show ?thesis by blast
qed

text \<open>Message \<open>1\<close> is pending for the worker \<open>w1\<close> of the theory \<open>Lifecycle\<close>, which is up at time 5000.\<close>

definition demo_busy :: mem where
  "demo_busy = mem_stream INVOCATION_STREAM_KEY (deliver INVOCATION_CONSUMER_GROUP ''w1'' 0 ''1'') demo_alive"

lemma demo_busy_run: "life_run mem_redis ''w1'' 7000 (init_life 0, empty_mem) (demo_life 1, demo_busy)"
proof -
  have h: "hashes (view mem_redis demo_busy) = hashes (view mem_redis demo_alive)"
    by (simp add: demo_busy_def mem_redis_def mem_view_stream upd_stream_def)
  have "registry_ok mem_redis demo_alive"
    using life_run_ok [OF memr.redis_hash_axioms memr.redis_groups_axioms _ demo_life_run init_life_ok] empty_mem_registry
    by (simp add: life_ok_def)
  then have "registry_ok mem_redis demo_busy" using h by (simp add: registry_ok_def)
  from life_run.step [OF demo_life_run life_step.Others [OF this]] h show ?thesis by simp
qed


end
